(* ===== verification/JS_Prelude.thy ===== *)
theory JS_Prelude
  imports "HOL-Library.Word"
begin

unbundle bit_operations_syntax

text \<open>
  Shared ground of the development: the fragment of JavaScript that the modelled files use.

  \<^item> A JavaScript string is a sequence of 16-bit code units: type \<open>jstr\<close>.  \<open>js\<close> turns an
    ASCII literal into such a string.
  \<^item> The bitwise operators work on 32-bit patterns: type \<open>int32\<close>.  The shift operators use
    the shift count modulo 32.
  \<^item> Arrays with holes (created by \<open>Array(n)\<close>) are lists of options: reading a hole or past the
    end gives \<open>undefined\<close>, which the bitwise operators coerce to 0; assigning past the end
    extends the array with holes.
  \<^item> The string methods \<open>substr\<close>, \<open>slice\<close>, \<open>charAt\<close>, \<open>join\<close>, \<open>toString(16)\<close> and
    \<open>toLowerCase\<close> (on ASCII).
\<close>

named_theorems js_simps \<open>unfolding rules of the JavaScript string and array operations\<close>

section \<open>Strings\<close>

type_synonym jchar = "16 word"
type_synonym jstr = "jchar list"

definition js :: "string \<Rightarrow> jstr" where
  "js s = map (\<lambda>c. of_char c) s"

lemma js_Nil [simp]: "js [] = []"
  by (simp add: js_def)

lemma js_Cons [simp]: "js (c # cs) = of_char c # js cs"
  by (simp add: js_def)

lemma js_append: "js (s @ t) = js s @ js t"
  by (simp add: js_def)

lemma length_js [simp]: "length (js s) = length s"
  by (simp add: js_def)

text \<open>
  \<open>str.charAt(i)\<close> is the empty string outside the range; \<open>str.substr(start, len)\<close> with a
  negative \<open>start\<close> counts from the end (and not before the beginning); \<open>len\<close> is an integer, and
  a negative one gives the empty string; \<open>str.slice(start)\<close> likewise.
\<close>

definition charAt :: "jstr \<Rightarrow> nat \<Rightarrow> jstr" where
  "charAt s i = (if i < length s then [s ! i] else [])"

definition substr :: "jstr \<Rightarrow> int \<Rightarrow> int \<Rightarrow> jstr" where
  "substr s start len =
     (let from = (if start < 0 then max 0 (int (length s) + start) else start)
      in take (nat len) (drop (nat from) s))"

definition slice_from :: "jstr \<Rightarrow> int \<Rightarrow> jstr" where
  "slice_from s start =
     drop (nat (if start < 0 then max 0 (int (length s) + start) else start)) s"

fun join :: "jstr list \<Rightarrow> jstr \<Rightarrow> jstr" where
  "join [] sep = []"
| "join [s] sep = s"
| "join (s # t # ts) sep = s @ sep @ join (t # ts) sep"

declare charAt_def [js_simps] substr_def [js_simps] slice_from_def [js_simps]

text \<open>\<open>Number.prototype.toString(16)\<close> on a non-negative integer.\<close>

definition hexDigit :: "nat \<Rightarrow> jchar" where
  "hexDigit n = (if n < 10 then of_nat (48 + n) else of_nat (87 + n))"

fun toString16 :: "nat \<Rightarrow> jstr" where
  "toString16 n = (if n < 16 then [hexDigit n] else toString16 (n div 16) @ [hexDigit (n mod 16)])"

declare toString16.simps [simp del]

text \<open>\<open>toLowerCase\<close>, restricted to the ASCII letters.\<close>

definition toLower :: "jchar \<Rightarrow> jchar" where
  "toLower c = (if 65 \<le> c \<and> c \<le> 90 then c + 32 else c)"

text \<open>The white-space class of regular expressions and \<open>trim\<close>.\<close>

definition js_space :: "jchar \<Rightarrow> bool" where
  "js_space c \<longleftrightarrow>
     c \<in> {9, 10, 11, 12, 13, 32, 0xA0, 0x1680, 0x2028, 0x2029, 0x202F, 0x205F, 0x3000, 0xFEFF} \<or>
     (0x2000 \<le> c \<and> c \<le> 0x200A)"

definition trim_left :: "jstr \<Rightarrow> jstr" where
  "trim_left s = dropWhile js_space s"

definition trim_right :: "jstr \<Rightarrow> jstr" where
  "trim_right s = rev (dropWhile js_space (rev s))"

section \<open>Bitwise operators on 32-bit patterns\<close>

type_synonym int32 = "32 word"

definition js_shl :: "int32 \<Rightarrow> nat \<Rightarrow> int32" where
  "js_shl v n = push_bit (n mod 32) v"

definition js_ushr :: "int32 \<Rightarrow> nat \<Rightarrow> int32" where
  "js_ushr v n = drop_bit (n mod 32) v"

section \<open>Arrays with holes\<close>

definition arr_get :: "'a option list \<Rightarrow> nat \<Rightarrow> 'a option" where
  "arr_get a i = (if i < length a then a ! i else None)"

definition arr_set :: "'a option list \<Rightarrow> nat \<Rightarrow> 'a \<Rightarrow> 'a option list" where
  "arr_set a i v =
     (if i < length a then a[i := Some v] else a @ replicate (i - length a) None @ [Some v])"

definition toInt32 :: "int32 option \<Rightarrow> int32" where
  "toInt32 v = (case v of None \<Rightarrow> 0 | Some w \<Rightarrow> w)"

lemma toInt32_simps [simp]: "toInt32 None = 0" "toInt32 (Some w) = w"
  by (simp_all add: toInt32_def)

lemma length_arr_set [simp]: "length (arr_set a i v) = max (length a) (Suc i)"
  by (auto simp: arr_set_def)

lemma arr_get_arr_set [simp]: "arr_get (arr_set a i v) j = (if j = i then Some v else arr_get a j)"
  by (auto simp: arr_set_def arr_get_def nth_append)

lemma arr_get_replicate_None [simp]: "arr_get (replicate n None) j = None"
  by (simp add: arr_get_def)

end
