(* ===== verification/MD5.thy ===== *)
theory MD5
  imports JS_Prelude
begin

unbundle bit_operations_syntax

text \<open>
  The password digest of \<open>resources/js/MD5.js\<close>: every nested function of \<open>MD5(sMessage)\<close> in the
  order of the file, then a reference definition written from RFC 1321 (padding, little-endian
  words, table-driven steps with modular addition and rotation), and the proof that the file
  computes it.  A value of a bitwise operation is its 32-bit pattern.
\<close>

section \<open>The functions of the file\<close>

definition RotateLeft :: "int32 \<Rightarrow> nat \<Rightarrow> int32" where
  "RotateLeft lValue iShiftBits = js_shl lValue iShiftBits OR js_ushr lValue (32 - iShiftBits)"

text \<open>
  The sum of two 30-bit values is below \<open>2 ^ 31\<close>, so the number addition of the source and the
  word addition agree there.
\<close>

definition AddUnsigned :: "int32 \<Rightarrow> int32 \<Rightarrow> int32" where
  "AddUnsigned lX lY =
     (let lX8 = lX AND 0x80000000;
          lY8 = lY AND 0x80000000;
          lX4 = lX AND 0x40000000;
          lY4 = lY AND 0x40000000;
          lResult = (lX AND 0x3FFFFFFF) + (lY AND 0x3FFFFFFF)
      in if lX4 AND lY4 \<noteq> 0 then ((lResult XOR 0x80000000) XOR lX8) XOR lY8
         else if lX4 OR lY4 \<noteq> 0
              then if lResult AND 0x40000000 \<noteq> 0 then ((lResult XOR 0xC0000000) XOR lX8) XOR lY8
                   else ((lResult XOR 0x40000000) XOR lX8) XOR lY8
              else (lResult XOR lX8) XOR lY8)"

definition F_md5 :: "int32 \<Rightarrow> int32 \<Rightarrow> int32 \<Rightarrow> int32" where
  "F_md5 x y z = (x AND y) OR (NOT x AND z)"

definition G_md5 :: "int32 \<Rightarrow> int32 \<Rightarrow> int32 \<Rightarrow> int32" where
  "G_md5 x y z = (x AND z) OR (y AND NOT z)"

definition H_md5 :: "int32 \<Rightarrow> int32 \<Rightarrow> int32 \<Rightarrow> int32" where
  "H_md5 x y z = x XOR y XOR z"

definition I_md5 :: "int32 \<Rightarrow> int32 \<Rightarrow> int32 \<Rightarrow> int32" where
  "I_md5 x y z = y XOR (x OR NOT z)"

definition FF :: "int32 \<Rightarrow> int32 \<Rightarrow> int32 \<Rightarrow> int32 \<Rightarrow> int32 \<Rightarrow> nat \<Rightarrow> int32 \<Rightarrow> int32" where
  "FF a b c d x s ac =
     (let a = AddUnsigned a (AddUnsigned (AddUnsigned (F_md5 b c d) x) ac)
      in AddUnsigned (RotateLeft a s) b)"

definition GG :: "int32 \<Rightarrow> int32 \<Rightarrow> int32 \<Rightarrow> int32 \<Rightarrow> int32 \<Rightarrow> nat \<Rightarrow> int32 \<Rightarrow> int32" where
  "GG a b c d x s ac =
     (let a = AddUnsigned a (AddUnsigned (AddUnsigned (G_md5 b c d) x) ac)
      in AddUnsigned (RotateLeft a s) b)"

definition HH :: "int32 \<Rightarrow> int32 \<Rightarrow> int32 \<Rightarrow> int32 \<Rightarrow> int32 \<Rightarrow> nat \<Rightarrow> int32 \<Rightarrow> int32" where
  "HH a b c d x s ac =
     (let a = AddUnsigned a (AddUnsigned (AddUnsigned (H_md5 b c d) x) ac)
      in AddUnsigned (RotateLeft a s) b)"

definition II :: "int32 \<Rightarrow> int32 \<Rightarrow> int32 \<Rightarrow> int32 \<Rightarrow> int32 \<Rightarrow> nat \<Rightarrow> int32 \<Rightarrow> int32" where
  "II a b c d x s ac =
     (let a = AddUnsigned a (AddUnsigned (AddUnsigned (I_md5 b c d) x) ac)
      in AddUnsigned (RotateLeft a s) b)"

text \<open>
  \<open>ConvertToWordArray\<close>: the \<open>while\<close> loop over the code units, then the marker bit and the two
  length words.  The array starts with one hole less than its final length.
\<close>

function convert_loop :: "jstr \<Rightarrow> nat \<Rightarrow> int32 option list \<Rightarrow> int32 option list" where
  "convert_loop sMessage lByteCount lWordArray =
     (if lByteCount < length sMessage
      then let lWordCount = (lByteCount - lByteCount mod 4) div 4;
               lBytePosition = (lByteCount mod 4) * 8
           in convert_loop sMessage (lByteCount + 1)
                (arr_set lWordArray lWordCount
                   (toInt32 (arr_get lWordArray lWordCount) OR
                    js_shl (ucast (sMessage ! lByteCount)) lBytePosition))
      else lWordArray)"
  by pat_completeness auto
termination
  by (relation "measure (\<lambda>(m, i, a). length m - i)") auto

declare convert_loop.simps [simp del]

definition ConvertToWordArray :: "jstr \<Rightarrow> int32 option list" where
  "ConvertToWordArray sMessage =
     (let lMessageLength = length sMessage;
          lNumberOfWords_temp1 = lMessageLength + 8;
          lNumberOfWords_temp2 = (lNumberOfWords_temp1 - lNumberOfWords_temp1 mod 64) div 64;
          lNumberOfWords = (lNumberOfWords_temp2 + 1) * 16;
          lWordArray = convert_loop sMessage 0 (replicate (lNumberOfWords - 1) None);
          lByteCount = lMessageLength;
          lWordCount = (lByteCount - lByteCount mod 4) div 4;
          lBytePosition = (lByteCount mod 4) * 8;
          lWordArray = arr_set lWordArray lWordCount
                         (toInt32 (arr_get lWordArray lWordCount) OR js_shl 0x80 lBytePosition);
          lWordArray = arr_set lWordArray (lNumberOfWords - 2) (js_shl (of_nat lMessageLength) 3)
      in arr_set lWordArray (lNumberOfWords - 1) (js_ushr (of_nat lMessageLength) 29))"

definition hex_byte :: "int32 \<Rightarrow> nat \<Rightarrow> jstr" where
  "hex_byte lValue lCount =
     (let lByte = js_ushr lValue (lCount * 8) AND 255;
          temp = [48] @ toString16 (unat lByte)
      in substr temp (int (length temp) - 2) 2)"

definition WordToHex :: "int32 \<Rightarrow> jstr" where
  "WordToHex lValue = concat (map (hex_byte lValue) [0, 1, 2, 3])"

text \<open>The shift amounts and one round of the main loop: the 64 assignments in source order.\<close>

abbreviation (input) S11 :: nat where "S11 \<equiv> 7"
abbreviation (input) S12 :: nat where "S12 \<equiv> 12"
abbreviation (input) S13 :: nat where "S13 \<equiv> 17"
abbreviation (input) S14 :: nat where "S14 \<equiv> 22"
abbreviation (input) S21 :: nat where "S21 \<equiv> 5"
abbreviation (input) S22 :: nat where "S22 \<equiv> 9"
abbreviation (input) S23 :: nat where "S23 \<equiv> 14"
abbreviation (input) S24 :: nat where "S24 \<equiv> 20"
abbreviation (input) S31 :: nat where "S31 \<equiv> 4"
abbreviation (input) S32 :: nat where "S32 \<equiv> 11"
abbreviation (input) S33 :: nat where "S33 \<equiv> 16"
abbreviation (input) S34 :: nat where "S34 \<equiv> 23"
abbreviation (input) S41 :: nat where "S41 \<equiv> 6"
abbreviation (input) S42 :: nat where "S42 \<equiv> 10"
abbreviation (input) S43 :: nat where "S43 \<equiv> 15"
abbreviation (input) S44 :: nat where "S44 \<equiv> 21"

type_synonym md5_state = "int32 \<times> int32 \<times> int32 \<times> int32"

definition md5_body :: "(nat \<Rightarrow> int32) \<Rightarrow> nat \<Rightarrow> md5_state \<Rightarrow> md5_state" where
  "md5_body x k = (\<lambda>(a, b, c, d).
     let AA = a; BB = b; CC = c; DD = d;
        a = FF a b c d (x (k + 0)) S11 0xD76AA478;
        d = FF d a b c (x (k + 1)) S12 0xE8C7B756;
        c = FF c d a b (x (k + 2)) S13 0x242070DB;
        b = FF b c d a (x (k + 3)) S14 0xC1BDCEEE;
        a = FF a b c d (x (k + 4)) S11 0xF57C0FAF;
        d = FF d a b c (x (k + 5)) S12 0x4787C62A;
        c = FF c d a b (x (k + 6)) S13 0xA8304613;
        b = FF b c d a (x (k + 7)) S14 0xFD469501;
        a = FF a b c d (x (k + 8)) S11 0x698098D8;
        d = FF d a b c (x (k + 9)) S12 0x8B44F7AF;
        c = FF c d a b (x (k + 10)) S13 0xFFFF5BB1;
        b = FF b c d a (x (k + 11)) S14 0x895CD7BE;
        a = FF a b c d (x (k + 12)) S11 0x6B901122;
        d = FF d a b c (x (k + 13)) S12 0xFD987193;
        c = FF c d a b (x (k + 14)) S13 0xA679438E;
        b = FF b c d a (x (k + 15)) S14 0x49B40821;
        a = GG a b c d (x (k + 1)) S21 0xF61E2562;
        d = GG d a b c (x (k + 6)) S22 0xC040B340;
        c = GG c d a b (x (k + 11)) S23 0x265E5A51;
        b = GG b c d a (x (k + 0)) S24 0xE9B6C7AA;
        a = GG a b c d (x (k + 5)) S21 0xD62F105D;
        d = GG d a b c (x (k + 10)) S22 0x2441453;
        c = GG c d a b (x (k + 15)) S23 0xD8A1E681;
        b = GG b c d a (x (k + 4)) S24 0xE7D3FBC8;
        a = GG a b c d (x (k + 9)) S21 0x21E1CDE6;
        d = GG d a b c (x (k + 14)) S22 0xC33707D6;
        c = GG c d a b (x (k + 3)) S23 0xF4D50D87;
        b = GG b c d a (x (k + 8)) S24 0x455A14ED;
        a = GG a b c d (x (k + 13)) S21 0xA9E3E905;
        d = GG d a b c (x (k + 2)) S22 0xFCEFA3F8;
        c = GG c d a b (x (k + 7)) S23 0x676F02D9;
        b = GG b c d a (x (k + 12)) S24 0x8D2A4C8A;
        a = HH a b c d (x (k + 5)) S31 0xFFFA3942;
        d = HH d a b c (x (k + 8)) S32 0x8771F681;
        c = HH c d a b (x (k + 11)) S33 0x6D9D6122;
        b = HH b c d a (x (k + 14)) S34 0xFDE5380C;
        a = HH a b c d (x (k + 1)) S31 0xA4BEEA44;
        d = HH d a b c (x (k + 4)) S32 0x4BDECFA9;
        c = HH c d a b (x (k + 7)) S33 0xF6BB4B60;
        b = HH b c d a (x (k + 10)) S34 0xBEBFBC70;
        a = HH a b c d (x (k + 13)) S31 0x289B7EC6;
        d = HH d a b c (x (k + 0)) S32 0xEAA127FA;
        c = HH c d a b (x (k + 3)) S33 0xD4EF3085;
        b = HH b c d a (x (k + 6)) S34 0x4881D05;
        a = HH a b c d (x (k + 9)) S31 0xD9D4D039;
        d = HH d a b c (x (k + 12)) S32 0xE6DB99E5;
        c = HH c d a b (x (k + 15)) S33 0x1FA27CF8;
        b = HH b c d a (x (k + 2)) S34 0xC4AC5665;
        a = II a b c d (x (k + 0)) S41 0xF4292244;
        d = II d a b c (x (k + 7)) S42 0x432AFF97;
        c = II c d a b (x (k + 14)) S43 0xAB9423A7;
        b = II b c d a (x (k + 5)) S44 0xFC93A039;
        a = II a b c d (x (k + 12)) S41 0x655B59C3;
        d = II d a b c (x (k + 3)) S42 0x8F0CCC92;
        c = II c d a b (x (k + 10)) S43 0xFFEFF47D;
        b = II b c d a (x (k + 1)) S44 0x85845DD1;
        a = II a b c d (x (k + 8)) S41 0x6FA87E4F;
        d = II d a b c (x (k + 15)) S42 0xFE2CE6E0;
        c = II c d a b (x (k + 6)) S43 0xA3014314;
        b = II b c d a (x (k + 13)) S44 0x4E0811A1;
        a = II a b c d (x (k + 4)) S41 0xF7537E82;
        d = II d a b c (x (k + 11)) S42 0xBD3AF235;
        c = II c d a b (x (k + 2)) S43 0x2AD7D2BB;
        b = II b c d a (x (k + 9)) S44 0xEB86D391;
        a = AddUnsigned a AA;
        b = AddUnsigned b BB;
        c = AddUnsigned c CC;
        d = AddUnsigned d DD
     in (a, b, c, d))"

function md5_loop :: "int32 option list \<Rightarrow> nat \<Rightarrow> md5_state \<Rightarrow> md5_state" where
  "md5_loop x k st =
     (if k < length x then md5_loop x (k + 16) (md5_body (\<lambda>i. toInt32 (arr_get x i)) k st) else st)"
  by pat_completeness auto
termination
  by (relation "measure (\<lambda>(x, k, st). length x - k)") auto

declare md5_loop.simps [simp del]

definition MD5 :: "jstr \<Rightarrow> jstr" where
  "MD5 sMessage =
     (let x = ConvertToWordArray sMessage;
          (a, b, c, d) = md5_loop x 0 (0x67452301, 0xEFCDAB89, 0x98BADCFE, 0x10325476);
          temp = WordToHex a @ WordToHex b @ WordToHex c @ WordToHex d
      in map toLower temp)"

section \<open>The arithmetic of the file is the arithmetic of words\<close>

lemma and_exp_cases: "x AND 2 ^ n = 0 \<or> x AND 2 ^ n = 2 ^ n" for x :: "'a::len word"
  by (cases "bit x n") (auto intro!: bit_word_eqI simp: bit_simps and_exp_eq_0_iff_not_bit)

lemma and_masks_add: "(x AND m) + (x AND n) = x AND (m OR n)" if "m AND n = 0"
  for x :: "'a::len word"
proof -
  have "(x AND m) AND (x AND n) = x AND (m AND n)"
    by (metis and.assoc and.commute and.idem)
  with that have "(x AND m) + (x AND n) = (x AND m) OR (x AND n)"
    by (simp add: disjunctive_add_eq_or)
  then show ?thesis
    by (simp add: bit.conj_disj_distrib)
qed

lemma xor_plus_and: "(x XOR y) + (x AND y) = x OR y" for x y :: "'a::len word"
proof -
  have "(x XOR y) AND (x AND y) = 0"
    by (rule bit_word_eqI) (auto simp: bit_simps)
  then have "(x XOR y) + (x AND y) = (x XOR y) OR (x AND y)"
    by (rule disjunctive_add_eq_or)
  also have "\<dots> = x OR y"
    by (rule bit_word_eqI) (auto simp: bit_simps)
  finally show ?thesis .
qed

lemma xor_eq_plus: "x XOR y = x + y - 2 * (x AND y)" for x y :: "'a::len word"
proof -
  have "x + y = (x AND y) + ((x XOR y) + (x AND y))"
    by (simp add: xor_plus_and)
  then show ?thesis by (simp add: algebra_simps)
qed

lemma int32_mask_split: "x = (x AND 0x80000000) + ((x AND 0x40000000) + (x AND 0x3FFFFFFF))" for x :: int32
proof -
  have "(0xFFFFFFFF :: int32) = - 1" by simp
  then have "x = x AND 0xFFFFFFFF" by (simp only: and.right_neutral)
  then show ?thesis by (simp add: and_masks_add)
qed

lemma xor_top_bit: "x XOR 0x80000000 = x + 0x80000000" for x :: int32
  using xor_eq_plus[of x "0x80000000"] and_exp_cases[of x 31] by auto


lemma int32_xor30: "r XOR 0x40000000 = r + 0x40000000" if "r AND 0x40000000 = 0" for r :: int32
  using that xor_eq_plus [of r "0x40000000"] by simp

lemma int32_xor31_30: "r XOR 0xC0000000 = r + 0x40000000" if "r AND 0x40000000 \<noteq> 0" for r :: int32
proof -
  have bit30: "r AND 0x40000000 = 0x40000000"
    using that and_exp_cases [of r 30] by simp
  have "r XOR 0xC0000000 = (r XOR 0x40000000) XOR 0x80000000"
    by (simp add: xor.assoc)
  also have "\<dots> = r + 0x40000000 - 2 * 0x40000000 + 0x80000000"
    unfolding xor_top_bit xor_eq_plus [of r "0x40000000"] bit30 ..
  finally show ?thesis by simp
qed

lemma int32_halves: "x AND 0x80000000 = 0 \<or> x AND 0x80000000 = 0x80000000"
   "x AND 0x40000000 = 0 \<or> x AND 0x40000000 = 0x40000000" for x :: int32
  using and_exp_cases [of x 31] and_exp_cases [of x 30] by simp_all

lemma AddUnsigned_parts:
  "AddUnsigned x y =
     (x AND 0x80000000) + (y AND 0x80000000) + ((x AND 0x40000000) + (y AND 0x40000000))
     + ((x AND 0x3FFFFFFF) + (y AND 0x3FFFFFFF))" 
proof -
  define r where "r = (x AND 0x3FFFFFFF) + (y AND 0x3FFFFFFF)"
  have top: "(r' XOR (x AND 0x80000000)) XOR (y AND 0x80000000) = r' + ((x AND 0x80000000) + (y AND 0x80000000))" for r'
    using int32_halves(1) [of x] int32_halves(1) [of y] 
    by (elim disjE) (simp_all add: xor_top_bit flip: xor.assoc)
  have lhs: "AddUnsigned x y =
     (if (x AND 0x40000000) AND (y AND 0x40000000) \<noteq> 0 then r XOR 0x80000000
      else if (x AND 0x40000000) OR (y AND 0x40000000) \<noteq> 0
           then if r AND 0x40000000 \<noteq> 0 then r XOR 0xC0000000 else r XOR 0x40000000
           else r) + ((x AND 0x80000000) + (y AND 0x80000000))"
    by (simp add: AddUnsigned_def Let_def r_def top)
  also have "\<dots> = (x AND 0x40000000) + (y AND 0x40000000) + r + ((x AND 0x80000000) + (y AND 0x80000000))"
    using int32_halves(2) [of x] int32_halves(2) [of y]
    by (elim disjE) (simp_all add: xor_top_bit int32_xor30 int32_xor31_30)
  finally show ?thesis by (simp add: r_def ac_simps)
qed

lemma AddUnsigned_eq_plus: "AddUnsigned x y = x + y"
  using arg_cong2 [OF int32_mask_split [of x] int32_mask_split [of y], of "(+)"]
  by (simp add: AddUnsigned_parts ac_simps)

lemma RotateLeft_rotl: "RotateLeft x s = word_rotl s x" if "0 < s" "s < 32"
proof (rule bit_word_eqI)
  fix n assume n: "n < LENGTH(32)"
  have "(n + 32 - s) mod 32 = (if s \<le> n then n - s else 32 + n - s)"
    using n that by (auto simp: le_mod_geq)
  with n that show "bit (RotateLeft x s) n \<longleftrightarrow> bit (word_rotl s x) n"
    by (auto simp: RotateLeft_def js_shl_def js_ushr_def bit_word_rotl_iff bit_simps not_le dest: bit_imp_le_length)
qed

section \<open>Reference: RFC 1321\<close>

definition rfc_K :: "int32 list" where
  "rfc_K =
    [0xd76aa478, 0xe8c7b756, 0x242070db, 0xc1bdceee,
     0xf57c0faf, 0x4787c62a, 0xa8304613, 0xfd469501,
     0x698098d8, 0x8b44f7af, 0xffff5bb1, 0x895cd7be,
     0x6b901122, 0xfd987193, 0xa679438e, 0x49b40821,
     0xf61e2562, 0xc040b340, 0x265e5a51, 0xe9b6c7aa,
     0xd62f105d, 0x02441453, 0xd8a1e681, 0xe7d3fbc8,
     0x21e1cde6, 0xc33707d6, 0xf4d50d87, 0x455a14ed,
     0xa9e3e905, 0xfcefa3f8, 0x676f02d9, 0x8d2a4c8a,
     0xfffa3942, 0x8771f681, 0x6d9d6122, 0xfde5380c,
     0xa4beea44, 0x4bdecfa9, 0xf6bb4b60, 0xbebfbc70,
     0x289b7ec6, 0xeaa127fa, 0xd4ef3085, 0x04881d05,
     0xd9d4d039, 0xe6db99e5, 0x1fa27cf8, 0xc4ac5665,
     0xf4292244, 0x432aff97, 0xab9423a7, 0xfc93a039,
     0x655b59c3, 0x8f0ccc92, 0xffeff47d, 0x85845dd1,
     0x6fa87e4f, 0xfe2ce6e0, 0xa3014314, 0x4e0811a1,
     0xf7537e82, 0xbd3af235, 0x2ad7d2bb, 0xeb86d391]"

definition rfc_shift :: "nat \<Rightarrow> nat" where
  "rfc_shift i = [7, 12, 17, 22, 5, 9, 14, 20, 4, 11, 16, 23, 6, 10, 15, 21] ! (4 * (i div 16) + i mod 4)"

definition rfc_index :: "nat \<Rightarrow> nat" where
  "rfc_index i =
     (if i < 16 then i else if i < 32 then (5 * i + 1) mod 16
      else if i < 48 then (3 * i + 5) mod 16 else (7 * i) mod 16)"

definition rfc_fun :: "nat \<Rightarrow> int32 \<Rightarrow> int32 \<Rightarrow> int32 \<Rightarrow> int32" where
  "rfc_fun i b c d =
     (if i < 16 then (b AND c) OR (NOT b AND d) else if i < 32 then (b AND d) OR (c AND NOT d)
      else if i < 48 then b XOR c XOR d else c XOR (b OR NOT d))"

definition rfc_step :: "(nat \<Rightarrow> int32) \<Rightarrow> nat \<Rightarrow> md5_state \<Rightarrow> md5_state" where
  "rfc_step X i = (\<lambda>(a, b, c, d).
     (d, b + word_rotl (rfc_shift i) (a + rfc_fun i b c d + X (rfc_index i) + rfc_K ! i), b, c))"

definition rfc_block :: "(nat \<Rightarrow> int32) \<Rightarrow> md5_state \<Rightarrow> md5_state" where
  "rfc_block X st =
     (let (a, b, c, d) = st; (a', b', c', d') = fold (rfc_step X) [0..<64] st
      in (a' + a, b' + b, c' + c, d' + d))"

lemmas round_defs = FF_def GG_def HH_def II_def F_md5_def G_md5_def H_md5_def I_md5_def

lemma round_eqs:
  "0 < s \<Longrightarrow> s < 32 \<Longrightarrow> FF a b c d x s k = b + word_rotl s (a + rfc_fun 0 b c d + x + k)"
  "0 < s \<Longrightarrow> s < 32 \<Longrightarrow> GG a b c d x s k = b + word_rotl s (a + rfc_fun 16 b c d + x + k)"
  "0 < s \<Longrightarrow> s < 32 \<Longrightarrow> HH a b c d x s k = b + word_rotl s (a + rfc_fun 32 b c d + x + k)"
  "0 < s \<Longrightarrow> s < 32 \<Longrightarrow> II a b c d x s k = b + word_rotl s (a + rfc_fun 48 b c d + x + k)"
  by (simp_all add: round_defs AddUnsigned_eq_plus RotateLeft_rotl rfc_fun_def ac_simps)

lemma Let_named: "(\<And>y. t = y \<Longrightarrow> P (f y)) \<Longrightarrow> P (Let t f)"
  by (simp add: Let_def)


lemma rfc_shift_bounds: "i < 64 \<Longrightarrow> 0 < rfc_shift i \<and> rfc_shift i < 32"
proof -
  have "\<forall>i\<in>set [0..<64]. 0 < rfc_shift i \<and> rfc_shift i < 32" by code_simp
  then show "i < 64 \<Longrightarrow> 0 < rfc_shift i \<and> rfc_shift i < 32" by (metis atLeast0LessThan atLeastLessThan_upt lessThan_iff)
qed

lemma rfc_step_round:
  "i < 16 \<Longrightarrow> rfc_step X i (a, b, c, d) = (d, FF a b c d (X (rfc_index i)) (rfc_shift i) (rfc_K ! i), b, c)"
  "16 \<le> i \<Longrightarrow> i < 32 \<Longrightarrow> rfc_step X i (a, b, c, d) = (d, GG a b c d (X (rfc_index i)) (rfc_shift i) (rfc_K ! i), b, c)"
  "32 \<le> i \<Longrightarrow> i < 48 \<Longrightarrow> rfc_step X i (a, b, c, d) = (d, HH a b c d (X (rfc_index i)) (rfc_shift i) (rfc_K ! i), b, c)"
  "48 \<le> i \<Longrightarrow> i < 64 \<Longrightarrow> rfc_step X i (a, b, c, d) = (d, II a b c d (X (rfc_index i)) (rfc_shift i) (rfc_K ! i), b, c)"
  using rfc_shift_bounds [of i] by (simp_all add: rfc_step_def round_eqs rfc_fun_def)

lemma upt_64: "[0..<64] =
    [0, 1, 2, 3, 4, 5, 6, 7, 8, 9, 10, 11, 12, 13, 14, 15, 16, 17, 18, 19, 20, 21, 22, 23, 24,
     25, 26, 27, 28, 29, 30, 31, 32, 33, 34, 35, 36, 37, 38, 39, 40, 41, 42, 43, 44, 45, 46,
     47, 48, 49, 50, 51, 52, 53, 54, 55, 56, 57, 58, 59, 60, 61, 62, 63]"
  by code_simp

lemma md5_body_rfc: "md5_body x k st = rfc_block (\<lambda>i. x (k + i)) st"
proof (cases st)
  case (fields a b c d)
  define X where "X = (\<lambda>i. x (k + i))"
  have X: "x (k + i) = X i" for i by (simp add: X_def)
  show ?thesis
    unfolding fields md5_body_def rfc_block_def prod.case X AddUnsigned_eq_plus
      Let_def [of a] Let_def [of b] Let_def [of c] Let_def [of d] Let_def [of "(a, b, c, d)"]
    apply (intro Let_named [where P = "\<lambda>t. t = _"])
    subgoal premises eqs
      by (simp add: eqs upt_64 rfc_step_round rfc_index_def rfc_shift_def rfc_K_def del: One_nat_def)
    done
qed

section \<open>The word array\<close>

definition lew :: "(nat \<Rightarrow> int32) \<Rightarrow> nat \<Rightarrow> int32" where
  "lew f j = f (4 * j) OR push_bit 8 (f (4 * j + 1)) OR push_bit 16 (f (4 * j + 2)) OR push_bit 24 (f (4 * j + 3))"

lemma lew_single: "lew (\<lambda>p. if p = i then v else 0) j = (if j = i div 4 then push_bit (8 * (i mod 4)) v else 0)"
proof -
  define q r where "q = i div 4" and "r = i mod 4"
  then have i: "i = 4 * q + r" and "r < 4" by simp_all
  then have "4 * j = i \<longleftrightarrow> j = q \<and> r = 0" "4 * j + 1 = i \<longleftrightarrow> j = q \<and> r = 1"
    "4 * j + 2 = i \<longleftrightarrow> j = q \<and> r = 2" "4 * j + 3 = i \<longleftrightarrow> j = q \<and> r = 3"
    by arith+
  moreover from \<open>r < 4\<close> have "r = 0 \<or> r = 1 \<or> r = 2 \<or> r = 3" by arith
  ultimately show ?thesis
    unfolding lew_def q_def [symmetric] r_def [symmetric] by (elim disjE) simp_all
qed

lemma div_trunc: "(n - n mod k) div k = n div k" for n k :: nat
  by (simp add: minus_mod_eq_mult_div)

lemma lew_or: "lew (\<lambda>p. f p OR g p) j = lew f j OR lew g j"
  by (simp add: lew_def push_bit_or ac_simps)

lemma convert_loop_word:
  "toInt32 (arr_get (convert_loop s i a) j) =
     toInt32 (arr_get a j) OR lew (\<lambda>p. if i \<le> p \<and> p < length s then ucast (s ! p) else 0) j"
proof (induction s i a rule: convert_loop.induct)
  case (1 s i a)
  show ?case
  proof (cases "i < length s")
    case True
    have "(\<lambda>p. if i \<le> p \<and> p < length s then ucast (s ! p) else 0 :: int32) =
       (\<lambda>p. (if p = i then ucast (s ! i) else 0) OR (if i + 1 \<le> p \<and> p < length s then ucast (s ! p) else 0))"
      using True by (auto simp: fun_eq_iff)
    then have "lew (\<lambda>p. if i \<le> p \<and> p < length s then ucast (s ! p) else 0) j =
       (if j = i div 4 then push_bit (8 * (i mod 4)) (ucast (s ! i)) else 0) OR
        lew (\<lambda>p. if i + 1 \<le> p \<and> p < length s then ucast (s ! p) else 0) j"
      by (simp only: lew_or lew_single)
    moreover have "8 * (i mod 4) < 32" by simp
    ultimately show ?thesis
      using 1 [OF True refl refl] True
      by (subst convert_loop.simps) (simp add: Let_def js_shl_def div_trunc ac_simps)
  next
    case False
    then have "(\<lambda>p. if i \<le> p \<and> p < length s then ucast (s ! p) else 0 :: int32) = (\<lambda>p. 0)" by (auto simp: fun_eq_iff)
    with False show ?thesis by (subst convert_loop.simps) (simp add: lew_def)
  qed
qed

lemma convert_loop_length: "length s \<le> 4 * length a \<Longrightarrow> length (convert_loop s i a) = length a"
proof (induction s i a rule: convert_loop.induct)
  case (1 s i a)
  show ?case
  proof (cases "i < length s")
    case True
    then have "i div 4 < length a" using 1(2) by (simp add: div_less_iff_less_mult)
    then show ?thesis using 1(1) [OF True refl refl] 1(2) True
      by (subst convert_loop.simps) (simp add: Let_def div_trunc max_def)
  next
    case False then show ?thesis by (subst convert_loop.simps) simp
  qed
qed

definition word_count :: "nat \<Rightarrow> nat" where "word_count n = ((n + 8) div 64 + 1) * 16"

lemma word_count_bounds: "n div 4 + 2 < word_count n" "n + 9 \<le> 4 * word_count n" "16 \<le> word_count n"
proof -
  have "64 * ((n + 8) div 64) + (n + 8) mod 64 = n + 8" and "(n + 8) mod 64 < 64"
    by simp_all
  then show *: "n + 9 \<le> 4 * word_count n"
    by (simp add: word_count_def)
  have "4 * (n div 4) \<le> n"
    by simp
  with * show "n div 4 + 2 < word_count n"
    by linarith
  show "16 \<le> word_count n"
    by (simp add: word_count_def)
qed

lemma ConvertToWordArray_word:
  "toInt32 (arr_get (ConvertToWordArray s) j) =
     (if j = word_count (length s) - 1 then js_ushr (of_nat (length s)) 29
      else if j = word_count (length s) - 2 then js_shl (of_nat (length s)) 3
      else lew (\<lambda>p. if p < length s then ucast (s ! p) else if p = length s then 0x80 else 0) j)"
proof -
  have "(\<lambda>p. if p < length s then ucast (s ! p) else if p = length s then 0x80 else 0 :: int32) =
      (\<lambda>p. (if 0 \<le> p \<and> p < length s then ucast (s ! p) else 0) OR (if p = length s then 0x80 else 0))"
    by (auto simp: fun_eq_iff)
  then have *: "lew (\<lambda>p. if p < length s then ucast (s ! p) else if p = length s then 0x80 else 0) j =
     lew (\<lambda>p. if 0 \<le> p \<and> p < length s then ucast (s ! p) else 0) j OR
     (if j = length s div 4 then push_bit (8 * (length s mod 4)) 0x80 else 0)"
    by (simp only: lew_or lew_single)
  have m: "length s mod 4 * 8 < 32" by simp
  show ?thesis
    unfolding * ConvertToWordArray_def Let_def div_trunc word_count_def [symmetric]
    using word_count_bounds(1) [of "length s"]
    by (simp add: convert_loop_word js_shl_def mult.commute)
qed

lemma ConvertToWordArray_length: "length (ConvertToWordArray s) = word_count (length s)"
  unfolding ConvertToWordArray_def Let_def div_trunc word_count_def [symmetric]
  using word_count_bounds [of "length s"] by (simp add: convert_loop_length)

text \<open>
  Padding, the block words, the state after all blocks and the digest bytes, as the RFC has them.
\<close>

definition le64 :: "nat \<Rightarrow> 8 word list" where
  "le64 n = map (\<lambda>t. of_nat (drop_bit (8 * t) n)) [0, 1, 2, 3, 4, 5, 6, 7]"

definition rfc_pad :: "8 word list \<Rightarrow> 8 word list" where
  "rfc_pad m = m @ [0x80] @ replicate ((119 - length m mod 64) mod 64) 0 @ le64 (8 * length m)"

definition rfc_word :: "8 word list \<Rightarrow> nat \<Rightarrow> int32" where
  "rfc_word bs j = lew (\<lambda>p. ucast (bs ! p)) j"

definition rfc_init :: md5_state where
  "rfc_init = (0x67452301, 0xefcdab89, 0x98badcfe, 0x10325476)"

definition rfc_state :: "8 word list \<Rightarrow> md5_state" where
  "rfc_state m =
     (let p = rfc_pad m
      in fold (\<lambda>b. rfc_block (\<lambda>i. rfc_word p (16 * b + i))) [0..<length p div 64] rfc_init)"

definition rfc_digest :: "8 word list \<Rightarrow> 8 word list" where
  "rfc_digest m =
     (let (a, b, c, d) = rfc_state m
      in concat (map (\<lambda>w. map (\<lambda>t. ucast (drop_bit (8 * t) w)) [0, 1, 2, 3]) [a, b, c, d]))"

definition hex_of_bytes :: "8 word list \<Rightarrow> jstr" where
  "hex_of_bytes bs = concat (map (\<lambda>b. [hexDigit (unat b div 16), hexDigit (unat b mod 16)]) bs)"

lemma pad_length: "n + 1 + (119 - n mod 64) mod 64 + 8 = 4 * word_count n" for n :: nat
proof -
  define q r where "q = n div 64" and "r = n mod 64"
  then have n: "n = 64 * q + r" and r: "r < 64" by simp_all
  have "(119 - r) mod 64 = (if r < 56 then 55 - r else 119 - r)"
    using r by (simp add: le_mod_geq)
  moreover have "(n + 8) div 64 = (if r < 56 then q else q + 1)"
    using r div_mult_self4 [of 64 q "r + 8"] by (auto simp: n add.assoc intro!: div_nat_eqI)
  ultimately show ?thesis
    using r by (simp add: word_count_def n split: if_splits)
qed

lemma length_rfc_pad: "length (rfc_pad m) = 4 * word_count (length m)"
  using pad_length [of "length m"] by (simp add: rfc_pad_def le64_def)

lemma ucast_of_nat_bits: "lew (\<lambda>p. ucast (of_nat (drop_bit (8 * (p - c)) n) :: 8 word)) j = of_nat (drop_bit (8 * (4 * j - c)) n)"
  if "c \<le> 4 * j"
proof (rule bit_word_eqI)
  fix k assume "k < LENGTH(32)"
  then have "k < 8 \<or> 8 \<le> k \<and> k < 16 \<or> 16 \<le> k \<and> k < 24 \<or> 24 \<le> k \<and> k < 32" by auto
  then show "bit (lew (\<lambda>p. ucast (of_nat (drop_bit (8 * (p - c)) n) :: 8 word)) j) k \<longleftrightarrow> 
     bit (of_nat (drop_bit (8 * (4 * j - c)) n) :: int32) k"
    using that by (elim disjE) (auto simp: lew_def bit_simps  algebra_simps)
qed

lemma ucast_ucast_eq8: "ucast (ucast c :: 8 word) = (ucast c :: int32)" if "c < 256" for c :: jchar
proof (rule bit_word_eqI)
  fix n assume "n < LENGTH(32)"
  have "take_bit 8 c = c"
    using that less_mask_eq [of c 8] by (simp add: take_bit_eq_mask)
  then have "bit c n \<longleftrightarrow> n < 8 \<and> bit c n" by (metis bit_take_bit_iff)
  with \<open>n < LENGTH(32)\<close> show "bit (ucast (ucast c :: 8 word) :: int32) n \<longleftrightarrow> bit (ucast c :: int32) n"
    by (auto simp: bit_simps)
qed

lemma rfc_pad_nth:
  fixes s :: jstr
  assumes "\<forall>c\<in>set s. c < 256" and "p < length (rfc_pad (map ucast s))"
  shows "ucast (rfc_pad (map ucast s) ! p) =
     (if p < length s then ucast (s ! p) else if p = length s then 0x80
      else if p < 4 * word_count (length s) - 8 then 0
      else ucast (of_nat (drop_bit (8 * (p - (4 * word_count (length s) - 8))) (8 * length s)) :: 8 word) :: int32)"
proof -
  define z where "z = (119 - length s mod 64) mod 64"
  have wc: "4 * word_count (length s) = length s + 1 + z + 8"
    unfolding z_def using pad_length [of "length s"] by simp
  have u: "ucast (ucast (s ! p) :: 8 word) = (ucast (s ! p) :: int32)" if "p < length s"
    using assms(1) that by (simp add: ucast_ucast_eq8)
  have le: "le64 n ! t = of_nat (drop_bit (8 * t) n)" if "t < 8" for n t
    using that by (auto simp: le64_def less_Suc_eq numeral_eq_Suc)
  have pad: "rfc_pad (map ucast s) = map ucast s @ [0x80] @ replicate z 0 @ le64 (8 * length s)"
    by (simp add: rfc_pad_def z_def)
  have len8: "length (le64 n) = 8" for n
    by (simp add: le64_def)
  show ?thesis
    using assms(2) u unfolding pad wc
    by (auto simp: nth_append nth_Cons' le len8)
qed


lemma js_len_words:
  assumes "n < 2 ^ 32"
  shows "of_nat (drop_bit 32 (8 * n)) = js_ushr (of_nat n) 29"
    and "of_nat (8 * n) = js_shl (of_nat n) 3"
proof -
  have 8: "8 * n = push_bit 3 n" by (simp add: push_bit_eq_mult)
  have hi: "\<not> bit n k" if "32 \<le> k" for k
  proof -
    have "n < 2 ^ k" using assms that by (meson less_le_trans one_le_numeral power_increasing)
    then show ?thesis by (simp add: bit_iff_odd)
  qed
  show "of_nat (drop_bit 32 (8 * n)) = js_ushr (of_nat n) 29"
  proof (rule bit_word_eqI)
    fix k assume "k < LENGTH(32)"
    then show "bit (of_nat (drop_bit 32 (8 * n)) :: int32) k \<longleftrightarrow> bit (js_ushr (of_nat n) 29) k"
      using hi [of "29 + k"] unfolding js_ushr_def 8 by (cases "k < 3") (auto simp: bit_simps)
  qed
  show "of_nat (8 * n) = js_shl (of_nat n) 3"
    unfolding js_shl_def 8 by (rule bit_word_eqI) (auto simp: bit_simps)
qed

lemma lew_cong: "(\<And>t. t < 4 \<Longrightarrow> f (4 * j + t) = g (4 * j + t)) \<Longrightarrow> lew f j = lew g j"
proof -
  assume eq: "\<And>t. t < 4 \<Longrightarrow> f (4 * j + t) = g (4 * j + t)"
  show "lew f j = lew g j"
    using eq [of 0] eq [of 1] eq [of 2] eq [of 3] by (simp add: lew_def)
qed

lemma ConvertToWordArray_rfc:
  fixes s :: jstr
  assumes chars: "\<forall>c\<in>set s. c < 256" and len: "length s < 2 ^ 32" and j: "j < word_count (length s)"
  shows "toInt32 (arr_get (ConvertToWordArray s) j) = rfc_word (rfc_pad (map ucast s)) j"
proof -
  let ?n = "length s" and ?N = "word_count (length s)"
  let ?p = "\<lambda>p. if p < ?n then ucast (s ! p) else if p = ?n then 0x80
      else if p < 4 * ?N - 8 then 0
      else ucast (of_nat (drop_bit (8 * (p - (4 * ?N - 8))) (8 * ?n)) :: 8 word) :: int32"
  have w: "rfc_word (rfc_pad (map ucast s)) j = lew ?p j"
    unfolding rfc_word_def using j
    by (intro lew_cong rfc_pad_nth [OF chars]) (simp add: length_rfc_pad)
  have N: "?n + 9 \<le> 4 * ?N" "16 \<le> ?N" using word_count_bounds [of ?n] by simp_all
  show ?thesis
  proof (cases "j < ?N - 2")
    case True
    then have "lew ?p j = lew (\<lambda>p. if p < ?n then ucast (s ! p) else if p = ?n then 0x80 else 0) j"
      by (intro lew_cong) auto
    with True j show ?thesis unfolding w ConvertToWordArray_word by auto
  next
    case False
    then have "lew ?p j = lew (\<lambda>p. ucast (of_nat (drop_bit (8 * (p - (4 * ?N - 8))) (8 * ?n)) :: 8 word)) j"
      using N by (intro lew_cong) auto
    also have "\<dots> = of_nat (drop_bit (8 * (4 * j - (4 * ?N - 8))) (8 * ?n))"
      using False by (intro ucast_of_nat_bits) auto
    also have "\<dots> = (if j = ?N - 1 then js_ushr (of_nat ?n) 29 else js_shl (of_nat ?n) 3)"
    proof (cases "j = ?N - 1")
      case True
      then have "8 * (4 * j - (4 * ?N - 8)) = 32" using N by auto
      with True show ?thesis using js_len_words(1) [OF len] by simp
    next
      case False
      with \<open>\<not> j < ?N - 2\<close> j have "8 * (4 * j - (4 * ?N - 8)) = 0" by auto
      with False show ?thesis using js_len_words(2) [OF len] by simp
    qed
    finally show ?thesis
      using False j unfolding w ConvertToWordArray_word by auto
  qed
qed

lemma md5_loop_rfc:
  "md5_loop x (16 * k) st = fold (\<lambda>b. rfc_block (\<lambda>i. toInt32 (arr_get x (16 * b + i)))) [k..<n] st"
  if "length x = 16 * n" "k \<le> n"
  using that(2)
proof (induction "n - k" arbitrary: k st)
  case 0
  then show ?case using that(1) by (subst md5_loop.simps) simp
next
  case (Suc m)
  then have "k < n" by simp
  have "m = n - (k + 1)" using Suc by simp
  from Suc(1) [OF this] \<open>k < n\<close> that(1) show ?case
    by (subst md5_loop.simps) (simp add: md5_body_rfc upt_conv_Cons algebra_simps)
qed

lemma rfc_index_less: "rfc_index i < 16"
  by (simp add: rfc_index_def)

lemma rfc_block_cong: "(\<And>i. i < 16 \<Longrightarrow> X i = Y i) \<Longrightarrow> rfc_block X = rfc_block Y"
  by (simp add: rfc_block_def rfc_step_def rfc_index_less fun_eq_iff cong: fold_cong)


lemma toString16_byte: "n < 256 \<Longrightarrow> toString16 n = (if n < 16 then [hexDigit n] else [hexDigit (n div 16), hexDigit (n mod 16)])"
  by (subst toString16.simps) (simp add: toString16.simps [of "n div 16"] less_mult_imp_div_less)

lemma hex_byte_eq:
  assumes "t < 4"
  shows "hex_byte w t = hex_of_bytes [ucast (drop_bit (8 * t) w)]"
proof -
  have u: "unat (drop_bit (8 * t) w AND 255) = unat (ucast (drop_bit (8 * t) w) :: 8 word)"
  proof -
    have "drop_bit (8 * t) w AND 255 = take_bit 8 (drop_bit (8 * t) w)"
      by (simp add: take_bit_eq_mask mask_eq_exp_minus_1)
    then show ?thesis by (simp add: unsigned_ucast_eq unsigned_take_bit_eq)
  qed
  have "unat (ucast (drop_bit (8 * t) w) :: 8 word) < 256" 
    using unsigned_less [where 'b = 8] by simp
  moreover have "t * 8 mod 32 = 8 * t" using assms by simp
  ultimately show ?thesis
    by (auto simp: hex_byte_def hex_of_bytes_def Let_def js_ushr_def u toString16_byte substr_def hexDigit_def)
qed

lemma toLower_hexDigit: "n < 16 \<Longrightarrow> toLower (hexDigit n) = hexDigit n"
proof -
  have "\<forall>n\<in>set [0..<16]. toLower (hexDigit n) = hexDigit n" by code_simp
  then show "n < 16 \<Longrightarrow> toLower (hexDigit n) = hexDigit n" by (simp only: set_upt atLeastLessThan_iff) simp
qed

lemma hex_of_bytes_append: "hex_of_bytes (xs @ ys) = hex_of_bytes xs @ hex_of_bytes ys"
  by (simp add: hex_of_bytes_def)

lemma WordToHex_eq: "WordToHex w = hex_of_bytes (map (\<lambda>t. ucast (drop_bit (8 * t) w)) [0, 1, 2, 3])"
  by (simp add: WordToHex_def hex_byte_eq) (simp add: hex_of_bytes_def)

lemma toLower_hex_of_bytes: "map toLower (hex_of_bytes bs) = hex_of_bytes bs"
proof (induction bs)
  case (Cons b bs)
  have "unat b div 16 < 16"
    using unsigned_less [of b, where 'a = nat] by (simp add: less_mult_imp_div_less)
  with Cons show ?case by (simp add: hex_of_bytes_def toLower_hexDigit)
qed (simp add: hex_of_bytes_def)

section \<open>The file computes the digest of the RFC\<close>

text \<open>
  C1.  On every string of code units below 256 (a byte string) shorter than \<open>2 ^ 32\<close>, the file's
  \<open>MD5\<close> returns the lower-case hexadecimal RFC 1321 digest of those bytes: the word array is the
  padded message, the 64 unrolled assignments are the table-driven steps, and the hand-made
  unsigned addition and rotation are the ones of the RFC.
\<close>

theorem MD5_rfc1321:
  assumes bytes: "set s \<subseteq> {c. c < 256}" and len: "length s < 2 ^ 32"
  shows "MD5 s = hex_of_bytes (rfc_digest (map ucast s))"
proof -
  have chars: "\<forall>c\<in>set s. c < 256"
    using bytes by auto
  let ?x = "ConvertToWordArray s" and ?p = "rfc_pad (map ucast s)"
  define n where "n = word_count (length s) div 16"
  have n: "word_count (length s) = 16 * n" by (simp add: n_def word_count_def)
  have p: "length ?p div 64 = n" by (simp add: length_rfc_pad n)
  have "md5_loop ?x 0 rfc_init = fold (\<lambda>b. rfc_block (\<lambda>i. toInt32 (arr_get ?x (16 * b + i)))) [0..<n] rfc_init"
    using md5_loop_rfc [of ?x n 0 rfc_init] by (simp add: ConvertToWordArray_length n)
  also have "\<dots> = rfc_state (map ucast s)"
    unfolding rfc_state_def Let_def p
    by (intro fold_cong refl rfc_block_cong ConvertToWordArray_rfc chars len) (auto simp: n)
  finally show ?thesis
    by (simp add: MD5_def rfc_init_def [symmetric] Let_def rfc_digest_def WordToHex_eq
        toLower_hex_of_bytes split: prod.splits flip: hex_of_bytes_append)
qed

theorem MD5_rfc1321_witness:
  "set (js ''abc'') \<subseteq> {c. c < 256} \<and> length (js ''abc'') < 2 ^ 32 \<and>
   MD5 (js ''abc'') = hex_of_bytes (rfc_digest (map ucast (js ''abc'')))"
proof -
  have c: "set (js ''abc'') \<subseteq> {c. c < 256}" and l: "length (js ''abc'') < 2 ^ 32"
    by simp_all
  show ?thesis using c l MD5_rfc1321 [OF c l] by blast
qed

lemma hex_of_bytes_shape:
  "length (hex_of_bytes bs) = 2 * length bs \<and>
   (\<forall>c\<in>set (hex_of_bytes bs). c \<in> set (js ''0123456789abcdef''))"
proof -
  have "\<forall>n\<in>set [0..<16]. hexDigit n \<in> set (js ''0123456789abcdef'')" by code_simp
  then have h: "n < 16 \<Longrightarrow> hexDigit n \<in> set (js ''0123456789abcdef'')" for n
    by (simp only: set_upt atLeastLessThan_iff) simp
  have "unat b div 16 < 16" for b :: "8 word"
    using unsigned_less [of b, where 'a = nat] by (simp add: less_mult_imp_div_less)
  with h show ?thesis
    by (induction bs) (simp_all add: hex_of_bytes_def del: js_Cons)
qed

lemma MD5_hex:
  "\<exists>bs. length bs = 16 \<and> MD5 s = hex_of_bytes bs"
proof -
  obtain a b c d where st: "md5_loop (ConvertToWordArray s) 0 (0x67452301, 0xEFCDAB89, 0x98BADCFE, 0x10325476) = (a, b, c, d)"
    by (metis prod_cases4)
  let ?bs = "concat (map (\<lambda>w. map (\<lambda>t. ucast (drop_bit (8 * t) w) :: 8 word) [0, 1, 2, 3]) [a, b, c, d])"
  have "MD5 s = hex_of_bytes ?bs"
    by (simp add: MD5_def st WordToHex_eq toLower_hex_of_bytes flip: hex_of_bytes_append)
  moreover have "length ?bs = 16" by simp
  ultimately show ?thesis by blast
qed

text \<open>
  Whatever the argument (any code units, any length), \<open>MD5\<close> returns exactly 32 lower-case
  hexadecimal digits.
\<close>

theorem MD5_digest_shape:
  "length (MD5 s) = 32 \<and> set (MD5 s) \<subseteq> set (js ''0123456789abcdef'')"
proof -
  obtain bs where "length bs = 16" and s: "MD5 s = hex_of_bytes bs"
    using MD5_hex by blast
  with hex_of_bytes_shape [of bs] show ?thesis by (auto simp del: js_Cons)
qed

end
