(* ===== verification/HB_Utils.thy ===== *)
theory HB_Utils
  imports JS_Prelude
begin

text \<open>
  Values and utilities of \<open>resources/js/handlebars.js\<close>: the modules \<open>safe-string.js\<close>,
  \<open>utils.js\<close> and \<open>exception.js\<close> (lines 29 to 146).

  A template sees JavaScript values.  The model has the primitive values, arrays, objects (as
  association lists in insertion order), \<open>SafeString\<close> wrappers and function values; numbers are
  integers or NaN.  A function value is a reference; what calling it does, and the source text its
  string conversion gives, belong to the host program and are parameters wherever they are used.
\<close>

section \<open>Values\<close>

datatype jsval =
    JUndefined
  | JNull
  | JBool bool
  | JNum int
  | JNaN
  | JStr jstr
  | JArr "jsval list"
  | JObj "(jstr \<times> jsval) list"
  | JSafe jsval
  | JFun nat

text \<open>What is thrown: an \<open>Error\<close>, a Handlebars \<open>Exception\<close>, or a \<open>TypeError\<close> of the engine.\<close>

datatype js_error = Error jstr | HBException jstr | TypeErr

type_synonym 'a result = "js_error + 'a"

fun bindR :: "'a result \<Rightarrow> ('a \<Rightarrow> 'b result) \<Rightarrow> 'b result" where
  "bindR (Inl e) f = Inl e"
| "bindR (Inr x) f = f x"

lemma bindR_cong [fundef_cong]:
  "m = m' \<Longrightarrow> (\<And>x. m' = Inr x \<Longrightarrow> f x = g x) \<Longrightarrow> bindR m f = bindR m' g"
  by (cases m') auto

lemma bindR_Inr_iff: "bindR m f = Inr y \<longleftrightarrow> (\<exists>x. m = Inr x \<and> f x = Inr y)"
  by (cases m) auto

lemma bindR_split:
  "P (bindR m f) \<longleftrightarrow> (\<forall>e. m = Inl e \<longrightarrow> P (Inl e)) \<and> (\<forall>x. m = Inr x \<longrightarrow> P (f x))"
  by (cases m) auto

text \<open>Truthiness.\<close>

fun truthy :: "jsval \<Rightarrow> bool" where
  "truthy JUndefined = False"
| "truthy JNull = False"
| "truthy (JBool b) = b"
| "truthy (JNum n) = (n \<noteq> 0)"
| "truthy JNaN = False"
| "truthy (JStr s) = (s \<noteq> [])"
| "truthy _ = True"

text \<open>String conversion, as \<open>"" + value\<close> does it.\<close>

fun natToString :: "nat \<Rightarrow> jstr" where
  "natToString n =
     (if n < 10 then [of_nat (48 + n)] else natToString (n div 10) @ [of_nat (48 + n mod 10)])"

declare natToString.simps [simp del]

definition intToString :: "int \<Rightarrow> jstr" where
  "intToString i = (if i < 0 then 45 # natToString (nat (- i)) else natToString (nat i))"

fun toStr :: "(nat \<Rightarrow> jstr) \<Rightarrow> jsval \<Rightarrow> jstr" where
  "toStr src JUndefined = js ''undefined''"
| "toStr src JNull = js ''null''"
| "toStr src (JBool b) = (if b then js ''true'' else js ''false'')"
| "toStr src (JNum n) = intToString n"
| "toStr src JNaN = js ''NaN''"
| "toStr src (JStr s) = s"
| "toStr src (JArr vs) =
     join (map (\<lambda>v. if v = JUndefined \<or> v = JNull then [] else toStr src v) vs) (js '','')"
| "toStr src (JObj kvs) = js ''[object Object]''"
| "toStr src (JSafe v) = toStr src v"
| "toStr src (JFun f) = src f"

section \<open>SafeString and escaping\<close>

text \<open>The table \<open>escape\<close> and the function \<open>escapeChar\<close> with its default.\<close>

definition escape_table :: "(jchar \<times> jstr) list" where
  "escape_table =
     [(38, js ''&amp;''), (60, js ''&lt;''), (62, js ''&gt;''), (34, js ''&quot;''),
      (39, js ''&#x27;''), (96, js ''&#x60;'')]"

definition escapeChar :: "jchar \<Rightarrow> jstr" where
  "escapeChar chr = (case map_of escape_table chr of Some e \<Rightarrow> e | None \<Rightarrow> js ''&amp;'')"

text \<open>\<open>badChars\<close> and \<open>possible\<close>: the character class of both regular expressions.\<close>

definition badChar :: "jchar \<Rightarrow> bool" where
  "badChar c \<longleftrightarrow> c \<in> {38, 60, 62, 34, 39, 96}"

definition replaceBadChars :: "jstr \<Rightarrow> jstr" where
  "replaceBadChars s = concat (map (\<lambda>c. if badChar c then escapeChar c else [c]) s)"

definition escapeExpression :: "(nat \<Rightarrow> jstr) \<Rightarrow> jsval \<Rightarrow> jstr" where
  "escapeExpression src v =
     (case v of
        JSafe w \<Rightarrow> toStr src w
      | _ \<Rightarrow>
          if \<not> truthy v \<and> v \<noteq> JNum 0 then []
          else let s = toStr src v
               in if \<not> list_ex badChar s then s else replaceBadChars s)"

definition isSafeString :: "jsval \<Rightarrow> bool" where
  "isSafeString v = (case v of JSafe _ \<Rightarrow> True | _ \<Rightarrow> False)"

definition isArray :: "jsval \<Rightarrow> bool" where
  "isArray v = (case v of JArr _ \<Rightarrow> True | _ \<Rightarrow> False)"

definition isFunction :: "jsval \<Rightarrow> bool" where
  "isFunction v = (case v of JFun _ \<Rightarrow> True | _ \<Rightarrow> False)"

definition isEmpty :: "jsval \<Rightarrow> bool" where
  "isEmpty v = (if \<not> truthy v \<and> v \<noteq> JNum 0 then True
                else if isArray v \<and> v = JArr [] then True else False)"

text \<open>The names that an ordinary object inherits from \<open>Object.prototype\<close>.\<close>

definition object_prototype :: "jstr list" where
  "object_prototype =
     [js ''constructor'', js ''__defineGetter__'', js ''__defineSetter__'', js ''hasOwnProperty'',
      js ''__lookupGetter__'', js ''__lookupSetter__'', js ''isPrototypeOf'',
      js ''propertyIsEnumerable'', js ''toString'', js ''valueOf'', js ''__proto__'',
      js ''toLocaleString'']"

text \<open>
  \<open>extend(obj, value)\<close> copies the own properties of \<open>value\<close> into \<open>obj\<close>: an existing key keeps its
  place, a new one is appended.
\<close>

fun obj_set :: "(jstr \<times> 'v) list \<Rightarrow> jstr \<Rightarrow> 'v \<Rightarrow> (jstr \<times> 'v) list" where
  "obj_set [] k v = [(k, v)]"
| "obj_set ((k', v') # ps) k v = (if k' = k then (k, v) # ps else (k', v') # obj_set ps k v)"

fun extend :: "(jstr \<times> 'v) list \<Rightarrow> (jstr \<times> 'v) list \<Rightarrow> (jstr \<times> 'v) list" where
  "extend obj [] = obj"
| "extend obj ((key, v) # value) = extend (obj_set obj key v) value"

lemma map_of_obj_set [simp]: "map_of (obj_set ps k v) = (map_of ps)(k \<mapsto> v)"
  by (induction ps k v rule: obj_set.induct) (auto simp: fun_eq_iff)

lemma distinct_obj_set: "distinct (map fst ps) \<Longrightarrow> distinct (map fst (obj_set ps k v))"
proof (induction ps k v rule: obj_set.induct)
  case (2 k' v' ps k v)
  have "set (map fst (obj_set ps k v)) = insert k (set (map fst ps))"
    by (induction ps k v rule: obj_set.induct) auto
  with 2 show ?case by (auto simp: image_iff)
qed simp

section \<open>Escaping is safe and loses nothing\<close>

text \<open>
  The reader of the page: decoding the six entities.  A text is markup-free when none of its
  characters can open a tag, an attribute value or an unintended entity.
\<close>

definition entities :: "(jstr \<times> jchar) list" where
  "entities =
     [(js ''&amp;'', 38), (js ''&lt;'', 60), (js ''&gt;'', 62), (js ''&quot;'', 34),
      (js ''&#x27;'', 39), (js ''&#x60;'', 96)]"

definition entity_at :: "jstr \<Rightarrow> (jstr \<times> jchar) option" where
  "entity_at s = find (\<lambda>(e, c). take (length e) s = e) entities"

function decode_entities :: "jstr \<Rightarrow> jstr" where
  "decode_entities [] = []"
| "decode_entities (c # s) =
     (case entity_at (c # s) of
        Some (e, d) \<Rightarrow> d # decode_entities (drop (length e - 1) s)
      | None \<Rightarrow> c # decode_entities s)"
  by pat_completeness auto
termination
  by (relation "measure length") auto

lemma escapeChar_cases:
  "escapeChar 38 = js ''&amp;''" "escapeChar 60 = js ''&lt;''" "escapeChar 62 = js ''&gt;''"
  "escapeChar 34 = js ''&quot;''" "escapeChar 39 = js ''&#x27;''" "escapeChar 96 = js ''&#x60;''"
  by (simp_all add: escapeChar_def escape_table_def)

lemma entity_at_escapeChar:
  "badChar c \<Longrightarrow> entity_at (escapeChar c @ s) = Some (escapeChar c, c) \<and> escapeChar c \<noteq> []"
  unfolding badChar_def insert_iff empty_iff
  by (elim disjE) (simp_all add: escapeChar_cases entity_at_def entities_def)

lemma entity_at_plain: "c \<noteq> 38 \<Longrightarrow> entity_at (c # s) = None"
  by (auto simp: entity_at_def entities_def)

lemma decode_escaped_char:
  "badChar c \<Longrightarrow> decode_entities (escapeChar c @ s) = c # decode_entities s"
proof -
  assume "badChar c"
  then obtain d e where e: "escapeChar c = d # e" and "entity_at (d # e @ s) = Some (d # e, c)"
    using entity_at_escapeChar [of c s] by (cases "escapeChar c") auto
  then show ?thesis by simp
qed

lemma decode_replaceBadChars: "decode_entities (replaceBadChars s) = s"
proof (induction s)
  case (Cons c s)
  show ?case
  proof (cases "badChar c")
    case True
    with Cons show ?thesis by (simp add: replaceBadChars_def decode_escaped_char)
  next
    case False
    then have "c \<noteq> 38" by (auto simp: badChar_def)
    with False Cons show ?thesis by (simp add: replaceBadChars_def entity_at_plain)
  qed
qed (simp add: replaceBadChars_def)

definition plainChar :: "jchar \<Rightarrow> bool" where
  "plainChar c \<longleftrightarrow> c \<notin> {60, 62, 34, 39, 96}"

lemma replaceBadChars_plain: "list_all plainChar (replaceBadChars s)"
  by (induction s) (auto simp: replaceBadChars_def badChar_def escapeChar_cases plainChar_def)

lemma replaceBadChars_id: "\<not> list_ex badChar s \<Longrightarrow> replaceBadChars s = s"
  by (induction s) (auto simp: replaceBadChars_def)

lemma escapeExpression_eq:
  "\<not> isSafeString v \<Longrightarrow>
   escapeExpression src v =
     (if truthy v \<or> v = JNum 0 then replaceBadChars (toStr src v) else [])"
  by (cases v) (auto simp: escapeExpression_def isSafeString_def Let_def replaceBadChars_id)



text \<open>
  \<open>isEmpty\<close> is the negation of truthiness except on 0 (not empty) and on the empty array (empty).
\<close>

lemma isEmpty_iff: "isEmpty v \<longleftrightarrow> (\<not> truthy v \<and> v \<noteq> JNum 0) \<or> v = JArr []"
  by (auto simp: isEmpty_def isArray_def)

end
