(* ===== verification/HB_AST.thy ===== *)
theory HB_AST
  imports HB_Utils
begin

text \<open>
  The syntax tree of \<open>handlebars.js\<close>: module \<open>compiler/ast.js\<close> (lines 514 to 679) and
  \<open>stripFlags\<close> of the parser (lines 895 to 900).

  A constructor function of the source is a definition that builds a node; where the source throws
  the definition returns an error.  A \<open>strip\<close> flag that is never assigned is \<open>undefined\<close> in the
  source and is only tested for truth, so it is \<open>False\<close> here.  \<open>BlockNode\<close> assigns to the strip
  flags of the program nodes it is given; an inverse program is reachable both from the block and
  from the program it belongs to, and both get the new flags.
\<close>

section \<open>Node types\<close>

record strip =
  left :: bool
  right :: bool

definition no_strip :: strip where
  "no_strip = \<lparr>left = False, right = False\<rparr>"

record id_node =
  original :: jstr
  parts :: "jstr list"
  string :: jstr
  depth :: nat
  isScoped :: bool
  isSimple :: bool

text \<open>
  Parameters of a mustache: paths, data references and literals.  \<open>IntegerNode\<close> and \<open>BooleanNode\<close>
  keep the text of the literal.
\<close>

datatype param =
    PId id_node
  | PData id_node
  | PString jstr
  | PInteger jstr
  | PBoolean jstr

type_synonym hash_node = "(jstr \<times> param) list"

record mustache_node =
  m_id :: param
  m_params :: "param list"
  m_hash :: "hash_node option"
  m_escaped :: bool
  m_eligibleHelper :: bool
  m_isHelper :: bool
  m_strip :: strip

datatype statement =
    SMustache mustache_node
  | SPartial jstr "id_node option" strip
  | SBlock mustache_node "program option" "program option" strip
  | SContent jstr
  | SComment jstr
and program = Program (p_statements: "statement list") (p_strip: strip) (p_inverse: "program option")

text \<open>A close tag: the object literal of production 19.\<close>

record close_node =
  c_path :: id_node
  c_strip :: strip

section \<open>Constructors\<close>

definition stripFlags :: "jstr \<Rightarrow> jstr \<Rightarrow> strip" where
  "stripFlags open close =
     \<lparr>left = (charAt open 2 = js ''~''),
      right = (charAt close 0 = js ''~'' \<or> charAt close 1 = js ''~'')\<rparr>"

text \<open>
  \<open>ProgramNode(statements, inverseStrip, inverse)\<close>; an empty array of inverse statements is
  truthy, so \<open>inverse\<close> is absent only when the argument is not passed.
\<close>

definition ProgramNode ::
    "statement list \<Rightarrow> strip option \<Rightarrow> statement list option \<Rightarrow> program" where
  "ProgramNode statements inverseStrip inverseSts =
     (let simple = (\<lambda>sts st. Program sts
                      (case st of None \<Rightarrow> no_strip | Some s \<Rightarrow> no_strip\<lparr>left := right s\<rparr>) None)
      in case inverseSts of
           Some invp \<Rightarrow>
             Program statements
               (no_strip\<lparr>right := (case inverseStrip of None \<Rightarrow> False | Some s \<Rightarrow> left s)\<rparr>)
               (Some (simple invp inverseStrip))
         | None \<Rightarrow> simple statements inverseStrip)"

text \<open>
  \<open>this.isSimple\<close> of a data reference is undefined, hence false: it is never an eligible helper.
\<close>

definition param_isSimple :: "param \<Rightarrow> bool" where
  "param_isSimple p = (case p of PId i \<Rightarrow> isSimple i | _ \<Rightarrow> False)"

definition MustacheNode :: "param list \<Rightarrow> hash_node option \<Rightarrow> jstr \<Rightarrow> strip \<Rightarrow> mustache_node result" where
  "MustacheNode rawParams hash open st =
     (case rawParams of
        [] \<Rightarrow> Inl TypeErr
      | i # params \<Rightarrow>
          let escapeFlag = (if charAt open 3 \<noteq> [] then charAt open 3 else charAt open 2);
              eligibleHelper = param_isSimple i
          in Inr \<lparr>m_id = i, m_params = params, m_hash = hash,
                  m_escaped = (escapeFlag \<noteq> js ''{'' \<and> escapeFlag \<noteq> js ''&''),
                  m_eligibleHelper = eligibleHelper,
                  m_isHelper = (eligibleHelper \<and> (params \<noteq> [] \<or> hash \<noteq> None)),
                  m_strip = st\<rparr>)"

text \<open>\<open>original\<close> of a node; a \<open>DataNode\<close> has none, so reading it gives \<open>undefined\<close>.\<close>

definition param_original :: "param \<Rightarrow> jstr option" where
  "param_original p =
     (case p of PId i \<Rightarrow> Some (original i) | PData _ \<Rightarrow> None
      | PString s \<Rightarrow> Some s | PInteger s \<Rightarrow> Some s | PBoolean s \<Rightarrow> None)"

definition with_left :: "bool \<Rightarrow> program \<Rightarrow> program" where
  "with_left b p = Program (p_statements p) ((p_strip p)\<lparr>left := b\<rparr>) (p_inverse p)"

definition with_right :: "bool \<Rightarrow> program \<Rightarrow> program" where
  "with_right b p = Program (p_statements p) ((p_strip p)\<lparr>right := b\<rparr>) (p_inverse p)"

definition with_inverse :: "program option \<Rightarrow> program \<Rightarrow> program" where
  "with_inverse invp p = Program (p_statements p) (p_strip p) invp"

text \<open>
  \<open>BlockNode(mustache, program, inverse, close)\<close>.  The grammar passes it a program node \<open>p\<close> and that
  node's own inverse: as \<open>(p, p.inverse)\<close> for \<open>{{#\<close> (\<open>isInverse\<close> false) and as \<open>(p.inverse, p)\<close>
  for \<open>{{^\<close>.  \<open>block_strips\<close> does the two assignments through the references.
\<close>

definition block_strips ::
    "strip \<Rightarrow> strip \<Rightarrow> program option \<Rightarrow> program option \<Rightarrow> program option \<times> program option" where
  "block_strips open close prog invp =
     (case (prog, invp) of
        (Some p, Some i) \<Rightarrow> (Some (with_left (right open) p), Some (with_right (left close) i))
      | (Some p, None) \<Rightarrow> (Some (with_right (left close) (with_left (right open) p)), None)
      | (None, Some i) \<Rightarrow> (None, Some (with_right (left close) (with_left (right open) i)))
      | (None, None) \<Rightarrow> (None, None))"

definition BlockNode ::
    "mustache_node \<Rightarrow> program option \<Rightarrow> program option \<Rightarrow> close_node \<Rightarrow> statement result" where
  "BlockNode mustache prog invp close =
     (if param_original (m_id mustache) \<noteq> Some (original (c_path close))
      then Inl (HBException
             ((case param_original (m_id mustache) of Some t \<Rightarrow> t | None \<Rightarrow> js ''undefined'') @
              js '' doesn'' @ [39] @ js ''t match '' @ original (c_path close)))
      else if prog = None \<and> invp = None then Inl TypeErr
      else let (prog', invp') = block_strips (m_strip mustache) (c_strip close) prog invp
           in Inr (SBlock mustache prog' invp'
                     \<lparr>left = left (m_strip mustache), right = right (c_strip close)\<rparr>))"

text \<open>
  \<open>IdNode(parts)\<close>: the loop over the segments with its accumulators \<open>original\<close>, \<open>dig\<close>, \<open>depth\<close>
  and \<open>isScoped\<close>.  A segment is a pair of its separator (empty for the first) and its text.
\<close>

fun id_loop ::
    "(jstr \<times> jstr) list \<Rightarrow> jstr \<Rightarrow> jstr list \<Rightarrow> nat \<Rightarrow> bool \<Rightarrow> (jstr \<times> jstr list \<times> nat \<times> bool) result" where
  "id_loop [] orig dig dep scoped = Inr (orig, dig, dep, scoped)"
| "id_loop ((separator, part) # ps) orig dig dep scoped =
     (let orig = orig @ separator @ part
      in if part = js ''..'' \<or> part = js ''.'' \<or> part = js ''this''
         then if dig \<noteq> [] then Inl (HBException (js ''Invalid path: '' @ orig))
              else if part = js ''..'' then id_loop ps orig dig (dep + 1) scoped
              else id_loop ps orig dig dep True
         else id_loop ps orig (dig @ [part]) dep scoped)"

definition IdNode :: "(jstr \<times> jstr) list \<Rightarrow> id_node result" where
  "IdNode segs =
     bindR (id_loop segs [] [] 0 False) (\<lambda>(orig, dig, dep, scoped).
       Inr \<lparr>original = orig, parts = dig, string = join dig (js ''.''), depth = dep,
            isScoped = scoped,
            isSimple = (length segs = 1 \<and> \<not> scoped \<and> dep = 0)\<rparr>)"

section \<open>Paths\<close>

text \<open>
  A path is a block of \<open>..\<close>, \<open>.\<close> and \<open>this\<close> segments followed by ordinary names: that is the
  condition for \<open>IdNode\<close> to succeed, and it says what the fields are.
\<close>

definition special :: "jstr \<Rightarrow> bool" where
  "special p \<longleftrightarrow> p = js ''..'' \<or> p = js ''.'' \<or> p = js ''this''"

lemma id_loop_special:
  "special part \<Longrightarrow> id_loop ((sep, part) # ps) orig dig dep scoped =
     (if dig \<noteq> [] then Inl (HBException (js ''Invalid path: '' @ orig @ sep @ part))
      else if part = js ''..'' then id_loop ps (orig @ sep @ part) [] (dep + 1) scoped
      else id_loop ps (orig @ sep @ part) [] dep True)"
  by (simp add: special_def Let_def del: js_Cons)

lemma id_loop_plain:
  "\<not> special part \<Longrightarrow> id_loop ((sep, part) # ps) orig dig dep scoped =
     id_loop ps (orig @ sep @ part) (dig @ [part]) dep scoped"
  by (simp add: special_def Let_def del: js_Cons)

lemmas id_loop_simps = id_loop.simps(1) id_loop_special id_loop_plain

declare id_loop.simps [simp del]

text \<open>Once a name has been read, only names may follow.\<close>

lemma id_loop_names:
  "dig \<noteq> [] \<Longrightarrow> id_loop segs orig dig dep scoped = Inr r \<longleftrightarrow>
     list_all (\<lambda>p. \<not> special p) (map snd segs) \<and>
     r = (orig @ concat (map (\<lambda>(sep, p). sep @ p) segs), dig @ map snd segs, dep, scoped)"
proof (induction segs arbitrary: orig dig)
  case (Cons seg segs)
  obtain sep p where seg: "seg = (sep, p)" by (cases seg)
  show ?case
    using Cons.prems Cons.IH [of "dig @ [p]"]
    by (cases "special p") (auto simp: seg id_loop_simps)
qed (auto simp: id_loop_simps)

lemma id_loop_Inr:
  "id_loop segs orig [] dep scoped = Inr r \<longleftrightarrow>
   (let names = map snd segs; ups = takeWhile special names; rest = dropWhile special names
    in list_all (\<lambda>p. \<not> special p) rest \<and>
       r = (orig @ concat (map (\<lambda>(sep, p). sep @ p) segs), rest,
            dep + length (filter (\<lambda>p. p = js ''..'') ups),
            scoped \<or> list_ex (\<lambda>p. p \<noteq> js ''..'') ups))"
proof (induction segs arbitrary: orig dep scoped)
  case (Cons seg segs)
  obtain sep p where seg: "seg = (sep, p)" by (cases seg)
  show ?case
  proof (cases "special p")
    case True
    then show ?thesis
      by (simp add: seg id_loop_simps Cons.IH Let_def del: js_Cons)
  next
    case False
    then show ?thesis
      by (simp add: seg id_loop_simps id_loop_names Let_def del: js_Cons)
  qed
qed (auto simp: id_loop_simps)

text \<open>
  C4.  \<open>IdNode\<close> accepts exactly the paths in which no \<open>..\<close>, \<open>.\<close> or \<open>this\<close> follows an ordinary
  name.  For an accepted path \<open>parts\<close> are the ordinary names in order, \<open>depth\<close> counts the \<open>..\<close>
  segments, \<open>original\<close> is the text of the path, and the node is simple exactly when the path is one
  ordinary name.
\<close>

theorem IdNode_path:
  "IdNode segs = Inr n \<longleftrightarrow>
   (let names = map snd segs; ups = takeWhile special names; rest = dropWhile special names
    in list_all (\<lambda>p. \<not> special p) rest \<and>
       n = \<lparr>original = concat (map (\<lambda>(sep, p). sep @ p) segs), parts = rest,
            string = join rest (js ''.''),
            depth = length (filter (\<lambda>p. p = js ''..'') ups),
            isScoped = list_ex (\<lambda>p. p \<noteq> js ''..'') ups,
            isSimple = (\<exists>sep p. segs = [(sep, p)] \<and> \<not> special p)\<rparr>)"
proof -
  have simple: "(length segs = 1 \<and> \<not> list_ex (\<lambda>p. p \<noteq> js ''..'') (takeWhile special (map snd segs)) \<and>
       length (filter (\<lambda>p. p = js ''..'') (takeWhile special (map snd segs))) = 0) \<longleftrightarrow>
     (\<exists>sep p. segs = [(sep, p)] \<and> \<not> special p)"
    by (cases segs) (auto simp del: js_Cons)
  show ?thesis
    unfolding IdNode_def bindR_Inr_iff id_loop_Inr Let_def simple [symmetric]
    by (simp add: split_beta) blast
qed

section \<open>Well-formed trees\<close>

text \<open>
  What the constructors establish and the compiler relies on: a mustache starts with a path or a
  data reference, its helper flags are those \<open>MustacheNode\<close> computes, a path is never empty, a
  simple path is one name at depth 0, and a block has a program or an inverse.
\<close>

definition wf_id :: "id_node \<Rightarrow> bool" where
  "wf_id i \<longleftrightarrow> (parts i \<noteq> [] \<or> isScoped i \<or> 0 < depth i) \<and>
     (isSimple i \<longrightarrow> length (parts i) = 1 \<and> depth i = 0 \<and> \<not> isScoped i)"

definition wf_param :: "param \<Rightarrow> bool" where
  "wf_param p = (case p of PId i \<Rightarrow> wf_id i | PData i \<Rightarrow> wf_id i | _ \<Rightarrow> True)"

definition wf_hash :: "hash_node \<Rightarrow> bool" where
  "wf_hash h \<longleftrightarrow> list_all (\<lambda>(k, p). wf_param p) h"

definition is_path :: "param \<Rightarrow> bool" where
  "is_path p = (case p of PId i \<Rightarrow> True | PData i \<Rightarrow> True | _ \<Rightarrow> False)"

definition wf_mustache :: "mustache_node \<Rightarrow> bool" where
  "wf_mustache m \<longleftrightarrow> is_path (m_id m) \<and> wf_param (m_id m) \<and> list_all wf_param (m_params m) \<and>
     pred_option wf_hash (m_hash m) \<and>
     m_eligibleHelper m = param_isSimple (m_id m) \<and>
     m_isHelper m = (m_eligibleHelper m \<and> (m_params m \<noteq> [] \<or> m_hash m \<noteq> None))"

fun wf_statement :: "statement \<Rightarrow> bool" and wf_program :: "program \<Rightarrow> bool" where
  "wf_statement (SMustache m) = wf_mustache m"
| "wf_statement (SPartial n c st) = pred_option wf_id c"
| "wf_statement (SBlock m p i st) =
     (wf_mustache m \<and> (p \<noteq> None \<or> i \<noteq> None) \<and> pred_option wf_program p \<and> pred_option wf_program i)"
| "wf_statement (SContent s) = True"
| "wf_statement (SComment s) = True"
| "wf_program (Program sts st i) = (list_all wf_statement sts \<and> pred_option wf_program i)"

lemma IdNode_wf: "segs \<noteq> [] \<Longrightarrow> IdNode segs = Inr n \<Longrightarrow> wf_id n"
proof -
  assume ne: "segs \<noteq> []" and "IdNode segs = Inr n"
  then obtain r where "id_loop segs [] [] 0 False = Inr r"
    and n: "n = (case r of (orig, dig, dep, scoped) \<Rightarrow> \<lparr>original = orig, parts = dig,
       string = join dig (js ''.''), depth = dep, isScoped = scoped,
       isSimple = (length segs = 1 \<and> \<not> scoped \<and> dep = 0)\<rparr>)"
    by (auto simp: IdNode_def bindR_Inr_iff)
  then have n': "n = \<lparr>original = concat (map (\<lambda>(sep, p). sep @ p) segs),
      parts = dropWhile special (map snd segs), string = join (dropWhile special (map snd segs)) (js ''.''),
      depth = length (filter (\<lambda>p. p = js ''..'') (takeWhile special (map snd segs))),
      isScoped = list_ex (\<lambda>p. p \<noteq> js ''..'') (takeWhile special (map snd segs)),
      isSimple = (length segs = 1 \<and> \<not> list_ex (\<lambda>p. p \<noteq> js ''..'') (takeWhile special (map snd segs)) \<and>
        length (filter (\<lambda>p. p = js ''..'') (takeWhile special (map snd segs))) = 0)\<rparr>"
    unfolding id_loop_Inr Let_def by auto
  obtain sep p segs' where "segs = (sep, p) # segs'" using ne by (cases segs) auto
  then show ?thesis by (auto simp: wf_id_def n' simp del: js_Cons)
qed

lemma MustacheNode_wf:
  assumes "is_path p" "wf_param p" "list_all wf_param ps" "pred_option wf_hash h"
  shows "\<exists>m. MustacheNode (p # ps) h open st = Inr m \<and> wf_mustache m"
  using assms by (simp add: MustacheNode_def wf_mustache_def Let_def)

lemma with_wf [simp]:
  "wf_program (with_left b p) = wf_program p" "wf_program (with_right b p) = wf_program p"
  "wf_program p \<Longrightarrow> wf_program (with_inverse i p) = pred_option wf_program i"
  by (cases p; simp add: with_left_def with_right_def with_inverse_def)+

lemma ProgramNode_wf:
  "list_all wf_statement sts \<Longrightarrow> pred_option (list_all wf_statement) invp \<Longrightarrow>
     wf_program (ProgramNode sts st invp)"
  by (cases invp) (simp_all add: ProgramNode_def Let_def)

lemma wf_p_inverse: "wf_program p \<Longrightarrow> pred_option wf_program (p_inverse p)"
  by (cases p) simp

lemma BlockNode_wf:
  assumes "wf_mustache m" "pred_option wf_program p" "pred_option wf_program i" "p \<noteq> None \<or> i \<noteq> None"
  shows "BlockNode m p i c \<noteq> Inl TypeErr"
    and "BlockNode m p i c = Inr s \<Longrightarrow> \<exists>p' i' st. s = SBlock m p' i' st \<and> wf_statement s \<and> (p' = None \<longleftrightarrow> p = None)
      \<and> (i' = None \<longleftrightarrow> i = None)"
  using assms by (auto simp: BlockNode_def block_strips_def split: if_splits option.splits)

section \<open>Whitespace flags of an inverse block with an else part\<close>

text \<open>
  For \<open>{{^foo}} A {{else}} B {{/foo}}\<close> the parser passes the program of \<open>A\<close> as the inverse and the
  program of \<open>B\<close> as the program.  The flags of the open and close tags, which enclose \<open>A\<close> on the
  left and \<open>B\<close> on the right, are then written to the left of \<open>B\<close> and to the right of \<open>A\<close>.
\<close>

theorem BlockNode_inverse_else:
  assumes "param_original (m_id m) = Some (original (c_path c))" and "p_inverse p = Some b"
  shows "BlockNode m (p_inverse p) (Some p) c =
    Inr (SBlock m (Some (with_left (right (m_strip m)) b)) (Some (with_right (left (c_strip c)) p))
      \<lparr>left = left (m_strip m), right = right (c_strip c)\<rparr>)"
  using assms by (simp add: BlockNode_def block_strips_def)

end
