(* ===== verification/HB_Compiler.thy ===== *)
theory HB_Compiler
  imports HB_AST
begin

text \<open>
  The compiler from syntax trees to opcodes: \<open>compiler/compiler.js\<close> in \<open>handlebars.js\<close>
  (lines 2091 to 2519).

  A \<open>Compiler\<close> object under construction is a record; the finished object is an \<open>environment\<close>.  The
  \<open>options\<close> object is shared by all compilers of a template and updated while they run (\<open>data\<close> is
  set by a data reference, \<open>knownHelpers\<close> is rebuilt for every program), so it is passed through.
  An opcode object is a value of the datatype \<open>opcode\<close>; \<open>op_name\<close> and \<open>op_args\<close> give its fields.
\<close>

section \<open>Opcodes and state\<close>

text \<open>An argument of an opcode, and a value of \<open>stringModeValue\<close>.\<close>

datatype arg = AStr jstr | ANum int | ABool bool | AUndef

datatype opcode =
    OStrip
  | OPushProgram "nat option"
  | OEmptyHash
  | OBlockValue
  | OAmbiguousBlockValue
  | OAppend
  | OAppendEscaped
  | OAppendContent jstr
  | OPushHash
  | OAssignToHash jstr
  | OPopHash
  | OGetContext nat
  | OPushStringParam arg jstr
  | OPush jstr
  | OInvokePartial jstr
  | OInvokeAmbiguous jstr bool
  | OInvokeKnownHelper nat jstr
  | OInvokeHelper nat jstr
  | OPushContext
  | OResolvePossibleLambda
  | OLookupOnContext jstr
  | OLookup jstr
  | OLookupData
  | OPushString jstr
  | OPushLiteral jstr

definition guid_arg :: "nat option \<Rightarrow> arg" where
  "guid_arg g = (case g of None \<Rightarrow> AUndef | Some n \<Rightarrow> ANum (int n))"

fun op_name :: "opcode \<Rightarrow> jstr" where
  "op_name OStrip = js ''strip''"
| "op_name (OPushProgram g) = js ''pushProgram''"
| "op_name OEmptyHash = js ''emptyHash''"
| "op_name OBlockValue = js ''blockValue''"
| "op_name OAmbiguousBlockValue = js ''ambiguousBlockValue''"
| "op_name OAppend = js ''append''"
| "op_name OAppendEscaped = js ''appendEscaped''"
| "op_name (OAppendContent s) = js ''appendContent''"
| "op_name OPushHash = js ''pushHash''"
| "op_name (OAssignToHash k) = js ''assignToHash''"
| "op_name OPopHash = js ''popHash''"
| "op_name (OGetContext n) = js ''getContext''"
| "op_name (OPushStringParam v t) = js ''pushStringParam''"
| "op_name (OPush e) = js ''push''"
| "op_name (OInvokePartial n) = js ''invokePartial''"
| "op_name (OInvokeAmbiguous n b) = js ''invokeAmbiguous''"
| "op_name (OInvokeKnownHelper k n) = js ''invokeKnownHelper''"
| "op_name (OInvokeHelper k n) = js ''invokeHelper''"
| "op_name OPushContext = js ''pushContext''"
| "op_name OResolvePossibleLambda = js ''resolvePossibleLambda''"
| "op_name (OLookupOnContext n) = js ''lookupOnContext''"
| "op_name (OLookup n) = js ''lookup''"
| "op_name OLookupData = js ''lookupData''"
| "op_name (OPushString s) = js ''pushString''"
| "op_name (OPushLiteral s) = js ''pushLiteral''"

fun op_args :: "opcode \<Rightarrow> arg list" where
  "op_args (OPushProgram g) = [guid_arg g]"
| "op_args (OAppendContent s) = [AStr s]"
| "op_args (OAssignToHash k) = [AStr k]"
| "op_args (OGetContext n) = [ANum (int n)]"
| "op_args (OPushStringParam v t) = [v, AStr t]"
| "op_args (OPush e) = [AStr e]"
| "op_args (OInvokePartial n) = [AStr n]"
| "op_args (OInvokeAmbiguous n b) = [AStr n, ABool b]"
| "op_args (OInvokeKnownHelper k n) = [ANum (int k), AStr n]"
| "op_args (OInvokeHelper k n) = [ANum (int k), AStr n]"
| "op_args (OLookupOnContext n) = [AStr n]"
| "op_args (OLookup n) = [AStr n]"
| "op_args (OPushString s) = [AStr s]"
| "op_args (OPushLiteral s) = [AStr s]"
| "op_args _ = []"

record options =
  stringParams :: bool
  data :: bool
  knownHelpersOnly :: bool
  noEscape :: bool
  knownHelpers :: "(jstr \<times> bool) list"

datatype environment =
  Env (e_opcodes: "opcode list") (e_children: "environment list") (e_depths: "nat list")
      (e_isSimple: bool) (e_usePartial: bool)

record compiler =
  opcodes :: "opcode list"
  children :: "environment list"
  depths :: "nat list"
  usePartial :: bool
  copts :: options

section \<open>Methods\<close>

text \<open>
  \<open>options.knownHelpers[name]\<close> reads an ordinary object, so the properties that every object
  inherits are found too, and they are truthy.
\<close>

definition known :: "options \<Rightarrow> jstr \<Rightarrow> bool" where
  "known opts name =
     (case map_of (knownHelpers opts) name of Some b \<Rightarrow> b | None \<Rightarrow> name \<in> set object_prototype)"

definition default_helpers :: "(jstr \<times> bool) list" where
  "default_helpers =
     [(js ''helperMissing'', True), (js ''blockHelperMissing'', True), (js ''each'', True),
      (js ''if'', True), (js ''unless'', True), (js ''with'', True), (js ''log'', True)]"

definition opcode :: "opcode \<Rightarrow> compiler \<Rightarrow> compiler" where
  "opcode oc c = c\<lparr>opcodes := opcodes c @ [oc]\<rparr>"

definition addDepth :: "nat \<Rightarrow> compiler \<Rightarrow> compiler" where
  "addDepth d c =
     (if d = 0 then c else if d \<in> set (depths c) then c else c\<lparr>depths := depths c @ [d]\<rparr>)"

definition ID :: "id_node \<Rightarrow> compiler \<Rightarrow> compiler" where
  "ID i c =
     (let c = opcode (OGetContext (depth i)) (addDepth (depth i) c);
          c = (case parts i of
                 [] \<Rightarrow> opcode OPushContext c
               | name # _ \<Rightarrow> if name = [] then opcode OPushContext c else opcode (OLookupOnContext name) c)
      in fold (\<lambda>p. opcode (OLookup p)) (drop 1 (parts i)) c)"

text \<open>A \<open>DataNode\<close> has no field \<open>original\<close>, so the message ends in \<open>undefined\<close>.\<close>

definition DATA :: "id_node \<Rightarrow> compiler \<Rightarrow> compiler result" where
  "DATA i c =
     (let c = c\<lparr>copts := (copts c)\<lparr>data := True\<rparr>\<rparr>
      in if isScoped i \<or> depth i \<noteq> 0
         then Inl (HBException (js ''Scoped data references are not supported: undefined''))
         else Inr (fold (\<lambda>p. opcode (OLookup p)) (parts i) (opcode OLookupData c)))"

text \<open>\<open>this[param.type](param)\<close>\<close>

definition accept_param :: "param \<Rightarrow> compiler \<Rightarrow> compiler result" where
  "accept_param p c =
     (case p of
        PId i \<Rightarrow> Inr (ID i c)
      | PData i \<Rightarrow> DATA i c
      | PString s \<Rightarrow> Inr (opcode (OPushString s) c)
      | PInteger s \<Rightarrow> Inr (opcode (OPushLiteral s) c)
      | PBoolean s \<Rightarrow> Inr (opcode (OPushLiteral s) c))"

text \<open>\<open>Number(integer)\<close> on the text of an integer literal.\<close>

definition digits_value :: "jstr \<Rightarrow> int" where
  "digits_value s = foldl (\<lambda>n c. 10 * n + (uint c - 48)) 0 s"

definition toNumber :: "jstr \<Rightarrow> int" where
  "toNumber s = (if s \<noteq> [] \<and> hd s = 45 then - digits_value (tl s) else digits_value s)"

definition stringModeValue :: "param \<Rightarrow> arg" where
  "stringModeValue p =
     (case p of
        PId i \<Rightarrow> AStr (string i)
      | PData i \<Rightarrow> AUndef
      | PString s \<Rightarrow> AStr s
      | PInteger s \<Rightarrow> ANum (toNumber s)
      | PBoolean s \<Rightarrow> ABool (s = js ''true''))"

definition param_type :: "param \<Rightarrow> jstr" where
  "param_type p =
     (case p of PId i \<Rightarrow> js ''ID'' | PData i \<Rightarrow> js ''DATA'' | PString s \<Rightarrow> js ''STRING''
      | PInteger s \<Rightarrow> js ''INTEGER'' | PBoolean s \<Rightarrow> js ''BOOLEAN'')"

definition param_depth :: "param \<Rightarrow> nat" where
  "param_depth p = (case p of PId i \<Rightarrow> depth i | _ \<Rightarrow> 0)"

definition string_param :: "param \<Rightarrow> compiler \<Rightarrow> compiler" where
  "string_param p c =
     (let c = (if param_depth p \<noteq> 0 then addDepth (param_depth p) c else c)
      in opcode (OPushStringParam (stringModeValue p) (param_type p)) (opcode (OGetContext (param_depth p)) c))"

definition push_param :: "param \<Rightarrow> compiler \<Rightarrow> compiler result" where
  "push_param p c = (if stringParams (copts c) then Inr (string_param p c) else accept_param p c)"

text \<open>\<open>pushParams\<close> goes through its list from the end.\<close>

fun push_all :: "param list \<Rightarrow> compiler \<Rightarrow> compiler result" where
  "push_all [] c = Inr c"
| "push_all (p # ps) c = bindR (push_param p c) (push_all ps)"

definition pushParams :: "param list \<Rightarrow> compiler \<Rightarrow> compiler result" where
  "pushParams ps c = push_all (rev ps) c"

fun hash_pairs :: "hash_node \<Rightarrow> compiler \<Rightarrow> compiler result" where
  "hash_pairs [] c = Inr c"
| "hash_pairs ((k, v) # ps) c =
     bindR (push_param v c) (\<lambda>c. hash_pairs ps (opcode (OAssignToHash k) c))"

definition hash :: "hash_node \<Rightarrow> compiler \<Rightarrow> compiler result" where
  "hash h c = bindR (hash_pairs h (opcode OPushHash c)) (\<lambda>c. Inr (opcode OPopHash c))"

definition setup_hash :: "hash_node option \<Rightarrow> compiler \<Rightarrow> compiler result" where
  "setup_hash h c = (case h of Some h \<Rightarrow> hash h c | None \<Rightarrow> Inr (opcode OEmptyHash c))"

definition setupMustacheParams :: "mustache_node \<Rightarrow> compiler \<Rightarrow> (param list \<times> compiler) result" where
  "setupMustacheParams m c =
     bindR (pushParams (m_params m) c) (\<lambda>c.
     bindR (setup_hash (m_hash m) c) (\<lambda>c. Inr (m_params m, c)))"

definition setupFullMustacheParams ::
    "mustache_node \<Rightarrow> nat option \<Rightarrow> nat option \<Rightarrow> compiler \<Rightarrow> (param list \<times> compiler) result" where
  "setupFullMustacheParams m program inverse_prog c =
     bindR (pushParams (m_params m) c) (\<lambda>c.
     bindR (setup_hash (m_hash m) (opcode (OPushProgram inverse_prog) (opcode (OPushProgram program) c))) (\<lambda>c.
       Inr (m_params m, c)))"

text \<open>
  \<open>mustache.id.parts[0]\<close>.  A literal has no \<open>parts\<close>, and a path without names has no first name;
  the callers read it only for simple paths.
\<close>

definition first_part :: "param \<Rightarrow> jstr result" where
  "first_part p =
     (case p of
        PId i \<Rightarrow> (case parts i of [] \<Rightarrow> Inl TypeErr | name # _ \<Rightarrow> Inr name)
      | _ \<Rightarrow> Inl TypeErr)"

datatype mustache_class = Helper | Ambiguous | Simple

definition classifyMustache :: "mustache_node \<Rightarrow> compiler \<Rightarrow> mustache_class result" where
  "classifyMustache m c =
     bindR (if m_eligibleHelper m \<and> \<not> m_isHelper m
            then bindR (first_part (m_id m)) (\<lambda>name.
                   if known (copts c) name then Inr (True, True)
                   else if knownHelpersOnly (copts c) then Inr (False, False)
                   else Inr (False, True))
            else Inr (m_isHelper m, m_eligibleHelper m)) (\<lambda>(isHelper, isEligible).
     Inr (if isHelper then Helper else if isEligible then Ambiguous else Simple))"

definition helperMustache ::
    "mustache_node \<Rightarrow> nat option \<Rightarrow> nat option \<Rightarrow> compiler \<Rightarrow> compiler result" where
  "helperMustache m program inverse_prog c =
     bindR (setupFullMustacheParams m program inverse_prog c) (\<lambda>(params, c).
     bindR (first_part (m_id m)) (\<lambda>name.
       if known (copts c) name then Inr (opcode (OInvokeKnownHelper (length params) name) c)
       else if knownHelpersOnly (copts c)
       then Inl (Error (js ''You specified knownHelpersOnly, but used the unknown helper '' @ name))
       else Inr (opcode (OInvokeHelper (length params) name) c)))"

definition simpleMustache :: "mustache_node \<Rightarrow> compiler \<Rightarrow> compiler result" where
  "simpleMustache m c =
     bindR (case m_id m of
              PData i \<Rightarrow> DATA i c
            | PId i \<Rightarrow>
                Inr (if parts i \<noteq> [] then ID i c
                     else opcode OPushContext (opcode (OGetContext (depth i)) (addDepth (depth i) c)))
            | _ \<Rightarrow> Inl TypeErr) (\<lambda>c.
     Inr (opcode OResolvePossibleLambda c))"

definition ambiguousMustache ::
    "mustache_node \<Rightarrow> nat option \<Rightarrow> nat option \<Rightarrow> compiler \<Rightarrow> compiler result" where
  "ambiguousMustache m program inverse_prog c =
     bindR (first_part (m_id m)) (\<lambda>name.
       Inr (opcode (OInvokeAmbiguous name (program \<noteq> None \<or> inverse_prog \<noteq> None))
             (opcode (OPushProgram inverse_prog) (opcode (OPushProgram program)
               (opcode (OGetContext (param_depth (m_id m))) c)))))"

definition mustache :: "mustache_node \<Rightarrow> compiler \<Rightarrow> compiler result" where
  "mustache m c =
     (let escape = (m_escaped m \<and> \<not> noEscape (copts c))
      in bindR (classifyMustache m c) (\<lambda>type.
         bindR (case type of
                  Simple \<Rightarrow> simpleMustache m c
                | Helper \<Rightarrow> helperMustache m None None c
                | Ambiguous \<Rightarrow> ambiguousMustache m None None c) (\<lambda>c.
         Inr (opcode (if escape then OAppendEscaped else OAppend) c))))"

definition partial :: "jstr \<Rightarrow> id_node option \<Rightarrow> compiler \<Rightarrow> compiler" where
  "partial name ctxt c =
     (let c = c\<lparr>usePartial := True\<rparr>;
          c = (case ctxt of Some i \<Rightarrow> ID i c | None \<Rightarrow> opcode (OPush (js ''depth0'')) c)
      in opcode OAppend (opcode (OInvokePartial name) c))"

text \<open>The part of \<open>block\<close> after its two programs are compiled.\<close>

definition block_tail :: "mustache_node \<Rightarrow> nat option \<Rightarrow> nat option \<Rightarrow> compiler \<Rightarrow> compiler result" where
  "block_tail m program inverse_prog c =
     bindR (classifyMustache m c) (\<lambda>type.
     bindR (case type of
              Helper \<Rightarrow> helperMustache m program inverse_prog c
            | Simple \<Rightarrow>
                bindR (simpleMustache m c) (\<lambda>c.
                  Inr (opcode OBlockValue (opcode OEmptyHash
                    (opcode (OPushProgram inverse_prog) (opcode (OPushProgram program) c)))))
            | Ambiguous \<Rightarrow>
                bindR (ambiguousMustache m program inverse_prog c) (\<lambda>c.
                  Inr (opcode OAmbiguousBlockValue (opcode OEmptyHash
                    (opcode (OPushProgram inverse_prog) (opcode (OPushProgram program) c)))))) (\<lambda>c.
     Inr (opcode OAppend c)))"

text \<open>\<open>compileProgram\<close> after the child is compiled: its guid is the number of children so far.\<close>

definition add_child :: "environment \<times> options \<Rightarrow> compiler \<Rightarrow> nat option \<times> compiler" where
  "add_child r c =
     (case r of (env, opts) \<Rightarrow>
        (Some (length (children c)),
         fold (\<lambda>d c. if d < 2 then c else addDepth (d - 1) c) (e_depths env)
           (c\<lparr>usePartial := (usePartial c \<or> e_usePartial env), copts := opts, children := children c @ [env]\<rparr>)))"

definition strip_op :: "bool \<Rightarrow> compiler \<Rightarrow> compiler" where
  "strip_op b c = (if b then opcode OStrip c else c)"

definition with_known_helpers :: "options \<Rightarrow> options" where
  "with_known_helpers opts = opts\<lparr>knownHelpers := HB_Utils.extend default_helpers (knownHelpers opts)\<rparr>"

definition new_compiler :: "options \<Rightarrow> compiler" where
  "new_compiler opts =
     \<lparr>opcodes = [], children = [], depths = [], usePartial = False, copts = with_known_helpers opts\<rparr>"

fun compile :: "program \<Rightarrow> options \<Rightarrow> (environment \<times> options) result"
  and accept :: "statement \<Rightarrow> compiler \<Rightarrow> compiler result"
  and accept_all :: "statement list \<Rightarrow> compiler \<Rightarrow> compiler result"
  and compileProgram :: "program option \<Rightarrow> compiler \<Rightarrow> (nat option \<times> compiler) result" where
  "compile (Program statements st i) opts =
     bindR (accept_all statements (strip_op (left st) (new_compiler opts))) (\<lambda>c.
       let c' = strip_op (right st) (c\<lparr>depths := sort (depths c)\<rparr>)
       in Inr (Env (opcodes c') (children c') (depths c') (length statements = 1) (usePartial c'),
               copts c'))"
| "accept (SMustache m) c =
     bindR (mustache m (strip_op (left (m_strip m)) c)) (\<lambda>c. Inr (strip_op (right (m_strip m)) c))"
| "accept (SPartial name ctxt st) c =
     Inr (strip_op (right st) (partial name ctxt (strip_op (left st) c)))"
| "accept (SBlock m program inverse_prog st) c =
     bindR (compileProgram program (strip_op (left st) c)) (\<lambda>(g, c).
     bindR (compileProgram inverse_prog c) (\<lambda>(g', c).
     bindR (block_tail m g g' c) (\<lambda>c. Inr (strip_op (right st) c))))"
| "accept (SContent s) c = Inr (opcode (OAppendContent s) c)"
| "accept (SComment s) c = Inr c"
| "accept_all [] c = Inr c"
| "accept_all (s # ss) c = bindR (accept s c) (accept_all ss)"
| "compileProgram None c = Inr (None, c)"
| "compileProgram (Some p) c = bindR (compile p (copts c)) (\<lambda>r. Inr (add_child r c))"

text \<open>\<open>equals\<close>: opcode names, arguments and children are compared; depths are not.\<close>

definition opcode_equal :: "opcode \<Rightarrow> opcode \<Rightarrow> bool" where
  "opcode_equal a b \<longleftrightarrow>
     op_name a = op_name b \<and> length (op_args a) = length (op_args b) \<and>
     list_all (\<lambda>j. op_args a ! j = op_args b ! j) [0..<length (op_args a)]"

fun equals :: "environment \<Rightarrow> environment \<Rightarrow> bool" where
  "equals (Env ops ch ds s u) other =
     (length (e_opcodes other) = length ops \<and>
      list_all (\<lambda>i. opcode_equal (ops ! i) (e_opcodes other ! i)) [0..<length ops] \<and>
      length (e_children other) = length ch \<and>
      list_all (\<lambda>b. b) (map2 (\<lambda>f o'. f o') (map equals ch) (e_children other)))"

text \<open>\<open>disassemble\<close>, which \<open>log\<close> prints: only the first newline of a string is escaped.\<close>

fun escape_first_newline :: "jstr \<Rightarrow> jstr" where
  "escape_first_newline [] = []"
| "escape_first_newline (c # s) = (if c = 10 then 92 # 110 # s else c # escape_first_newline s)"

definition show_arg :: "arg \<Rightarrow> jstr" where
  "show_arg a =
     (case a of AStr s \<Rightarrow> [34] @ escape_first_newline s @ [34] | ANum n \<Rightarrow> intToString n
      | ABool b \<Rightarrow> (if b then js ''true'' else js ''false'') | AUndef \<Rightarrow> [])"

definition disassemble :: "environment \<Rightarrow> jstr" where
  "disassemble env =
     join (map (\<lambda>oc. op_name oc @ js '' '' @ join (map show_arg (op_args oc)) (js '' '')) (e_opcodes env)) [10]"

section \<open>The stack discipline of the opcodes\<close>

text \<open>
  Every opcode takes a number of entries from the stack of the JavaScript compiler and leaves a
  number of entries.  The abstract stack has for each entry, top first, whether it is a literal.
  \<open>eff\<close> is the effect on it and on whether a hash is under construction; it is undefined when the
  stack is too low, the operands have the wrong shape or the hash state is wrong.  In string mode
  every parameter occupies three places.
\<close>

definition param_size :: "bool \<Rightarrow> nat" where
  "param_size sp = (if sp then 3 else 1)"

fun pops :: "bool \<Rightarrow> opcode \<Rightarrow> nat" where
  "pops sp OBlockValue = 4"
| "pops sp OAmbiguousBlockValue = 4"
| "pops sp OAppend = 1"
| "pops sp OAppendEscaped = 1"
| "pops sp (OAssignToHash k) = param_size sp"
| "pops sp (OInvokePartial n) = 1"
| "pops sp (OInvokeAmbiguous n b) = 2"
| "pops sp (OInvokeKnownHelper k n) = 3 + k * param_size sp"
| "pops sp (OInvokeHelper k n) = 3 + k * param_size sp"
| "pops sp OResolvePossibleLambda = 1"
| "pops sp (OLookup n) = 1"
| "pops sp _ = 0"

fun kinds :: "opcode \<Rightarrow> bool list" where
  "kinds OStrip = []"
| "kinds OAppend = []"
| "kinds OAppendEscaped = []"
| "kinds (OAppendContent s) = []"
| "kinds OPushHash = []"
| "kinds (OAssignToHash k) = []"
| "kinds (OGetContext n) = []"
| "kinds (OPushStringParam v t) = [True, True, True]"
| "kinds OPushContext = [True]"
| "kinds (OPushString s) = [True]"
| "kinds (OPushLiteral s) = [True]"
| "kinds (OPushProgram g) = [True]"
| "kinds OEmptyHash = [True]"
| "kinds _ = [False]"

text \<open>
  The shape of the operands.  A literal at the place where an opcode replaces a value must be the
  only entry; the opcodes that move the inline entries to variables are used with nothing else on
  the stack.
\<close>

definition operands_ok :: "bool \<Rightarrow> opcode \<Rightarrow> bool list \<Rightarrow> bool" where
  "operands_ok sp oc ts =
     (pops sp oc \<le> length ts \<and>
      (case oc of
         OLookup n \<Rightarrow> length ts = 1 \<or> \<not> ts ! 0
       | OResolvePossibleLambda \<Rightarrow> length ts = 1 \<or> \<not> ts ! 0
       | OBlockValue \<Rightarrow> length ts = 4 \<and> \<not> ts ! 3
       | OAmbiguousBlockValue \<Rightarrow> length ts = 4 \<and> \<not> ts ! 3
       | OInvokeAmbiguous n b \<Rightarrow> length ts = 2
       | OAppend \<Rightarrow> length ts = 1
       | OAppendEscaped \<Rightarrow> length ts = 1
       | _ \<Rightarrow> True))"

definition hash_before :: "opcode \<Rightarrow> bool \<Rightarrow> bool" where
  "hash_before oc h = (case oc of OAssignToHash k \<Rightarrow> h | OPopHash \<Rightarrow> h | OPushHash \<Rightarrow> \<not> h | _ \<Rightarrow> True)"

definition hash_after :: "opcode \<Rightarrow> bool \<Rightarrow> bool" where
  "hash_after oc h = (case oc of OPopHash \<Rightarrow> False | OPushHash \<Rightarrow> True | _ \<Rightarrow> h)"

type_synonym stack_state = "bool list \<times> bool"

definition eff :: "bool \<Rightarrow> opcode \<Rightarrow> stack_state \<Rightarrow> stack_state option" where
  "eff sp oc s =
     (case s of (ts, h) \<Rightarrow>
        if operands_ok sp oc ts \<and> hash_before oc h
        then Some (kinds oc @ drop (pops sp oc) ts, hash_after oc h) else None)"

fun run_eff :: "bool \<Rightarrow> opcode list \<Rightarrow> stack_state \<Rightarrow> stack_state option" where
  "run_eff sp [] s = Some s"
| "run_eff sp (oc # ops) s = Option.bind (eff sp oc s) (run_eff sp ops)"

lemma run_eff_append: "run_eff sp (xs @ ys) s = Option.bind (run_eff sp xs s) (run_eff sp ys)"
proof (induction xs arbitrary: s)
  case (Cons oc xs)
  then show ?case by (cases "eff sp oc s") simp_all
qed simp

text \<open>
  What an opcode refers to exists: a context depth is the own context or one of the declared
  depths, a program number is one of a child.
\<close>

definition op_scoped :: "nat \<Rightarrow> nat set \<Rightarrow> opcode \<Rightarrow> bool" where
  "op_scoped k D oc =
     (case oc of OGetContext n \<Rightarrow> n = 0 \<or> n \<in> D | OPushProgram (Some g) \<Rightarrow> g < k | _ \<Rightarrow> True)"

fun env_ok :: "bool \<Rightarrow> environment \<Rightarrow> bool" where
  "env_ok sp (Env ops ch ds s u) \<longleftrightarrow>
     run_eff sp ops ([], False) = Some ([], False) \<and>
     list_all (op_scoped (length ch) (set ds)) ops \<and>
     sorted ds \<and> distinct ds \<and> 0 \<notin> set ds \<and>
     list_all (\<lambda>e. env_ok sp e \<and> list_all (\<lambda>d. d < 2 \<or> d - 1 \<in> set ds) (e_depths e)) ch"

text \<open>
  A path whose first name is empty (written \<open>[]\<close>) is compiled to the bare context, a literal; if
  more names follow, a look-up is applied to that literal.  As a parameter or a hash value such a
  path, as \<open>[].y\<close> in \<open>{{foo [].y 'x'}}\<close>, breaks the shape conditions.  A program is headed when no parameter
  and no hash value in it is a path of several names of which the first is empty.
\<close>

definition param_headed :: "param \<Rightarrow> bool" where
  "param_headed p = (case p of PId i \<Rightarrow> (case parts i of [] # _ # _ \<Rightarrow> False | _ \<Rightarrow> True) | _ \<Rightarrow> True)"

definition mustache_headed :: "mustache_node \<Rightarrow> bool" where
  "mustache_headed m \<longleftrightarrow>
     list_all param_headed (m_params m) \<and> pred_option (list_all (\<lambda>(k, p). param_headed p)) (m_hash m)"

fun headed_statement :: "statement \<Rightarrow> bool" and headed_program :: "program \<Rightarrow> bool" where
  "headed_statement (SMustache m) = mustache_headed m"
| "headed_statement (SPartial n c st) = True"
| "headed_statement (SBlock m p i st) =
     (mustache_headed m \<and> pred_option headed_program p \<and> pred_option headed_program i)"
| "headed_statement (SContent s) = True"
| "headed_statement (SComment s) = True"
| "headed_program (Program sts st i) = (list_all headed_statement sts \<and> pred_option headed_program i)"

text \<open>The state of a compiler whose opcodes so far leave a stack of shape \<open>P\<close>.\<close>

definition comp_ok :: "bool \<Rightarrow> environment list \<Rightarrow> bool \<Rightarrow> (bool list \<Rightarrow> bool) \<Rightarrow> compiler \<Rightarrow> bool" where
  "comp_ok sp ch h P c \<longleftrightarrow>
     stringParams (copts c) = sp \<and> children c = ch \<and>
     (\<exists>ts. P ts \<and> run_eff sp (opcodes c) ([], False) = Some (ts, h)) \<and>
     list_all (op_scoped (length ch) (set (depths c))) (opcodes c) \<and>
     distinct (depths c) \<and> 0 \<notin> set (depths c) \<and>
     list_all (\<lambda>e. env_ok sp e \<and> list_all (\<lambda>d. d < 2 \<or> d - 1 \<in> set (depths c)) (e_depths e)) ch"

definition high :: "nat \<Rightarrow> bool list \<Rightarrow> bool" where
  "high n ts \<longleftrightarrow> length ts = n"

text \<open>An expression below \<open>k\<close> further entries, with \<open>n\<close> entries under it.\<close>

definition expr_at :: "nat \<Rightarrow> nat \<Rightarrow> bool list \<Rightarrow> bool" where
  "expr_at k n ts \<longleftrightarrow> length ts = k + Suc n \<and> \<not> ts ! k"

definition comp_result :: "bool \<Rightarrow> environment list \<Rightarrow> bool \<Rightarrow> (bool list \<Rightarrow> bool) \<Rightarrow> compiler result \<Rightarrow> bool" where
  "comp_result sp ch h P r = (case r of Inl e \<Rightarrow> e \<noteq> TypeErr | Inr c \<Rightarrow> comp_ok sp ch h P c)"

lemma comp_result_simps [simp]:
  "comp_result sp ch h P (Inr c) = comp_ok sp ch h P c" "comp_result sp ch h P (Inl e) = (e \<noteq> TypeErr)"
  by (simp_all add: comp_result_def)

lemma comp_result_bind:
  "comp_result sp ch h P r \<Longrightarrow> (\<And>c. comp_ok sp ch h P c \<Longrightarrow> comp_result sp ch h' Q (f c)) \<Longrightarrow>
     comp_result sp ch h' Q (bindR r f)"
  by (cases r) auto

lemma comp_ok_weaken: "comp_ok sp ch h P c \<Longrightarrow> (\<And>ts. P ts \<Longrightarrow> Q ts) \<Longrightarrow> comp_ok sp ch h Q c"
  by (auto simp: comp_ok_def)

lemma comp_result_weaken: "comp_result sp ch h P r \<Longrightarrow> (\<And>ts. P ts \<Longrightarrow> Q ts) \<Longrightarrow> comp_result sp ch h Q r"
  by (cases r) (auto intro: comp_ok_weaken)

lemma expr_at_high: "expr_at k n ts \<Longrightarrow> high (k + Suc n) ts"
  by (simp add: expr_at_def high_def)

lemma op_scoped_mono: "op_scoped k D oc \<Longrightarrow> k \<le> k' \<Longrightarrow> D \<subseteq> D' \<Longrightarrow> op_scoped k' D' oc"
  by (auto simp: op_scoped_def split: opcode.splits option.splits)

lemma opcode_frame [simp]:
  "children (opcode oc c) = children c" "depths (opcode oc c) = depths c" "copts (opcode oc c) = copts c"
  by (simp_all add: opcode_def)

lemma opcode_ok:
  assumes "comp_ok sp ch h P c"
    and "\<And>ts. P ts \<Longrightarrow> operands_ok sp oc ts \<and> Q (kinds oc @ drop (pops sp oc) ts)"
    and "hash_before oc h" "h' = hash_after oc h" "op_scoped (length ch) (set (depths c)) oc"
  shows "comp_ok sp ch h' Q (opcode oc c)"
  using assms by (fastforce simp: comp_ok_def opcode_def run_eff_append eff_def)

lemma addDepth_ok [intro]: "comp_ok sp ch h P c \<Longrightarrow> comp_ok sp ch h P (addDepth d c)"
proof -
  have *: "op_scoped k (insert d D) oc" if "op_scoped k D oc" for k D oc
    using that op_scoped_mono [of k D oc k "insert d D"] by auto
  assume "comp_ok sp ch h P c"
  then show ?thesis by (auto simp: addDepth_def comp_ok_def * list_all_iff)
qed

lemma addDepth_depths: "d = 0 \<or> d \<in> set (depths (addDepth d c))" "set (depths c) \<subseteq> set (depths (addDepth d c))"
  by (auto simp: addDepth_def)

lemma addDepth_frame [simp]: "children (addDepth d c) = children c" "copts (addDepth d c) = copts c"
  by (simp_all add: addDepth_def)

lemmas op_defs = hash_before_def hash_after_def op_scoped_def operands_ok_def

lemmas op_simps = op_defs high_def expr_at_def

text \<open>Opcodes that push one entry.\<close>

lemma push_op_ok:
  assumes "comp_ok sp ch h (high n) c" and "pops sp oc = 0" "length (kinds oc) = 1"
    and "\<And>ts. operands_ok sp oc ts" "hash_before oc h" "hash_after oc h = h"
    and "op_scoped (length ch) (set (depths c)) oc"
  shows "comp_ok sp ch h (high (Suc n)) (opcode oc c)"
  using assms by (intro opcode_ok [OF assms(1)]) (auto simp: high_def)

lemma push_expr_ok:
  assumes "comp_ok sp ch h (high n) c" and "pops sp oc = 0" "kinds oc = [False]"
    and "\<And>ts. operands_ok sp oc ts" "hash_before oc h" "hash_after oc h = h"
    and "op_scoped (length ch) (set (depths c)) oc"
  shows "comp_ok sp ch h (expr_at 0 n) (opcode oc c)"
  using assms by (intro opcode_ok [OF assms(1)]) (auto simp: high_def expr_at_def)

lemma lookups_ok:
  "comp_ok sp ch h (expr_at 0 n) c \<Longrightarrow> comp_ok sp ch h (expr_at 0 n) (fold (\<lambda>p. opcode (OLookup p)) ps c)"
proof (induction ps arbitrary: c)
  case (Cons p ps)
  have "comp_ok sp ch h (expr_at 0 n) (opcode (OLookup p) c)"
    using Cons.prems by (rule opcode_ok) (auto simp: op_simps)
  then show ?case using Cons.IH by simp
qed simp

lemma lookups_bottom_ok:
  "comp_ok sp ch h (high 1) c \<Longrightarrow> comp_ok sp ch h (high 1) (fold (\<lambda>p. opcode (OLookup p)) ps c)"
proof (induction ps arbitrary: c)
  case (Cons p ps)
  have "comp_ok sp ch h (high 1) (opcode (OLookup p) c)"
    using Cons.prems by (rule opcode_ok) (auto simp: op_simps)
  then show ?case using Cons.IH by simp
qed simp

lemma getContext_ok:
  "comp_ok sp ch h P c \<Longrightarrow> d = 0 \<or> d \<in> set (depths c) \<Longrightarrow> comp_ok sp ch h P (opcode (OGetContext d) c)"
  by (rule opcode_ok) (auto simp: op_simps)

lemma ID_bottom_ok: "comp_ok sp ch h (high 0) c \<Longrightarrow> comp_ok sp ch h (high 1) (ID i c)"
  unfolding ID_def Let_def One_nat_def
  by (rule lookups_bottom_ok [unfolded One_nat_def])
    (auto simp: op_defs split: list.split intro!: push_op_ok getContext_ok addDepth_depths)

lemma ID_ok:
  assumes c: "comp_ok sp ch h (high n) c" and i: "param_headed (PId i)"
  shows "comp_ok sp ch h (high (Suc n)) (ID i c)"
proof -
  let ?c = "opcode (OGetContext (depth i)) (addDepth (depth i) c)"
  have g: "comp_ok sp ch h (high n) ?c" using c by (auto intro!: getContext_ok addDepth_depths)
  then have pc: "comp_ok sp ch h (high (Suc n)) (opcode OPushContext ?c)"
    by (rule push_op_ok) (auto simp: op_simps)
  show ?thesis
  proof (cases "parts i = [] \<or> hd (parts i) = []")
    case True
    then have "drop 1 (parts i) = []" using i by (auto simp: param_headed_def split: list.splits)
    with True pc show ?thesis by (auto simp: ID_def Let_def split: list.split)
  next
    case False
    then obtain name ps where ps: "parts i = name # ps" "name \<noteq> []" by (cases "parts i") auto
    have "comp_ok sp ch h (expr_at 0 n) (opcode (OLookupOnContext name) ?c)"
      using g by (rule push_expr_ok) (auto simp: op_simps)
    then have "comp_ok sp ch h (expr_at 0 n) (ID i c)"
      using ps lookups_ok by (simp add: ID_def Let_def)
    then show ?thesis by (rule comp_ok_weaken) (auto dest: expr_at_high)
  qed
qed

lemma DATA_ok: "comp_ok sp ch h (high n) c \<Longrightarrow> comp_result sp ch h (high (Suc n)) (DATA i c)"
proof -
  assume "comp_ok sp ch h (high n) c"
  then have "comp_ok sp ch h (high n) (c\<lparr>copts := (copts c)\<lparr>data := True\<rparr>\<rparr>)" by (simp add: comp_ok_def)
  then have "comp_ok sp ch h (expr_at 0 n) (opcode OLookupData (c\<lparr>copts := (copts c)\<lparr>data := True\<rparr>\<rparr>))"
    by (rule push_expr_ok) (auto simp: op_simps)
  from lookups_ok [OF this, of "parts i"] show ?thesis
    by (auto simp: DATA_def Let_def dest!: expr_at_high elim!: comp_ok_weaken)
qed

lemma push_param_ok:
  assumes c: "comp_ok sp ch h (high n) c" and p: "param_headed p"
  shows "comp_result sp ch h (high (n + param_size sp)) (push_param p c)"
proof (cases sp)
  case False
  then have "\<not> stringParams (copts c)" using c by (simp add: comp_ok_def)
  with False c p show ?thesis
    by (cases p) (auto simp: push_param_def param_size_def accept_param_def ID_ok DATA_ok op_defs intro!: push_op_ok)
next
  case True
  let ?c = "if param_depth p \<noteq> 0 then addDepth (param_depth p) c else c"
  have "comp_ok sp ch h (high n) ?c" using c by auto
  then have "comp_ok sp ch h (high n) (opcode (OGetContext (param_depth p)) ?c)"
    by (rule getContext_ok) (use addDepth_depths(1) [of "param_depth p" c] in auto)
  then have "comp_ok sp ch h (high (n + 3)) (string_param p c)"
    unfolding string_param_def Let_def by (rule opcode_ok) (auto simp: op_simps)
  moreover have "stringParams (copts c)" using c True by (simp add: comp_ok_def)
  ultimately show ?thesis using True by (simp add: push_param_def param_size_def)
qed

lemma push_all_ok:
  "comp_ok sp ch h (high n) c \<Longrightarrow> list_all param_headed ps \<Longrightarrow>
     comp_result sp ch h (high (n + length ps * param_size sp)) (push_all ps c)"
proof (induction ps arbitrary: n c)
  case (Cons p ps)
  have "comp_result sp ch h (high (n + param_size sp + length ps * param_size sp)) (bindR (push_param p c) (push_all ps))"
    using Cons.prems by (intro comp_result_bind [OF push_param_ok [OF Cons.prems(1)]] Cons.IH) auto
  then show ?case by (simp add: algebra_simps)
qed simp

lemma hash_pairs_ok:
  "comp_ok sp ch True (high n) c \<Longrightarrow> list_all (\<lambda>(k, p). param_headed p) ps \<Longrightarrow>
     comp_result sp ch True (high n) (hash_pairs ps c)"
proof (induction ps arbitrary: c)
  case (Cons kv ps)
  obtain k v where kv: "kv = (k, v)" by (cases kv)
  have "comp_ok sp ch True (high n) (opcode (OAssignToHash k) c')" if "comp_ok sp ch True (high (n + param_size sp)) c'" for c'
    using that by (rule opcode_ok) (auto simp: op_simps)
  then show ?case
    using Cons.prems by (auto simp: kv intro!: comp_result_bind [OF push_param_ok [OF Cons.prems(1)]] Cons.IH)
qed simp

lemma setup_hash_ok:
  "comp_ok sp ch False (high n) c \<Longrightarrow> pred_option (list_all (\<lambda>(k, p). param_headed p)) h \<Longrightarrow>
     comp_result sp ch False (high (Suc n)) (setup_hash h c)"
proof (cases h)
  case None
  assume "comp_ok sp ch False (high n) c"
  with None show ?thesis by (auto simp: setup_hash_def op_defs intro!: push_op_ok)
next
  case (Some ps)
  assume "comp_ok sp ch False (high n) c" and hp: "pred_option (list_all (\<lambda>(k, p). param_headed p)) h"
  then have "comp_ok sp ch True (high n) (opcode OPushHash c)"
    by - (erule opcode_ok, auto simp: op_simps)
  then have "comp_result sp ch True (high n) (hash_pairs ps (opcode OPushHash c))"
    using hp Some by (intro hash_pairs_ok) auto
  then have "comp_result sp ch False (high (Suc n)) (hash ps c)"
    unfolding hash_def
  proof (rule comp_result_bind)
    fix c' assume "comp_ok sp ch True (high n) c'"
    then have "comp_ok sp ch False (high (Suc n)) (opcode OPopHash c')"
      by (rule opcode_ok) (auto simp: op_simps)
    then show "comp_result sp ch False (high (Suc n)) (Inr (opcode OPopHash c'))" by simp
  qed
  with Some show ?thesis by (simp add: setup_hash_def)
qed

lemma first_part_ok:
  assumes "wf_mustache m" "m_eligibleHelper m"
  shows "\<exists>name. first_part (m_id m) = Inr name" "param_depth (m_id m) = 0"
  using assms
  by (auto simp: wf_mustache_def param_isSimple_def wf_param_def wf_id_def first_part_def param_depth_def
      length_Suc_conv split: param.splits)

lemma classify_ok:
  assumes "wf_mustache m"
  shows "\<exists>t. classifyMustache m c = Inr t \<and> (t \<noteq> Simple \<longrightarrow> m_eligibleHelper m)"
  using assms first_part_ok [OF assms]
  by (auto simp: classifyMustache_def wf_mustache_def)

definition guid_ok :: "environment list \<Rightarrow> nat option \<Rightarrow> bool" where
  "guid_ok ch g = (case g of None \<Rightarrow> True | Some k \<Rightarrow> k < length ch)"

lemma pushProgram_ok:
  "comp_ok sp ch h (high n) c \<Longrightarrow> guid_ok ch g \<Longrightarrow> comp_ok sp ch h (high (Suc n)) (opcode (OPushProgram g) c)"
  by (rule push_op_ok) (auto simp: op_simps guid_ok_def split: option.splits)

lemma helperMustache_ok:
  assumes c: "comp_ok sp ch False (high n) c" and m: "wf_mustache m" "m_eligibleHelper m" and hd: "mustache_headed m"
    and g: "guid_ok ch g" "guid_ok ch g'"
  shows "comp_result sp ch False (high (Suc n)) (helperMustache m g g' c)"
proof -
  obtain name where name: "first_part (m_id m) = Inr name" using first_part_ok [OF m] by blast
  have call: "comp_result sp ch False (high (Suc n))
      (if known (copts c') name then Inr (opcode (OInvokeKnownHelper (length (m_params m)) name) c')
       else if knownHelpersOnly (copts c')
       then Inl (Error (js ''You specified knownHelpersOnly, but used the unknown helper '' @ name))
       else Inr (opcode (OInvokeHelper (length (m_params m)) name) c'))"
    if "comp_ok sp ch False (high (Suc (Suc (Suc (n + length (rev (m_params m)) * param_size sp))))) c'" for c'
    using that by (auto intro!: opcode_ok simp: op_simps)
  have "helperMustache m g g' c =
      bindR (pushParams (m_params m) c) (\<lambda>c1.
      bindR (setup_hash (m_hash m) (opcode (OPushProgram g') (opcode (OPushProgram g) c1))) (\<lambda>c'.
        if known (copts c') name then Inr (opcode (OInvokeKnownHelper (length (m_params m)) name) c')
        else if knownHelpersOnly (copts c')
        then Inl (Error (js ''You specified knownHelpersOnly, but used the unknown helper '' @ name))
        else Inr (opcode (OInvokeHelper (length (m_params m)) name) c')))"
    by (cases "pushParams (m_params m) c")
      (auto simp: helperMustache_def setupFullMustacheParams_def name simp del: js_Cons split: bindR_split)
  also have "comp_result sp ch False (high (Suc n)) \<dots>"
  proof -
    have "list_all param_headed (rev (m_params m))" "pred_option (list_all (\<lambda>(k, p). param_headed p)) (m_hash m)"
      using hd by (auto simp: mustache_headed_def)
    note h = this
    show ?thesis
      unfolding pushParams_def
      by (rule comp_result_bind [OF push_all_ok [OF c h(1)]], rule comp_result_bind [OF setup_hash_ok [OF _ h(2)]])
        (assumption | rule call pushProgram_ok g)+
  qed
  finally show ?thesis .
qed

lemma simpleMustache_ok:
  assumes c: "comp_ok sp ch False (high 0) c" and m: "wf_mustache m"
  shows "comp_result sp ch False (expr_at 0 0) (simpleMustache m c)"
  unfolding simpleMustache_def
proof (rule comp_result_bind)
  have "comp_ok sp ch False (high 1) (opcode OPushContext (opcode (OGetContext d) (addDepth d c)))" for d
    unfolding One_nat_def
    using c by (auto intro!: push_op_ok getContext_ok addDepth_depths simp: op_defs)
  then show "comp_result sp ch False (high 1) (case m_id m of PData i \<Rightarrow> DATA i c
            | PId i \<Rightarrow> Inr (if parts i \<noteq> [] then ID i c
                     else opcode OPushContext (opcode (OGetContext (depth i)) (addDepth (depth i) c)))
            | _ \<Rightarrow> Inl TypeErr)"
    using m c DATA_ok [OF c] ID_bottom_ok [OF c]
    by (auto simp: wf_mustache_def is_path_def split: param.splits)
next
  fix c' assume "comp_ok sp ch False (high 1) c'"
  then have "comp_ok sp ch False (expr_at 0 0) (opcode OResolvePossibleLambda c')"
    by (rule opcode_ok) (auto simp: op_simps)
  then show "comp_result sp ch False (expr_at 0 0) (Inr (opcode OResolvePossibleLambda c'))" by simp
qed

lemma ambiguousMustache_ok:
  assumes c: "comp_ok sp ch False (high 0) c" and m: "wf_mustache m" "m_eligibleHelper m"
    and g: "guid_ok ch g" "guid_ok ch g'"
  shows "comp_result sp ch False (expr_at 0 0) (ambiguousMustache m g g' c)"
proof -
  obtain name where name: "first_part (m_id m) = Inr name" using first_part_ok [OF m] by blast
  have "comp_ok sp ch False (high (Suc (Suc 0))) (opcode (OPushProgram g') (opcode (OPushProgram g)
      (opcode (OGetContext (param_depth (m_id m))) c)))"
    using first_part_ok(2) [OF m] g c by (intro pushProgram_ok getContext_ok) auto
  then have "comp_ok sp ch False (expr_at 0 0) (opcode (OInvokeAmbiguous name (g \<noteq> None \<or> g' \<noteq> None))
      (opcode (OPushProgram g') (opcode (OPushProgram g) (opcode (OGetContext (param_depth (m_id m))) c))))"
    by (rule opcode_ok) (auto simp: op_simps)
  then show ?thesis by (simp add: ambiguousMustache_def name)
qed

lemma append_ok: "comp_ok sp ch h (high (Suc 0)) c \<Longrightarrow> comp_ok sp ch h (high 0) (opcode (if e then OAppendEscaped else OAppend) c)"
  by (erule opcode_ok) (auto simp: op_simps)

lemma expr_high: "comp_result sp ch h (expr_at 0 0) r \<Longrightarrow> comp_result sp ch h (high (Suc 0)) r"
  by (erule comp_result_weaken) (auto dest: expr_at_high)

lemma mustache_ok:
  assumes c: "comp_ok sp ch False (high 0) c" and m: "wf_mustache m" "mustache_headed m"
  shows "comp_result sp ch False (high 0) (mustache m c)"
proof -
  obtain t where t: "classifyMustache m c = Inr t" "t \<noteq> Simple \<longrightarrow> m_eligibleHelper m"
    using classify_ok [OF m(1)] by blast
  have "comp_result sp ch False (high (Suc 0)) (case t of Simple \<Rightarrow> simpleMustache m c
      | Helper \<Rightarrow> helperMustache m None None c | Ambiguous \<Rightarrow> ambiguousMustache m None None c)"
    using t(2) expr_high [OF simpleMustache_ok [OF c m(1)]] helperMustache_ok [OF c m(1) _ m(2)]
      expr_high [OF ambiguousMustache_ok [OF c m(1)]]
    by (auto simp: guid_ok_def split: mustache_class.split)
  then show ?thesis
    unfolding mustache_def Let_def t(1) bindR.simps
    by (rule comp_result_bind) (simp add: append_ok)
qed

lemma expr_push_ok:
  assumes "comp_ok sp ch h (expr_at k n) c" and "pops sp oc = 0" "length (kinds oc) = 1"
    and "\<And>ts. operands_ok sp oc ts" "hash_before oc h" "hash_after oc h = h"
    and "op_scoped (length ch) (set (depths c)) oc"
  shows "comp_ok sp ch h (expr_at (Suc k) n) (opcode oc c)"
  using assms by (intro opcode_ok [OF assms(1)]) (auto simp: expr_at_def length_Suc_conv)

lemma block_values_ok:
  assumes "comp_ok sp ch False (expr_at 0 0) c" "guid_ok ch g" "guid_ok ch g'"
    and "oc = OBlockValue \<or> oc = OAmbiguousBlockValue"
  shows "comp_ok sp ch False (high (Suc 0))
    (opcode oc (opcode OEmptyHash (opcode (OPushProgram g') (opcode (OPushProgram g) c))))"
proof -
  have "comp_ok sp ch False (expr_at (Suc (Suc (Suc 0))) 0) (opcode OEmptyHash (opcode (OPushProgram g') (opcode (OPushProgram g) c)))"
    using assms by (intro expr_push_ok) (auto simp: op_simps guid_ok_def split: option.splits)
  then show ?thesis by (rule opcode_ok) (use assms(4) in \<open>auto simp: op_simps numeral_3_eq_3\<close>)
qed

lemma block_tail_ok:
  assumes c: "comp_ok sp ch False (high 0) c" and m: "wf_mustache m" "mustache_headed m"
    and g: "guid_ok ch g" "guid_ok ch g'"
  shows "comp_result sp ch False (high 0) (block_tail m g g' c)"
proof -
  obtain t where t: "classifyMustache m c = Inr t" "t \<noteq> Simple \<longrightarrow> m_eligibleHelper m"
    using classify_ok [OF m(1)] by blast
  have "comp_result sp ch False (high (Suc 0)) (case t of Helper \<Rightarrow> helperMustache m g g' c
      | Simple \<Rightarrow> bindR (simpleMustache m c) (\<lambda>c.
          Inr (opcode OBlockValue (opcode OEmptyHash (opcode (OPushProgram g') (opcode (OPushProgram g) c)))))
      | Ambiguous \<Rightarrow> bindR (ambiguousMustache m g g' c) (\<lambda>c.
          Inr (opcode OAmbiguousBlockValue (opcode OEmptyHash (opcode (OPushProgram g') (opcode (OPushProgram g) c))))))"
    using t(2) helperMustache_ok [OF c m(1) _ m(2) g] comp_result_bind [OF simpleMustache_ok [OF c m(1)]]
      comp_result_bind [OF ambiguousMustache_ok [OF c m(1) _ g]]
    by (auto simp: block_values_ok g split: mustache_class.split)
  then show ?thesis
    unfolding block_tail_def t(1) bindR.simps
    by (rule comp_result_bind) (use append_ok [where e = False] in simp)
qed

lemma partial_ok: "comp_ok sp ch False (high 0) c \<Longrightarrow> comp_ok sp ch False (high 0) (partial name ctxt c)"
proof -
  assume "comp_ok sp ch False (high 0) c"
  then have "comp_ok sp ch False (high 0) (c\<lparr>usePartial := True\<rparr>)" by (simp add: comp_ok_def)
  then have "comp_ok sp ch False (high (Suc 0)) (case ctxt of Some i \<Rightarrow> ID i (c\<lparr>usePartial := True\<rparr>)
      | None \<Rightarrow> opcode (OPush (js ''depth0'')) (c\<lparr>usePartial := True\<rparr>))"
    using ID_bottom_ok by (auto simp: op_defs split: option.split intro!: push_op_ok)
  then have "comp_ok sp ch False (high (Suc 0)) (opcode (OInvokePartial name) (case ctxt of
      Some i \<Rightarrow> ID i (c\<lparr>usePartial := True\<rparr>)
      | None \<Rightarrow> opcode (OPush (js ''depth0'')) (c\<lparr>usePartial := True\<rparr>)))"
    by (rule opcode_ok) (auto simp: op_simps)
  from append_ok [OF this, of False] show ?thesis by (simp add: partial_def Let_def)
qed

lemma strip_op_ok: "comp_ok sp ch h P c \<Longrightarrow> comp_ok sp ch h P (strip_op b c)"
  unfolding strip_op_def by (cases b) (auto intro!: opcode_ok simp: op_simps)

lemma add_child_depths:
  "set (depths (fold (\<lambda>d c. if d < 2 then c else addDepth (d - 1) c) ds c)) =
     set (depths c) \<union> {d - 1 |d. d \<in> set ds \<and> 2 \<le> d}"
  by (induction ds arbitrary: c) (auto simp: addDepth_def)

lemma add_child_fold_ok:
  "comp_ok sp ch h P c \<Longrightarrow> comp_ok sp ch h P (fold (\<lambda>d c. if d < 2 then c else addDepth (d - 1) c) ds c)"
  by (induction ds arbitrary: c) auto

lemma add_child_swap:
  "fold (\<lambda>d c. if d < 2 then c else addDepth (d - 1) c) ds (x\<lparr>children := y\<rparr>) =
     (fold (\<lambda>d c. if d < 2 then c else addDepth (d - 1) c) ds x)\<lparr>children := y\<rparr>"
proof (induction ds arbitrary: x)
  case (Cons d ds)
  have "addDepth k (x\<lparr>children := y\<rparr>) = (addDepth k x)\<lparr>children := y\<rparr>" for k
    by (cases x) (simp add: addDepth_def)
  with Cons show ?case by simp
qed simp

text \<open>A compiled child joins its parent: the parent then declares the depths the child needs.\<close>

lemma add_child_ok:
  assumes c: "comp_ok sp ch h P c" and e: "env_ok sp env" and s: "stringParams opts = sp"
    and r: "add_child (env, opts) c = (g, c')"
  shows "comp_ok sp (ch @ [env]) h P c'" "guid_ok (ch @ [env]) g"
proof -
  let ?f = "fold (\<lambda>d c. if d < 2 then c else addDepth (d - 1) c) (e_depths env)"
  let ?c = "c\<lparr>usePartial := (usePartial c \<or> e_usePartial env), copts := opts\<rparr>"
  have "comp_ok sp ch h P ?c" using c s by (simp add: comp_ok_def)
  then have f: "comp_ok sp ch h P (?f ?c)" by (rule add_child_fold_ok)
  have c': "c' = (?f ?c)\<lparr>children := ch @ [env]\<rparr>" and g: "g = Some (length ch)"
    using r c add_child_swap [where ds = "e_depths env" and x = ?c and y = "ch @ [env]"] by (auto simp: add_child_def comp_ok_def)
  have *: "op_scoped (Suc (length ch)) D oc" if "op_scoped (length ch) D oc" for D oc
    using that op_scoped_mono [of "length ch" D oc] by auto
  have "d - 1 \<in> set (depths (?f ?c))" if "d \<in> set (e_depths env)" "\<not> d < 2" for d
    using that by (auto simp: add_child_depths)
  then show "comp_ok sp (ch @ [env]) h P c'"
    using f e by (auto simp: c' comp_ok_def list_all_iff *)
  show "guid_ok (ch @ [env]) g" by (simp add: g guid_ok_def)
qed

lemma guid_ok_append: "guid_ok ch g \<Longrightarrow> guid_ok (ch @ ch') g"
  by (auto simp: guid_ok_def split: option.splits)

definition program_result :: "bool \<Rightarrow> (environment \<times> options) result \<Rightarrow> bool" where
  "program_result sp r =
     (case r of Inl e \<Rightarrow> e \<noteq> TypeErr | Inr (env, opts) \<Rightarrow> env_ok sp env \<and> stringParams opts = sp)"

definition child_result :: "bool \<Rightarrow> environment list \<Rightarrow> (nat option \<times> compiler) result \<Rightarrow> bool" where
  "child_result sp ch r =
     (case r of Inl e \<Rightarrow> e \<noteq> TypeErr
      | Inr (g, c) \<Rightarrow> \<exists>ch'. comp_ok sp (ch @ ch') False (high 0) c \<and> guid_ok (ch @ ch') g)"

definition statement_result :: "bool \<Rightarrow> compiler result \<Rightarrow> bool" where
  "statement_result sp r = (case r of Inl e \<Rightarrow> e \<noteq> TypeErr | Inr c \<Rightarrow> \<exists>ch. comp_ok sp ch False (high 0) c)"

lemma compile_all_ok:
  "wf_program p \<Longrightarrow> headed_program p \<Longrightarrow> stringParams opts = sp \<Longrightarrow> program_result sp (compile p opts)"
  "wf_statement s \<Longrightarrow> headed_statement s \<Longrightarrow> comp_ok sp ch False (high 0) c \<Longrightarrow> statement_result sp (accept s c)"
  "list_all wf_statement ss \<Longrightarrow> list_all headed_statement ss \<Longrightarrow> comp_ok sp ch False (high 0) c \<Longrightarrow> statement_result sp (accept_all ss c)"
  "pred_option wf_program q \<Longrightarrow> pred_option headed_program q \<Longrightarrow> comp_ok sp ch False (high 0) c \<Longrightarrow> child_result sp ch (compileProgram q c)"
proof (induction p opts and s c and ss c and q c arbitrary: and ch and ch and ch rule: compile_accept_accept_all_compileProgram.induct)
  case (1 statements st i opts)
  have "comp_ok sp [] False (high 0) (strip_op (left st) (new_compiler opts))"
    using 1(4) by (intro strip_op_ok) (simp add: comp_ok_def new_compiler_def with_known_helpers_def high_def)
  with 1 have "statement_result sp (accept_all statements (strip_op (left st) (new_compiler opts)))" by auto
  moreover have "env_ok sp (Env (opcodes c') (children c') (depths c') b u) \<and> stringParams (copts c') = sp"
    if "comp_ok sp ch False (high 0) c" and c': "c' = strip_op (right st) (c\<lparr>depths := sort (depths c)\<rparr>)" for c c' ch b u
  proof -
    have "comp_ok sp ch False (high 0) (c\<lparr>depths := sort (depths c)\<rparr>)" using that(1) by (simp add: comp_ok_def)
    then have "comp_ok sp ch False (high 0) c'" unfolding c' by (rule strip_op_ok)
    moreover have "depths c' = sort (depths c)" by (simp add: c' strip_op_def)
    ultimately show ?thesis by (auto simp: comp_ok_def high_def)
  qed
  ultimately show ?case
    by (auto simp: program_result_def statement_result_def Let_def split: sum.splits bindR_split)
next
  case (2 m c)
  then have "comp_result sp ch False (high 0) (mustache m (strip_op (left (m_strip m)) c))"
    by (intro mustache_ok strip_op_ok) auto
  then show ?case
    by (auto simp: comp_result_def statement_result_def split: sum.splits bindR_split intro: strip_op_ok)
next
  case (3 name ctxt st c)
  then show ?case by (auto simp: statement_result_def intro!: exI [of _ ch] strip_op_ok partial_ok)
next
  case (4 m program inverse_prog st c)
  have wf: "wf_mustache m" "pred_option wf_program program" "pred_option wf_program inverse_prog"
    and hd: "mustache_headed m" "pred_option headed_program program" "pred_option headed_program inverse_prog"
    using 4(3,4) by auto
  have c0: "comp_ok sp ch False (high 0) (strip_op (left st) c)" using 4(5) by (rule strip_op_ok)
  note r1 = 4(1) [OF wf(2) hd(2) c0]
  show ?case
  proof (cases "compileProgram program (strip_op (left st) c)")
    case (Inl e)
    with r1 show ?thesis by (simp add: statement_result_def child_result_def)
  next
    case (Inr x)
    obtain g c1 where x: "x = (g, c1)" by (cases x)
    with r1 Inr obtain ch1 where c1: "comp_ok sp (ch @ ch1) False (high 0) c1" and g: "guid_ok (ch @ ch1) g"
      by (auto simp: child_result_def)
    note r2 = 4(2) [OF Inr x [symmetric] wf(3) hd(3) c1]
    show ?thesis
    proof (cases "compileProgram inverse_prog c1")
      case (Inl e)
      with r2 Inr x show ?thesis by (simp add: statement_result_def child_result_def)
    next
      case (Inr y)
      obtain g' c2 where y: "y = (g', c2)" by (cases y)
      with r2 Inr obtain ch2 where c2: "comp_ok sp (ch @ ch1 @ ch2) False (high 0) c2" and g': "guid_ok (ch @ ch1 @ ch2) g'"
        by (auto simp: child_result_def)
      have "comp_result sp (ch @ ch1 @ ch2) False (high 0) (block_tail m g g' c2)"
        using block_tail_ok [OF c2 wf(1) hd(1) _ g'] guid_ok_append [OF g, of ch2] by simp
      then show ?thesis using Inr y x \<open>compileProgram program (strip_op (left st) c) = Inr x\<close>
        by (auto simp: comp_result_def statement_result_def split: sum.splits bindR_split intro: strip_op_ok)
    qed
  qed
next
  case (5 s c)
  then show ?case by (auto simp: statement_result_def op_simps intro!: exI [of _ ch] opcode_ok)
next
  case (8 s ss c)
  then have "statement_result sp (accept s c)" by simp
  with 8 show ?case by (cases "accept s c") (auto simp: statement_result_def)
next
  case (10 p c)
  then have "program_result sp (compile p (copts c))" by (simp add: comp_ok_def)
  moreover have "child_result sp ch (Inr (add_child (env, opts) c))"
    if "env_ok sp env" "stringParams opts = sp" for env opts
    using add_child_ok [OF 10(4) that] by (cases "add_child (env, opts) c") (auto simp: child_result_def)
  ultimately show ?case
    by (cases "compile p (copts c)") (auto simp: program_result_def, auto simp: child_result_def)
qed (auto simp: statement_result_def child_result_def guid_ok_def intro: exI [of _ "[]"])

text \<open>
  C9.  Compiling a well-formed program, no parameter or hash value of which is a path of several names
  that begins with the empty name \<open>[]\<close>, never fails in the engine, and the opcodes it yields respect
  the stack discipline in the program and in every child: no opcode finds the stack too low, its
  operands of the wrong shape or the hash in the wrong state, and the stack is empty at the end.  Every context depth an opcode
  refers to is declared (in the program itself and, one lower, in its parent), the declared depths
  are sorted and distinct, and every program number is that of a child.
\<close>

theorem compile_balanced:
  assumes "wf_program p" and "headed_program p"
  shows "case compile p opts of
           Inl e \<Rightarrow> e \<noteq> TypeErr
         | Inr (env, opts') \<Rightarrow> env_ok (stringParams opts) env \<and> stringParams opts' = stringParams opts"
  using compile_all_ok(1) [OF assms(1,2) refl, of opts] by (simp add: program_result_def)

definition sample_id :: "jstr \<Rightarrow> id_node" where
  "sample_id s = \<lparr>original = s, parts = [s], string = s, depth = 0, isScoped = False, isSimple = True\<rparr>"

definition sample_block :: program where
  "sample_block =
     Program [SBlock \<lparr>m_id = PId (sample_id (js ''if'')), m_params = [PId (sample_id (js ''a''))], m_hash = None,
                m_escaped = True, m_eligibleHelper = True, m_isHelper = True, m_strip = no_strip\<rparr>
                (Some (Program [SContent (js ''x'')] no_strip None)) None no_strip] no_strip None"

definition sample_options :: options where
  "sample_options = \<lparr>stringParams = False, data = True, knownHelpersOnly = False, noEscape = False, knownHelpers = []\<rparr>"

lemma sample_block_wf: "wf_program sample_block"
  by (simp add: sample_block_def wf_mustache_def wf_param_def wf_id_def is_path_def param_isSimple_def sample_id_def)

lemma sample_block_headed: "headed_program sample_block"
  by (simp add: sample_block_def mustache_headed_def param_headed_def sample_id_def)

theorem compile_balanced_witness:
  "wf_program sample_block \<and> headed_program sample_block \<and>
   (case compile sample_block sample_options of
      Inl e \<Rightarrow> e \<noteq> TypeErr
    | Inr (env, opts') \<Rightarrow> env_ok (stringParams sample_options) env \<and> stringParams opts' = stringParams sample_options) \<and>
   (case compile sample_block sample_options of Inl e \<Rightarrow> False | Inr (env, opts') \<Rightarrow> length (e_opcodes env) = 7)"
proof -
  have "case compile sample_block sample_options of Inl e \<Rightarrow> False | Inr (env, opts') \<Rightarrow> length (e_opcodes env) = 7"
    by code_simp
  then show ?thesis using sample_block_wf sample_block_headed compile_balanced [OF sample_block_wf sample_block_headed, of sample_options] by blast
qed

section \<open>Equality of programs\<close>

lemma opcode_args_inj: "op_name a = op_name b \<Longrightarrow> op_args a = op_args b \<Longrightarrow> a = b"
  by (cases a; cases b) (auto simp: guid_arg_def split: option.splits)

lemma opcode_equal_iff: "opcode_equal a b \<longleftrightarrow> a = b"
proof
  assume e: "opcode_equal a b"
  then have "op_args a = op_args b"
    by (auto simp: opcode_equal_def list_all_iff intro: nth_equalityI)
  with e show "a = b" by (auto simp: opcode_equal_def intro: opcode_args_inj)
qed (simp add: opcode_equal_def list_all_iff)

text \<open>An environment with the depths and flags forgotten.\<close>

fun skeleton :: "environment \<Rightarrow> environment" where
  "skeleton (Env ops ch ds s u) = Env ops (map skeleton ch) [] False False"

lemma list_all_equals:
  "length xs = length ys \<Longrightarrow> list_all (\<lambda>b. b) (map2 (\<lambda>f o'. f o') (map equals xs) ys) \<longleftrightarrow> list_all2 equals xs ys"
  by (induction xs ys rule: list_induct2) auto

lemma equals_skeleton: "equals a b \<longleftrightarrow> skeleton a = skeleton b"
proof (induction a arbitrary: b)
  case (Env ops ch ds s u)
  obtain ops' ch' ds' s' u' where b: "b = Env ops' ch' ds' s' u'" by (cases b)
  have ops: "length ops' = length ops \<and> list_all (\<lambda>i. ops ! i = ops' ! i) [0..<length ops] \<longleftrightarrow> ops = ops'"
    by (auto simp: list_all_iff intro: nth_equalityI)
  have ch: "list_all2 equals ch ch' \<longleftrightarrow> map skeleton ch = map skeleton ch'"
    using Env.IH by (auto simp: list_all2_conv_all_nth list_eq_iff_nth_eq)
  show ?case
    unfolding b equals.simps environment.sel opcode_equal_iff skeleton.simps
    using ops ch by (auto simp: list_all_equals dest: list_all2_lengthD map_eq_imp_length_eq)
qed

text \<open>
  C10.  \<open>equals\<close> decides whether two compiled programs have the same opcodes and, recursively, the
  same children; in particular it is an equivalence.
\<close>

theorem equals_iff: "equals a b \<longleftrightarrow> skeleton a = skeleton b"
  by (rule equals_skeleton)

section \<open>Two observations on the source\<close>

text \<open>
  The table of known helpers is read like any object, so a name that every object inherits is taken
  for a known helper: \<open>{{toString}}\<close> is compiled to a call of the helper \<open>toString\<close>.
\<close>

lemma known_inherited:
  "name \<in> set object_prototype \<Longrightarrow> map_of (knownHelpers opts) name = None \<Longrightarrow> known opts name"
  by (simp add: known_def)

theorem toString_is_helper:
  "classifyMustache \<lparr>m_id = PId (sample_id (js ''toString'')), m_params = [], m_hash = None, m_escaped = True,
     m_eligibleHelper = True, m_isHelper = False, m_strip = no_strip\<rparr> (new_compiler sample_options) = Inr Helper"
  by code_simp

text \<open>A program whose only statement is a comment is simple and has no opcodes.\<close>

lemma compile_comment:
  "compile (Program [SComment s] no_strip i) opts = Inr (Env [] [] [] True False, with_known_helpers opts)"
  by (simp add: strip_op_def no_strip_def new_compiler_def)

end
