(* ===== verification/HB_JSCompiler.thy ===== *)
theory HB_JSCompiler
  imports HB_Compiler
begin

text \<open>
  The compiler from opcodes to JavaScript text: \<open>compiler/javascript-compiler.js\<close> in
  \<open>handlebars.js\<close> (lines 1190 to 2089).

  The state of a \<open>JavaScriptCompiler\<close> object is the record \<open>jsc\<close>; the object \<open>context\<close> that all
  compilers of a template share is its field \<open>ctx\<close>, handed from parent to child and back.  The two
  stacks are lists with the top first.  A stack entry is a \<open>Literal\<close> or the text of an expression;
  a value that is popped is a text, \<open>null\<close> or \<open>undefined\<close> (\<open>sval\<close>), because concatenation and
  \<open>join\<close> print the last two differently.  A line of the source is a text or the object that
  \<open>appendToBuffer\<close> makes.  What \<open>log\<close> prints is not modelled.
\<close>

section \<open>Names and string literals\<close>

definition all_digits :: "jstr \<Rightarrow> bool" where
  "all_digits s \<longleftrightarrow> s \<noteq> [] \<and> list_all (\<lambda>c. 48 \<le> c \<and> c \<le> 57) s"

definition reservedWords :: "jstr list" where
  "reservedWords =
     [js ''break'', js ''else'', js ''new'', js ''var'', js ''case'', js ''finally'', js ''return'',
      js ''void'', js ''catch'', js ''for'', js ''switch'', js ''while'', js ''continue'',
      js ''function'', js ''this'', js ''with'', js ''default'', js ''if'', js ''throw'',
      js ''delete'', js ''in'', js ''try'', js ''do'', js ''instanceof'', js ''typeof'',
      js ''abstract'', js ''enum'', js ''int'', js ''short'', js ''boolean'', js ''export'',
      js ''interface'', js ''static'', js ''byte'', js ''extends'', js ''long'', js ''super'',
      js ''char'', js ''final'', js ''native'', js ''synchronized'', js ''class'', js ''float'',
      js ''package'', js ''throws'', js ''const'', js ''goto'', js ''private'', js ''transient'',
      js ''debugger'', js ''implements'', js ''protected'', js ''volatile'', js ''double'',
      js ''import'', js ''public'', js ''let'', js ''yield'']"

text \<open>\<open>RESERVED_WORDS\<close> is an ordinary object: the names every object inherits count as reserved.\<close>

definition reserved :: "jstr \<Rightarrow> bool" where
  "reserved name \<longleftrightarrow> name \<in> set reservedWords \<or> name \<in> set object_prototype"

definition identStart :: "jchar \<Rightarrow> bool" where
  "identStart c \<longleftrightarrow> (97 \<le> c \<and> c \<le> 122) \<or> (65 \<le> c \<and> c \<le> 90) \<or> c = 95 \<or> c = 36"

definition identChar :: "jchar \<Rightarrow> bool" where
  "identChar c \<longleftrightarrow> identStart c \<or> (48 \<le> c \<and> c \<le> 57)"

text \<open>\<open>/^[a-zA-Z_$][0-9a-zA-Z_$]+$/\<close>: at least two characters.\<close>

definition isValidJavaScriptVariableName :: "jstr \<Rightarrow> bool" where
  "isValidJavaScriptVariableName name \<longleftrightarrow>
     \<not> reserved name \<and>
     (case name of c # d # s \<Rightarrow> identStart c \<and> identChar d \<and> list_all identChar s | _ \<Rightarrow> False)"

definition nameLookup :: "jstr \<Rightarrow> jstr \<Rightarrow> jstr" where
  "nameLookup parent name =
     (let ret = (if all_digits name then parent @ js ''['' @ name @ js '']''
                 else if isValidJavaScriptVariableName name then parent @ js ''.'' @ name
                 else parent @ js ''['' @ [39] @ name @ [39] @ js '']'')
      in if take 5 parent = js ''depth'' then js ''('' @ parent @ js '' && '' @ ret @ js '')'' else ret)"

text \<open>The six replacements of \<open>quotedString\<close>, in the order of the source.\<close>

definition replaceChar :: "jchar \<Rightarrow> jstr \<Rightarrow> jstr \<Rightarrow> jstr" where
  "replaceChar c r s = concat (map (\<lambda>d. if d = c then r else [d]) s)"

definition quotedString :: "jstr \<Rightarrow> jstr" where
  "quotedString str =
     [34] @ replaceChar 0x2029 (92 # js ''u2029'') (replaceChar 0x2028 (92 # js ''u2028'')
       (replaceChar 13 [92, 114] (replaceChar 10 [92, 110] (replaceChar 34 [92, 34]
         (replaceChar 92 [92, 92] str))))) @ [34]"

section \<open>State\<close>

datatype sval = SVal jstr | SNull | SUndef

text \<open>Concatenation, an element in \<open>join\<close>, and truth.\<close>

definition sval_str :: "sval \<Rightarrow> jstr" where
  "sval_str v = (case v of SVal s \<Rightarrow> s | SNull \<Rightarrow> js ''null'' | SUndef \<Rightarrow> js ''undefined'')"

definition sval_elem :: "sval \<Rightarrow> jstr" where
  "sval_elem v = (case v of SVal s \<Rightarrow> s | SNull \<Rightarrow> [] | SUndef \<Rightarrow> [])"

definition sval_true :: "sval \<Rightarrow> bool" where
  "sval_true v = (case v of SVal s \<Rightarrow> s \<noteq> [] | SNull \<Rightarrow> False | SUndef \<Rightarrow> False)"

datatype entry = Literal sval | Expr jstr

datatype line = LText jstr | LAppend jstr

record hash_state =
  h_values :: "jstr list"
  h_types :: "jstr list"
  h_contexts :: "jstr list"

record jcontext =
  programs :: "jstr option list"
  environments :: "environment option list"
  aliases :: "(jstr \<times> jstr) list"

record jsc =
  source :: "line list"
  stackSlot :: int
  stackVars :: "jstr list"
  registers :: "jstr list"
  compileStack :: "entry list"
  inlineStack :: "entry list"
  lastContext :: nat
  lastHelper :: jstr
  jhash :: "hash_state option"
  pendingContent :: jstr
  stripNext :: bool
  child_index :: "nat list"
  jsimple :: bool
  jchildren :: "environment list"
  jopts :: options
  ctx :: jcontext

definition set_alias :: "string \<Rightarrow> string \<Rightarrow> jsc \<Rightarrow> jsc" where
  "set_alias name value c = c\<lparr>ctx := (ctx c)\<lparr>aliases := obj_set (aliases (ctx c)) (js name) (js value)\<rparr>\<rparr>"

definition appendToBuffer :: "jstr \<Rightarrow> jsc \<Rightarrow> line" where
  "appendToBuffer s c = (if jsimple c then LText (js ''return '' @ s @ js '';'') else LAppend s)"

definition line_str :: "line \<Rightarrow> jstr" where
  "line_str l = (case l of LText s \<Rightarrow> s | LAppend s \<Rightarrow> js ''buffer += '' @ s @ js '';'')"

definition pushSource :: "line \<Rightarrow> jsc \<Rightarrow> jsc" where
  "pushSource l c =
     (let c = (if pendingContent c \<noteq> []
               then c\<lparr>source := source c @ [appendToBuffer (quotedString (pendingContent c)) c], pendingContent := []\<rparr>
               else c)
      in if l = LText [] then c else c\<lparr>source := source c @ [l]\<rparr>)"

definition topStackName :: "jsc \<Rightarrow> jstr" where
  "topStackName c = js ''stack'' @ intToString (stackSlot c)"

definition incrStack :: "jsc \<Rightarrow> jstr \<times> jsc" where
  "incrStack c =
     (let c = c\<lparr>stackSlot := stackSlot c + 1\<rparr>;
          c = (if stackSlot c > int (length (stackVars c)) then c\<lparr>stackVars := stackVars c @ [topStackName c]\<rparr> else c)
      in (topStackName c, c))"

definition push :: "jstr \<Rightarrow> jsc \<Rightarrow> jsc" where
  "push expr c = c\<lparr>inlineStack := Expr expr # inlineStack c\<rparr>"

definition pushStackLiteral :: "sval \<Rightarrow> jsc \<Rightarrow> jsc" where
  "pushStackLiteral v c = c\<lparr>inlineStack := Literal v # inlineStack c\<rparr>"

text \<open>\<open>pushStack\<close> when nothing is inline, and \<open>flushInline\<close>, which calls it entry by entry.\<close>

definition push_slot :: "jstr option \<Rightarrow> jsc \<Rightarrow> jstr \<times> jsc" where
  "push_slot item c =
     (let (stack, c) = incrStack c;
          c = (case item of None \<Rightarrow> c | Some e \<Rightarrow> pushSource (LText (stack @ js '' = '' @ e @ js '';'')) c)
      in (stack, c\<lparr>compileStack := Expr stack # compileStack c\<rparr>))"

definition flush_entry :: "entry \<Rightarrow> jsc \<Rightarrow> jsc" where
  "flush_entry e c =
     (case e of
        Literal v \<Rightarrow> c\<lparr>compileStack := Literal v # compileStack c\<rparr>
      | Expr s \<Rightarrow> snd (push_slot (if s = [] then None else Some s) c))"

definition flushInline :: "jsc \<Rightarrow> jsc" where
  "flushInline c = fold flush_entry (rev (inlineStack c)) (c\<lparr>inlineStack := []\<rparr>)"

definition nextStack :: "jsc \<Rightarrow> jstr \<times> jsc" where
  "nextStack c = push_slot None (flushInline c)"

text \<open>\<open>popStack()\<close>; popping the empty stack gives \<open>undefined\<close> and still lowers the slot.\<close>

definition popStack :: "jsc \<Rightarrow> sval \<times> jsc" where
  "popStack c =
     (case inlineStack c of
        Literal v # st \<Rightarrow> (v, c\<lparr>inlineStack := st\<rparr>)
      | Expr s # st \<Rightarrow> (SVal s, c\<lparr>inlineStack := st\<rparr>)
      | [] \<Rightarrow>
          (case compileStack c of
             Literal v # st \<Rightarrow> (v, c\<lparr>compileStack := st\<rparr>)
           | Expr s # st \<Rightarrow> (SVal s, c\<lparr>compileStack := st, stackSlot := stackSlot c - 1\<rparr>)
           | [] \<Rightarrow> (SUndef, c\<lparr>stackSlot := stackSlot c - 1\<rparr>)))"

definition entry_value :: "entry \<Rightarrow> sval" where
  "entry_value e = (case e of Literal v \<Rightarrow> v | Expr s \<Rightarrow> SVal s)"

definition topStack :: "jsc \<Rightarrow> sval" where
  "topStack c =
     (case inlineStack c of
        e # _ \<Rightarrow> entry_value e
      | [] \<Rightarrow> (case compileStack c of e # _ \<Rightarrow> entry_value e | [] \<Rightarrow> SUndef))"

definition replaceStack :: "(jstr \<Rightarrow> jstr) \<Rightarrow> jsc \<Rightarrow> jsc" where
  "replaceStack callback c =
     (case inlineStack c of
        te # st \<Rightarrow>
          let (prefix, stack, c) =
                (case te of
                   Literal v \<Rightarrow> ([], v, c\<lparr>inlineStack := st\<rparr>)
                 | Expr s \<Rightarrow>
                     let c = c\<lparr>inlineStack := st\<rparr>;
                         (name, c) = (if stackSlot c \<noteq> 0 then (topStackName c, c) else incrStack c);
                         c = push name c
                     in (js ''('' @ name @ js '' = '' @ s @ js ''),'', topStack c, c));
              item = callback (sval_str stack);
              c = (if inlineStack c \<noteq> [] \<or> compileStack c \<noteq> [] then snd (popStack c) else c)
          in push (js ''('' @ prefix @ item @ js '')'') c
      | [] \<Rightarrow>
          let stack = sval_str (topStack c);
              item = callback stack;
              (stack, c) = (if take 5 stack = js ''stack'' then (stack, c) else nextStack c)
          in pushSource (LText (stack @ js '' = ('' @ item @ js '');'')) c)"

definition useRegister :: "jstr \<Rightarrow> jsc \<Rightarrow> jsc" where
  "useRegister name c = (if name \<in> set (registers c) then c else c\<lparr>registers := registers c @ [name]\<rparr>)"

definition register :: "jstr \<Rightarrow> jstr \<Rightarrow> jsc \<Rightarrow> jsc" where
  "register name val c = pushSource (LText (name @ js '' = '' @ val @ js '';'')) (useRegister name c)"

section \<open>Opcodes\<close>

text \<open>\<open>setupParams\<close>: the loop over the parameters, then the whole method.\<close>

fun pop_params :: "nat \<Rightarrow> jsc \<Rightarrow> (sval list \<times> sval list \<times> sval list) \<times> jsc" where
  "pop_params 0 c = (([], [], []), c)"
| "pop_params (Suc n) c =
     (let (param, c) = popStack c
      in if stringParams (jopts c)
         then let (type, c) = popStack c; (cont, c) = popStack c;
                  ((params, types, contexts), c) = pop_params n c
              in ((param # params, type # types, cont # contexts), c)
         else let ((params, types, contexts), c) = pop_params n c
              in ((param # params, types, contexts), c))"

definition setupParams :: "nat \<Rightarrow> jstr list \<Rightarrow> bool \<Rightarrow> jsc \<Rightarrow> jstr list \<times> jsc" where
  "setupParams paramSize params reg c =
     (let (h, c) = popStack c;
          (inverse_prog, c) = popStack c;
          (program, c) = popStack c;
          both = sval_true program \<or> sval_true inverse_prog;
          c = (if both \<and> (\<not> sval_true program \<or> \<not> sval_true inverse_prog) then set_alias ''self'' ''this'' c else c);
          fns = (if both
                 then [js ''inverse:'' @ (if sval_true inverse_prog then sval_str inverse_prog else js ''self.noop''),
                       js ''fn:'' @ (if sval_true program then sval_str program else js ''self.noop'')]
                 else []);
          ((ps, types, contexts), c) = pop_params paramSize c;
          strs = (if stringParams (jopts c)
                  then [js ''contexts:['' @ join (map sval_elem contexts) (js '','') @ js '']'',
                        js ''types:['' @ join (map sval_elem types) (js '','') @ js '']'',
                        js ''hashContexts:hashContexts'', js ''hashTypes:hashTypes'']
                  else []);
          dat = (if data (jopts c) then [js ''data:data''] else []);
          opts = js ''{'' @ join ([js ''hash:'' @ sval_str h] @ fns @ strs @ dat) (js '','') @ js ''}''
      in if reg
         then (params @ map sval_elem ps @ [js ''options''], register (js ''options'') opts c)
         else (params @ map sval_elem ps @ [opts], c))"

record helper =
  hp_name :: jstr
  callParams :: jstr
  helperMissingParams :: jstr

definition setupHelper :: "nat \<Rightarrow> jstr \<Rightarrow> bool \<Rightarrow> jsc \<Rightarrow> helper \<times> jsc" where
  "setupHelper paramSize name missingParams c =
     (let (params, c) = setupParams paramSize [] missingParams c
      in (\<lparr>hp_name = nameLookup (js ''helpers'') name,
           callParams = join (js ''depth0'' # params) (js '', ''),
           helperMissingParams =
             (if missingParams then join (js ''depth0'' # quotedString name # params) (js '', '') else js ''undefined'')\<rparr>, c))"

definition depth_name :: "nat \<Rightarrow> jstr" where
  "depth_name n = js ''depth'' @ natToString n"

text \<open>Every child has been given its index by \<open>compileChildren\<close>; a guid without a child fails.\<close>

definition programExpression :: "nat \<Rightarrow> jsc \<Rightarrow> (jstr \<times> jsc) result" where
  "programExpression guid c =
     (if guid < length (jchildren c) \<and> guid < length (child_index c)
      then let child = jchildren c ! guid;
               index = child_index c ! guid;
               ds = e_depths child;
               params = [natToString index, js ''program'' @ natToString index, js ''data''] @
                        map (\<lambda>d. if d = 1 then js ''depth0'' else depth_name (d - 1)) ds
           in Inr ((if ds = [] then js ''self.program('' else js ''self.programWithDepth('') @
               join params (js '', '') @ js '')'', set_alias ''self'' ''this'' c)
      else Inl TypeErr)"

definition blockValue :: "jsc \<Rightarrow> jsc" where
  "blockValue c =
     (let c = set_alias ''blockHelperMissing'' ''helpers.blockHelperMissing'' c;
          (params, c) = setupParams 0 [js ''depth0''] False c
      in replaceStack (\<lambda>current.
           js ''blockHelperMissing.call('' @ join (js ''depth0'' # current # tl params) (js '', '') @ js '')'') c)"

definition ambiguousBlockValue :: "jsc \<Rightarrow> jsc" where
  "ambiguousBlockValue c =
     (let c = set_alias ''blockHelperMissing'' ''helpers.blockHelperMissing'' c;
          (params, c) = setupParams 0 [js ''depth0''] False c;
          current = sval_str (topStack c);
          params = butlast (js ''depth0'' # current # tl params) @ [js ''options'']
      in pushSource (LText (js ''if (!'' @ lastHelper c @ js '') { '' @ current @
           js '' = blockHelperMissing.call('' @ join params (js '', '') @ js ''); }'')) c)"

definition appendContent :: "jstr \<Rightarrow> jsc \<Rightarrow> jsc" where
  "appendContent content c =
     (let content = pendingContent c @ content;
          content = (if stripNext c then trim_left content else content)
      in c\<lparr>pendingContent := content\<rparr>)"

definition strip_opcode :: "jsc \<Rightarrow> jsc" where
  "strip_opcode c = c\<lparr>pendingContent := trim_right (pendingContent c), stripNext := True\<rparr>"

definition append_op :: "jsc \<Rightarrow> jsc" where
  "append_op c =
     (let (local, c) = popStack (flushInline c);
          local = sval_str local;
          c = pushSource (LText (js ''if('' @ local @ js '' || '' @ local @ js '' === 0) { '' @
                line_str (appendToBuffer local c) @ js '' }'')) c
      in if jsimple c
         then pushSource (LText (js ''else { '' @ line_str (appendToBuffer [39, 39] c) @ js '' }'')) c
         else c)"

definition appendEscaped :: "jsc \<Rightarrow> jsc" where
  "appendEscaped c =
     (let c = set_alias ''escapeExpression'' ''this.escapeExpression'' c;
          (v, c) = popStack c
      in pushSource (appendToBuffer (js ''escapeExpression('' @ sval_str v @ js '')'') c) c)"

definition resolvePossibleLambda :: "jsc \<Rightarrow> jsc" where
  "resolvePossibleLambda c =
     replaceStack (\<lambda>current. js ''typeof '' @ current @ js '' === functionType ? '' @ current @
         js ''.apply(depth0) : '' @ current) (set_alias ''functionType'' ''\"function\"'' c)"

definition lookup :: "jstr \<Rightarrow> jsc \<Rightarrow> jsc" where
  "lookup name c =
     replaceStack (\<lambda>current. current @ js '' == null || '' @ current @ js '' === false ? '' @ current @
         js '' : '' @ nameLookup current name) c"

definition arg_value :: "arg \<Rightarrow> sval" where
  "arg_value a =
     (case a of AStr s \<Rightarrow> SVal (quotedString s) | ANum n \<Rightarrow> SVal (intToString n)
      | ABool b \<Rightarrow> SVal (if b then js ''true'' else js ''false'') | AUndef \<Rightarrow> SUndef)"

definition pushStringParam :: "arg \<Rightarrow> jstr \<Rightarrow> jsc \<Rightarrow> jsc" where
  "pushStringParam str type c =
     pushStackLiteral (arg_value str) (pushStackLiteral (SVal (quotedString type))
       (pushStackLiteral (SVal (depth_name (lastContext c))) c))"

definition emptyHash :: "jsc \<Rightarrow> jsc" where
  "emptyHash c =
     (let c = pushStackLiteral (SVal (js ''{}'')) c
      in if stringParams (jopts c)
         then register (js ''hashContexts'') (js ''{}'') (register (js ''hashTypes'') (js ''{}'') c)
         else c)"

definition pushHash :: "jsc \<Rightarrow> jsc" where
  "pushHash c = c\<lparr>jhash := Some \<lparr>h_values = [], h_types = [], h_contexts = []\<rparr>\<rparr>"

definition popHash :: "jsc \<Rightarrow> jsc result" where
  "popHash c =
     (case jhash c of
        None \<Rightarrow> Inl TypeErr
      | Some h \<Rightarrow>
          let c = c\<lparr>jhash := None\<rparr>;
              c = (if stringParams (jopts c)
                   then register (js ''hashTypes'') (js ''{'' @ join (h_types h) (js '','') @ js ''}'')
                          (register (js ''hashContexts'') (js ''{'' @ join (h_contexts h) (js '','') @ js ''}'') c)
                   else c)
          in Inr (push (js ''{'' @ [10] @ js ''    '' @ join (h_values h) (js '','' @ [10] @ js ''    '') @
                        [10] @ js ''  }'') c))"

definition assignToHash :: "jstr \<Rightarrow> jsc \<Rightarrow> jsc result" where
  "assignToHash key c =
     (let (v, c) = popStack c;
          (type, c) = (if stringParams (jopts c) then popStack c else (SUndef, c));
          (cont, c) = (if stringParams (jopts c) then popStack c else (SUndef, c));
          k = [39] @ key @ [39] @ js '': ''
      in case jhash c of
           None \<Rightarrow> Inl TypeErr
         | Some h \<Rightarrow>
             Inr (c\<lparr>jhash := Some
               \<lparr>h_values = h_values h @ [k @ js ''('' @ sval_str v @ js '')''],
                h_types = h_types h @ (if sval_true type then [k @ sval_str type] else []),
                h_contexts = h_contexts h @ (if sval_true cont then [k @ sval_str cont] else [])\<rparr>\<rparr>))"

definition pushProgram :: "nat option \<Rightarrow> jsc \<Rightarrow> jsc result" where
  "pushProgram g c =
     (case g of
        None \<Rightarrow> Inr (pushStackLiteral SNull c)
      | Some guid \<Rightarrow> bindR (programExpression guid c) (\<lambda>(e, c). Inr (pushStackLiteral (SVal e) c)))"

text \<open>\<open>lastHelper\<close> is an object here, which prints as \<open>[object Object]\<close>.\<close>

definition invokeHelper :: "nat \<Rightarrow> jstr \<Rightarrow> jsc \<Rightarrow> jsc" where
  "invokeHelper paramSize name c =
     (let c = set_alias ''helperMissing'' ''helpers.helperMissing'' c;
          (helper, c) = setupHelper paramSize name True c;
          c = c\<lparr>lastHelper := js ''[object Object]''\<rparr>;
          nonHelper = nameLookup (depth_name (lastContext c)) name;
          c = push (hp_name helper @ js '' || '' @ nonHelper) c
      in replaceStack (\<lambda>nm. nm @ js '' ? '' @ nm @ js ''.call('' @ callParams helper @ js '') : helperMissing.call('' @
           helperMissingParams helper @ js '')'') c)"

definition invokeKnownHelper :: "nat \<Rightarrow> jstr \<Rightarrow> jsc \<Rightarrow> jsc" where
  "invokeKnownHelper paramSize name c =
     (let (helper, c) = setupHelper paramSize name False c
      in push (hp_name helper @ js ''.call('' @ callParams helper @ js '')'') c)"

definition invokeAmbiguous :: "jstr \<Rightarrow> bool \<Rightarrow> jsc \<Rightarrow> jsc" where
  "invokeAmbiguous name helperCall c =
     (let c = set_alias ''functionType'' ''\"function\"'' c;
          c = pushStackLiteral (SVal (js ''{}'')) c;
          (helper, c) = setupHelper 0 name helperCall c;
          helperName = nameLookup (js ''helpers'') name;
          c = c\<lparr>lastHelper := helperName\<rparr>;
          nonHelper = nameLookup (depth_name (lastContext c)) name;
          (st, c) = nextStack c;
          c = pushSource (LText (js ''if ('' @ st @ js '' = '' @ helperName @ js '') { '' @ st @ js '' = '' @ st @
                js ''.call('' @ callParams helper @ js ''); }'')) c
      in pushSource (LText (js ''else { '' @ st @ js '' = '' @ nonHelper @ js ''; '' @ st @ js '' = typeof '' @ st @
           js '' === functionType ? '' @ st @ js ''.call('' @ callParams helper @ js '') : '' @ st @ js ''; }'')) c)"

definition invokePartial :: "jstr \<Rightarrow> jsc \<Rightarrow> jsc" where
  "invokePartial name c =
     (let (v, c) = popStack c;
          params = [nameLookup (js ''partials'') name, [39] @ name @ [39], sval_elem v, js ''helpers'', js ''partials''] @
                   (if data (jopts c) then [js ''data''] else [])
      in push (js ''self.invokePartial('' @ join params (js '', '') @ js '')'') (set_alias ''self'' ''this'' c))"

text \<open>\<open>this[opcode.opcode].apply(this, opcode.args)\<close> and the reset of \<open>stripNext\<close>.\<close>

definition exec_op :: "opcode \<Rightarrow> jsc \<Rightarrow> jsc result" where
  "exec_op oc c =
     (case oc of
        OStrip \<Rightarrow> Inr (strip_opcode c)
      | OPushProgram g \<Rightarrow> pushProgram g c
      | OEmptyHash \<Rightarrow> Inr (emptyHash c)
      | OBlockValue \<Rightarrow> Inr (blockValue c)
      | OAmbiguousBlockValue \<Rightarrow> Inr (ambiguousBlockValue c)
      | OAppend \<Rightarrow> Inr (append_op c)
      | OAppendEscaped \<Rightarrow> Inr (appendEscaped c)
      | OAppendContent s \<Rightarrow> Inr (appendContent s c)
      | OPushHash \<Rightarrow> Inr (pushHash c)
      | OAssignToHash k \<Rightarrow> assignToHash k c
      | OPopHash \<Rightarrow> popHash c
      | OGetContext n \<Rightarrow> Inr (c\<lparr>lastContext := n\<rparr>)
      | OPushStringParam v t \<Rightarrow> Inr (pushStringParam v t c)
      | OPush e \<Rightarrow> Inr (push e c)
      | OInvokePartial n \<Rightarrow> Inr (invokePartial n c)
      | OInvokeAmbiguous n b \<Rightarrow> Inr (invokeAmbiguous n b c)
      | OInvokeKnownHelper k n \<Rightarrow> Inr (invokeKnownHelper k n c)
      | OInvokeHelper k n \<Rightarrow> Inr (invokeHelper k n c)
      | OPushContext \<Rightarrow> Inr (pushStackLiteral (SVal (depth_name (lastContext c))) c)
      | OResolvePossibleLambda \<Rightarrow> Inr (resolvePossibleLambda c)
      | OLookupOnContext n \<Rightarrow> Inr (push (nameLookup (depth_name (lastContext c)) n) c)
      | OLookup n \<Rightarrow> Inr (lookup n c)
      | OLookupData \<Rightarrow> Inr (push (js ''data'') c)
      | OPushString s \<Rightarrow> Inr (pushStackLiteral (SVal (quotedString s)) c)
      | OPushLiteral s \<Rightarrow> Inr (pushStackLiteral (SVal s) c))"

definition exec :: "opcode \<Rightarrow> jsc \<Rightarrow> jsc result" where
  "exec oc c = bindR (exec_op oc c) (\<lambda>c. Inr (if oc = OStrip then c else c\<lparr>stripNext := False\<rparr>))"

fun exec_all :: "opcode list \<Rightarrow> jsc \<Rightarrow> jsc result" where
  "exec_all [] c = Inr c"
| "exec_all (oc # ops) c = bindR (exec oc c) (exec_all ops)"

section \<open>Functions and programs\<close>

definition compilerInfo :: jstr where
  "compilerInfo = js ''this.compilerInfo = [4,'' @ [39] @ js ''>= 1.0.0'' @ [39] @ js ''];'' @ [10]"

definition preamble :: "environment \<Rightarrow> options \<Rightarrow> bool \<Rightarrow> line list" where
  "preamble env opts isChild =
     [LText (if isChild then []
             else js ''helpers = this.merge(helpers, Handlebars.helpers);'' @
                  (if e_usePartial env then js '' partials = this.merge(partials, Handlebars.partials);'' else []) @
                  (if data opts then js '' data = data || {};'' else [])),
      LText (if e_isSimple env then [] else js '', buffer = '' @ quotedString [])]"

definition start_jsc :: "environment \<Rightarrow> options \<Rightarrow> bool \<Rightarrow> nat list \<Rightarrow> jcontext \<Rightarrow> jsc" where
  "start_jsc env opts isChild indices cx =
     \<lparr>source = preamble env opts isChild, stackSlot = 0, stackVars = [], registers = [], compileStack = [],
      inlineStack = [], lastContext = 0, lastHelper = js ''undefined'', jhash = None, pendingContent = [],
      stripNext = False, child_index = indices, jsimple = e_isSimple env, jchildren = e_children env,
      jopts = opts, ctx = cx\<rparr>"

fun mergeSource :: "line list \<Rightarrow> jstr \<Rightarrow> jstr" where
  "mergeSource [] buffer = []"
| "mergeSource (LAppend s # ls) buffer =
     mergeSource ls (if buffer \<noteq> [] then buffer @ [10] @ js ''    + '' @ s else s)"
| "mergeSource (LText s # ls) buffer =
     (if buffer \<noteq> [] then js ''buffer += '' @ buffer @ js '';'' @ [10] @ js ''  '' else []) @
     s @ [10] @ js ''  '' @ mergeSource ls []"

text \<open>\<open>this.source[1] = ...\<close>\<close>

definition set_line1 :: "(jstr \<Rightarrow> jstr) \<Rightarrow> jsc \<Rightarrow> jsc" where
  "set_line1 f c = c\<lparr>source := (source c)[1 := LText (f (line_str (source c ! 1)))]\<rparr>"

definition option_elem :: "jstr option \<Rightarrow> jstr" where
  "option_elem v = (case v of None \<Rightarrow> [] | Some s \<Rightarrow> s)"

definition createFunctionContext :: "environment \<Rightarrow> bool \<Rightarrow> jsc \<Rightarrow> (jstr list \<times> jstr) \<times> jsc" where
  "createFunctionContext env isChild c =
     (let locals = stackVars c @ registers c;
          c = (if locals \<noteq> [] then set_line1 (\<lambda>s. s @ js '', '' @ join locals (js '', '')) c else c);
          c = (if isChild then c
               else set_line1 (\<lambda>s. s @ concat (map (\<lambda>(k, v). js '', '' @ k @ js ''='' @ v) (aliases (ctx c)))) c);
          c = set_line1 (\<lambda>s. if s = [] then [] else js ''var '' @ drop 2 s @ js '';'') c;
          c = (if isChild then c
               else set_line1 (\<lambda>s. s @ [10] @ join (map option_elem (programs (ctx c))) [10] @ [10]) c);
          c = (if e_isSimple env then c else pushSource (LText (js ''return buffer;'')) c);
          params = (if isChild then [js ''depth0'', js ''data'']
                    else [js ''Handlebars'', js ''depth0'', js ''helpers'', js ''partials'', js ''data'']) @
                   map depth_name (e_depths env);
          body = mergeSource (source c) []
      in ((params, if isChild then body else compilerInfo @ body), c))"

definition function_source :: "jstr \<Rightarrow> jstr list \<times> jstr \<Rightarrow> jstr" where
  "function_source name f =
     (case f of (params, body) \<Rightarrow>
        js ''function '' @ name @ js ''('' @ join params (js '','') @ js '') {'' @ [10] @ js ''  '' @ body @ js ''}'')"

definition program_name :: "nat \<Rightarrow> jstr" where
  "program_name i = js ''program'' @ natToString i"

definition matchExistingProgram :: "environment \<Rightarrow> jcontext \<Rightarrow> nat option" where
  "matchExistingProgram child cx =
     find (\<lambda>i. case environments cx ! i of Some e \<Rightarrow> equals e child | None \<Rightarrow> False)
       [0..<length (environments cx)]"

definition add_program :: "nat \<Rightarrow> jstr \<Rightarrow> environment \<Rightarrow> jcontext \<Rightarrow> jcontext" where
  "add_program index code child cx =
     cx\<lparr>programs := arr_set (programs cx) index code, environments := arr_set (environments cx) index child\<rparr>"

fun js_compile ::
    "environment \<Rightarrow> options \<Rightarrow> bool \<Rightarrow> jcontext \<Rightarrow> ((jstr list \<times> jstr) \<times> jcontext) result"
  and compileChildren :: "environment list \<Rightarrow> options \<Rightarrow> jcontext \<Rightarrow> (nat list \<times> jcontext) result" where
  "js_compile (Env ops ch ds s u) opts isChild cx =
     bindR (compileChildren ch opts cx) (\<lambda>(indices, cx).
     bindR (exec_all ops (start_jsc (Env ops ch ds s u) opts isChild indices cx)) (\<lambda>c.
       let (f, c) = createFunctionContext (Env ops ch ds s u) isChild (pushSource (LText []) c)
       in Inr (f, ctx c)))"
| "compileChildren [] opts cx = Inr ([], cx)"
| "compileChildren (child # rest) opts cx =
     bindR (case matchExistingProgram child cx of
              Some i \<Rightarrow> Inr (i, cx)
            | None \<Rightarrow>
                let cx1 = cx\<lparr>programs := programs cx @ [Some []]\<rparr>;
                    index = length (programs cx1)
                in bindR (js_compile child opts True cx1) (\<lambda>(f, cx2).
                     Inr (index, add_program index (function_source (program_name index) f) child cx2))) (\<lambda>(i, cx).
     bindR (compileChildren rest opts cx) (\<lambda>(is, cx). Inr (i # is, cx)))"

definition new_context :: jcontext where
  "new_context = \<lparr>programs = [], environments = [], aliases = []\<rparr>"

text \<open>\<open>new JavaScriptCompiler().compile(environment, options)\<close>, as text and as a function.\<close>

definition compile_function :: "environment \<Rightarrow> options \<Rightarrow> (jstr list \<times> jstr) result" where
  "compile_function env opts = bindR (js_compile env opts False new_context) (\<lambda>(f, cx). Inr f)"

definition compile_text :: "environment \<Rightarrow> options \<Rightarrow> jstr result" where
  "compile_text env opts = bindR (compile_function env opts) (\<lambda>f. Inr (function_source [] f))"

section \<open>The compile-time stacks follow the abstract stack\<close>

definition is_literal :: "entry \<Rightarrow> bool" where
  "is_literal e = (case e of Literal v \<Rightarrow> True | Expr s \<Rightarrow> False)"

definition stack_name :: "nat \<Rightarrow> jstr" where
  "stack_name i = js ''stack'' @ intToString (int i)"

text \<open>
  The stack variables are declared as \<open>stack1\<close>, \<open>stack2\<close>, \dots, the current slot is one of them (or
  none), and the entries that were moved out of line are at most one, which is a declared stack variable.
\<close>

definition vars_ok :: "jsc \<Rightarrow> bool" where
  "vars_ok c \<longleftrightarrow>
     stackVars c = map (\<lambda>i. stack_name (Suc i)) [0..<length (stackVars c)] \<and>
     stackSlot c \<le> int (length (stackVars c)) \<and> int (length (compileStack c)) \<le> stackSlot c \<and>
     (compileStack c = [] \<or> (\<exists>s \<in> set (stackVars c). compileStack c = [Expr s]))"

definition jinv :: "options \<Rightarrow> nat \<Rightarrow> stack_state \<Rightarrow> jsc \<Rightarrow> bool" where
  "jinv opts k s c \<longleftrightarrow>
     (case s of (ts, h) \<Rightarrow>
        map is_literal (inlineStack c @ compileStack c) = ts \<and> (jhash c \<noteq> None \<longleftrightarrow> h)) \<and>
     vars_ok c \<and> jopts c = opts \<and> length (jchildren c) = k \<and> length (child_index c) = k"

text \<open>Steps that touch neither the stacks nor the variables.\<close>

definition same_core :: "jsc \<Rightarrow> jsc \<Rightarrow> bool" where
  "same_core c c' \<longleftrightarrow>
     inlineStack c' = inlineStack c \<and> compileStack c' = compileStack c \<and> jhash c' = jhash c \<and>
     stackVars c' = stackVars c \<and> stackSlot c' = stackSlot c \<and> jopts c' = jopts c \<and>
     jchildren c' = jchildren c \<and> child_index c' = child_index c"

lemma same_core_jinv: "same_core c c' \<Longrightarrow> jinv opts k s c' = jinv opts k s c"
  by (simp add: same_core_def jinv_def vars_ok_def)

lemma same_core_pushSource: "same_core c (pushSource l c)"
  by (simp add: same_core_def pushSource_def Let_def)

lemma same_core_alias: "same_core c (set_alias a b c)"
  by (simp add: same_core_def set_alias_def)

lemma same_core_register: "same_core c (register a b c)"
  by (simp add: same_core_def register_def useRegister_def pushSource_def Let_def)

lemma jinv_frame [simp]:
  "jinv opts k s (pushSource l c) = jinv opts k s c"
  "jinv opts k s (set_alias a b c) = jinv opts k s c"
  "jinv opts k s (register r v c) = jinv opts k s c"
  "jinv opts k s (c\<lparr>lastHelper := x\<rparr>) = jinv opts k s c"
  "jinv opts k s (c\<lparr>lastContext := n\<rparr>) = jinv opts k s c"
  "jinv opts k s (c\<lparr>stripNext := bb\<rparr>) = jinv opts k s c"
  "jinv opts k s (c\<lparr>pendingContent := p\<rparr>) = jinv opts k s c"
  by (simp_all add: same_core_jinv same_core_pushSource same_core_alias same_core_register)
    (simp_all add: jinv_def vars_ok_def)

lemma jopts_jinv: "jinv opts k s c \<Longrightarrow> jopts c = opts"
  by (simp add: jinv_def)

lemma push_jinv: "jinv opts k (ts, h) c \<Longrightarrow> jinv opts k (False # ts, h) (push e c)"
  by (simp add: jinv_def vars_ok_def push_def is_literal_def)

lemma pushStackLiteral_jinv: "jinv opts k (ts, h) c \<Longrightarrow> jinv opts k (True # ts, h) (pushStackLiteral v c)"
  by (simp add: jinv_def vars_ok_def pushStackLiteral_def is_literal_def)

lemma popStack_jinv: "jinv opts k (t # ts, h) c \<Longrightarrow> jinv opts k (ts, h) (snd (popStack c))"
  by (auto simp: jinv_def vars_ok_def popStack_def split: list.splits entry.splits)

lemma pop_params_jinv:
  "jinv opts k (xs @ ts, h) c \<Longrightarrow> length xs = n * param_size (stringParams opts) \<Longrightarrow>
     jinv opts k (ts, h) (snd (pop_params n c))"
proof (induction n arbitrary: xs c)
  case (Suc n)
  show ?case
  proof (cases "stringParams opts")
    case True
    with Suc.prems obtain a b d ys where xs: "xs = a # b # d # ys" and ys: "length ys = n * param_size (stringParams opts)"
      by (auto simp: param_size_def length_Suc_conv numeral_eq_Suc)
    let ?c1 = "snd (popStack c)" and ?c2 = "snd (popStack (snd (popStack c)))"
    have 1: "jinv opts k (b # d # ys @ ts, h) ?c1" using Suc.prems(1) xs by (auto intro: popStack_jinv)
    then have 3: "jinv opts k (ys @ ts, h) (snd (popStack ?c2))" by (auto intro: popStack_jinv)
    from Suc.IH [OF this ys] jopts_jinv [OF 1] True show ?thesis by (simp add: split_beta Let_def)
  next
    case False
    with Suc.prems obtain a ys where xs: "xs = a # ys" and ys: "length ys = n * param_size (stringParams opts)"
      by (auto simp: param_size_def length_Suc_conv)
    have 1: "jinv opts k (ys @ ts, h) (snd (popStack c))" using Suc.prems(1) xs by (auto intro: popStack_jinv)
    from Suc.IH [OF this ys] jopts_jinv [OF 1] False show ?thesis by (simp add: split_beta Let_def)
  qed
qed simp

lemma setupParams_jinv:
  assumes "jinv opts k (a # b # d # xs @ ts, h) c" and "length xs = n * param_size (stringParams opts)"
  shows "jinv opts k (ts, h) (snd (setupParams n ps r c))"
proof -
  let ?c = "snd (popStack (snd (popStack (snd (popStack c)))))"
  have "jinv opts k (xs @ ts, h) ?c" using assms(1) by (auto intro: popStack_jinv)
  then have "jinv opts k (ts, h) (snd (pop_params n ?c))"
    "jinv opts k (ts, h) (snd (pop_params n (set_alias ''self'' ''this'' ?c)))"
    using assms(2) by (auto intro: pop_params_jinv)
  then show ?thesis by (auto simp: setupParams_def split_beta Let_def)
qed

lemma setupHelper_jinv:
  assumes "jinv opts k (a # b # d # xs @ ts, h) c" and "length xs = n * param_size (stringParams opts)"
  shows "jinv opts k (ts, h) (snd (setupHelper n name r c))"
  using setupParams_jinv [OF assms] by (simp add: setupHelper_def split_beta Let_def)

lemma stack_name_slot: "0 \<le> stackSlot c \<Longrightarrow> topStackName c = stack_name (nat (stackSlot c))"
  by (simp add: topStackName_def stack_name_def)

lemma stack_name_prefix: "take 5 (stack_name i) = js ''stack''"
  by (simp add: stack_name_def)

lemma stack_vars_named: "vars_ok c \<Longrightarrow> s \<in> set (stackVars c) \<Longrightarrow> take 5 s = js ''stack''"
proof -
  assume "vars_ok c" "s \<in> set (stackVars c)"
  then have "s \<in> set (map (\<lambda>i. stack_name (Suc i)) [0..<length (stackVars c)])" unfolding vars_ok_def by argo
  then show ?thesis by (auto simp: stack_name_prefix simp del: js_Cons)
qed

text \<open>The variable of the current slot is declared.\<close>

lemma top_declared:
  assumes "vars_ok c" "stackSlot c \<noteq> 0"
  shows "topStackName c \<in> set (stackVars c)"
proof -
  have s: "0 < stackSlot c" "stackSlot c \<le> int (length (stackVars c))" using assms by (auto simp: vars_ok_def)
  then have "nat (stackSlot c) = Suc (nat (stackSlot c) - 1)" "nat (stackSlot c) - 1 < length (stackVars c)" by auto
  then have "stack_name (nat (stackSlot c)) \<in> set (map (\<lambda>i. stack_name (Suc i)) [0..<length (stackVars c)])"
    by (auto intro!: image_eqI [where x = "nat (stackSlot c) - 1"])
  then have "stack_name (nat (stackSlot c)) \<in> set (stackVars c)" using assms(1) unfolding vars_ok_def by argo
  then show ?thesis using s(1) by (simp add: stack_name_slot)
qed

text \<open>Taking the next stack variable.\<close>

lemma incrStack_ok:
  assumes "vars_ok c"
  shows "vars_ok (snd (incrStack c))" "fst (incrStack c) \<in> set (stackVars (snd (incrStack c)))"
    "int (length (compileStack c)) < stackSlot (snd (incrStack c))"
    "stackSlot (snd (incrStack c)) \<le> int (length (stackVars (snd (incrStack c))))"
    "same_core (c\<lparr>stackSlot := stackSlot (snd (incrStack c)), stackVars := stackVars (snd (incrStack c))\<rparr>) (snd (incrStack c))"
proof -
  have s: "0 \<le> stackSlot c" using assms by (simp add: vars_ok_def)
  have name: "fst (incrStack c) = stack_name (nat (stackSlot c + 1))"
    using s by (simp add: incrStack_def Let_def topStackName_def stack_name_def)
  have eq: "stackSlot c = int (length (stackVars c))" if "\<not> stackSlot c + 1 \<le> int (length (stackVars c))"
    using assms that by (simp add: vars_ok_def)
  show v: "vars_ok (snd (incrStack c))"
  proof (cases "stackSlot c + 1 \<le> int (length (stackVars c))")
    case False
    with eq have "topStackName (c\<lparr>stackSlot := stackSlot c + 1\<rparr>) = stack_name (Suc (length (stackVars c)))"
      by (simp add: topStackName_def stack_name_def add.commute del: js_Cons)
    with assms eq [OF False] False show ?thesis
      by (auto simp: vars_ok_def incrStack_def Let_def simp del: js_Cons)
  qed (use assms in \<open>auto simp: vars_ok_def incrStack_def Let_def\<close>)
  have "fst (incrStack c) = topStackName (snd (incrStack c))" "stackSlot (snd (incrStack c)) \<noteq> 0"
    using s by (simp_all add: incrStack_def Let_def)
  then show "fst (incrStack c) \<in> set (stackVars (snd (incrStack c)))" using top_declared [OF v] by simp
  show "int (length (compileStack c)) < stackSlot (snd (incrStack c))"
    "stackSlot (snd (incrStack c)) \<le> int (length (stackVars (snd (incrStack c))))"
    "same_core (c\<lparr>stackSlot := stackSlot (snd (incrStack c)), stackVars := stackVars (snd (incrStack c))\<rparr>) (snd (incrStack c))"
    using assms by (auto simp: vars_ok_def incrStack_def Let_def same_core_def)
qed

lemma incrStack_jinv: "jinv opts k s c \<Longrightarrow> jinv opts k s (snd (incrStack c))"
  using incrStack_ok(1,5) [of c] by (auto simp: jinv_def same_core_def split: prod.splits)

lemma push_slot_jinv:
  assumes "jinv opts k (ts, h) c" "inlineStack c = []" "compileStack c = []"
  shows "jinv opts k (False # ts, h) (snd (push_slot item c)) \<and> inlineStack (snd (push_slot item c)) = []"
proof -
  have v: "vars_ok c" using assms(1) by (simp add: jinv_def)
  note i = incrStack_ok [OF v] incrStack_jinv [OF assms(1)]
  have "inlineStack (snd (incrStack c)) = []" "compileStack (snd (incrStack c)) = []"
    using i(5) assms(2,3) by (simp_all add: same_core_def)
  with i assms(3) show ?thesis
    by (auto simp: push_slot_def split_beta Let_def jinv_def vars_ok_def pushSource_def is_literal_def split: option.splits)
qed

lemma replaceStack_expr:
  assumes "jinv opts k (False # ts, h) c"
  shows "jinv opts k (False # ts, h) (replaceStack f c)"
proof (cases "inlineStack c")
  case Nil
  with assms obtain s where s: "compileStack c = [Expr s]" "take 5 s = js ''stack''"
    using stack_vars_named [of c] by (auto simp: jinv_def vars_ok_def)
  then have "replaceStack f c = pushSource (LText (s @ js '' = ('' @ f s @ js '');'')) c"
    by (simp add: replaceStack_def Nil topStack_def entry_value_def sval_str_def Let_def del: js_Cons)
  with assms show ?thesis by simp
next
  case (Cons e st)
  with assms obtain s where e: "e = Expr s" by (cases e) (auto simp: jinv_def is_literal_def)
  let ?c = "c\<lparr>inlineStack := st\<rparr>"
  let ?n = "if stackSlot c \<noteq> 0 then (topStackName ?c, ?c) else incrStack ?c"
  have c: "jinv opts k (ts, h) ?c" using assms Cons by (simp add: jinv_def vars_ok_def)
  then have n: "jinv opts k (ts, h) (snd ?n)" using incrStack_jinv by auto
  have "replaceStack f c = push (js ''('' @ (js ''('' @ fst ?n @ js '' = '' @ s @ js ''),'') @
      f (sval_str (topStack (push (fst ?n) (snd ?n)))) @ js '')'') (snd (popStack (push (fst ?n) (snd ?n))))"
    by (simp add: replaceStack_def Cons e split_beta Let_def push_def)
  moreover have "jinv opts k (ts, h) (snd (popStack (push (fst ?n) (snd ?n))))"
    using n by (rule popStack_jinv [OF push_jinv])
  ultimately show ?thesis by (simp add: push_jinv)
qed

lemma replaceStack_literal:
  assumes "jinv opts k ([True], h) c"
  shows "jinv opts k ([False], h) (replaceStack f c)"
proof -
  from assms obtain v where "inlineStack c = [Literal v]" and cs: "compileStack c = []"
    by (auto simp: jinv_def vars_ok_def is_literal_def Cons_eq_append_conv append_eq_Cons_conv split: entry.splits)
  then have "replaceStack f c = push (js ''('' @ f (sval_str v) @ js '')'') (c\<lparr>inlineStack := []\<rparr>)"
    by (simp add: replaceStack_def Let_def)
  moreover have "jinv opts k ([], h) (c\<lparr>inlineStack := []\<rparr>)" using assms cs by (simp add: jinv_def vars_ok_def)
  ultimately show ?thesis by (simp add: push_jinv)
qed

lemma replaceStack_jinv:
  "jinv opts k (t # ts, h) c \<Longrightarrow> ts = [] \<or> \<not> t \<Longrightarrow> jinv opts k (False # ts, h) (replaceStack f c)"
  using replaceStack_expr replaceStack_literal by (cases t) auto

lemma flushInline_empty: "inlineStack c = [] \<Longrightarrow> flushInline c = c"
  by (cases c) (simp add: flushInline_def)

lemma append_op_jinv:
  assumes "jinv opts k ([t], h) c"
  shows "jinv opts k ([], h) (append_op c)"
proof -
  have "jinv opts k ([], h) (snd (popStack (flushInline c)))"
  proof (cases "inlineStack c")
    case Nil
    then have "flushInline c = c" by (rule flushInline_empty)
    then show ?thesis using assms popStack_jinv by simp
  next
    case (Cons e st)
    with assms have st: "st = []" "compileStack c = []" by (auto simp: jinv_def)
    let ?c = "c\<lparr>inlineStack := []\<rparr>"
    have c: "jinv opts k ([], h) ?c" using assms st by (simp add: jinv_def vars_ok_def)
    have f: "flushInline c = flush_entry e ?c" by (simp add: flushInline_def Cons st)
    show ?thesis
    proof (cases e)
      case (Literal v)
      with f c st show ?thesis by (simp add: flush_entry_def popStack_def jinv_def vars_ok_def)
    next
      case (Expr s)
      have "jinv opts k ([], h) (snd (popStack (snd (push_slot item ?c))))" for item
        using push_slot_jinv [OF c] st by (intro popStack_jinv [where t = False]) simp
      with Expr f show ?thesis by (simp add: flush_entry_def)
    qed
  qed
  then show ?thesis by (simp add: append_op_def split_beta Let_def)
qed

lemma appendEscaped_jinv: "jinv opts k (t # ts, h) c \<Longrightarrow> jinv opts k (ts, h) (appendEscaped c)"
  by (simp add: appendEscaped_def split_beta Let_def popStack_jinv)

lemma blockValue_jinv: "jinv opts k ([a, b, d, False], h) c \<Longrightarrow> jinv opts k ([False], h) (blockValue c)"
  using setupParams_jinv [of opts k a b d "[]" "[False]" h "set_alias ''blockHelperMissing'' ''helpers.blockHelperMissing'' c" 0]
  unfolding blockValue_def split_beta Let_def by (intro replaceStack_expr) simp

lemma ambiguousBlockValue_jinv:
  "jinv opts k ([a, b, d, False], h) c \<Longrightarrow> jinv opts k ([False], h) (ambiguousBlockValue c)"
  using setupParams_jinv [of opts k a b d "[]" "[False]" h "set_alias ''blockHelperMissing'' ''helpers.blockHelperMissing'' c" 0]
  by (simp add: ambiguousBlockValue_def split_beta Let_def)

lemma invokeHelper_jinv:
  assumes "jinv opts k (a # b # d # xs @ ts, h) c" "length xs = n * param_size (stringParams opts)"
  shows "jinv opts k (False # ts, h) (invokeHelper n name c)"
    and "jinv opts k (False # ts, h) (invokeKnownHelper n name c)"
  using assms
  by (auto simp: invokeHelper_def invokeKnownHelper_def split_beta Let_def
      intro!: replaceStack_expr push_jinv setupHelper_jinv)

lemma invokeAmbiguous_jinv:
  assumes "jinv opts k ([a, b], h) c"
  shows "jinv opts k ([False], h) (invokeAmbiguous name call c)"
proof -
  let ?c = "pushStackLiteral (SVal (js ''{}'')) (set_alias ''functionType'' ''\"function\"'' c)"
  have "jinv opts k ([True, a, b], h) ?c" using assms by (simp add: pushStackLiteral_jinv)
  then have e: "jinv opts k ([], h) (snd (setupHelper 0 name call ?c))"
    using setupHelper_jinv [where xs = "[]" and ts = "[]"] by simp
  let ?d = "(snd (setupHelper 0 name call ?c))\<lparr>lastHelper := nameLookup (js ''helpers'') name\<rparr>"
  have d: "jinv opts k ([], h) ?d" using e by simp
  then have st: "inlineStack ?d = []" "compileStack ?d = []" by (auto simp: jinv_def)
  then have "nextStack ?d = push_slot None ?d" by (simp only: nextStack_def flushInline_empty)
  with push_slot_jinv [OF d st] show ?thesis
    by (simp add: invokeAmbiguous_def split_beta Let_def del: js_Cons)
qed

lemma pushProgram_jinv:
  assumes "jinv opts k (ts, h) c" and "case g of None \<Rightarrow> True | Some i \<Rightarrow> i < k"
  shows "\<exists>c'. pushProgram g c = Inr c' \<and> jinv opts k (True # ts, h) c'"
  using assms
  by (auto simp: pushProgram_def programExpression_def Let_def pushStackLiteral_jinv split: option.splits)
    (auto simp: jinv_def)

lemma emptyHash_jinv: "jinv opts k (ts, h) c \<Longrightarrow> jinv opts k (True # ts, h) (emptyHash c)"
  by (simp add: emptyHash_def Let_def pushStackLiteral_jinv)

lemma pushHash_jinv: "jinv opts k (ts, h) c \<Longrightarrow> jinv opts k (ts, True) (pushHash c)"
  by (simp add: jinv_def vars_ok_def pushHash_def)

lemma popHash_jinv: "jinv opts k (ts, True) c \<Longrightarrow> \<exists>c'. popHash c = Inr c' \<and> jinv opts k (False # ts, False) c'"
  by (auto simp: popHash_def Let_def split: option.splits intro!: push_jinv)
    (auto simp: jinv_def vars_ok_def)

lemma assignToHash_jinv:
  assumes c: "jinv opts k (xs @ ts, True) c" and "length xs = param_size (stringParams opts)"
  shows "\<exists>c'. assignToHash key c = Inr c' \<and> jinv opts k (ts, True) c'"
proof -
  have set: "jinv opts k (ts, True) (d\<lparr>jhash := Some hs\<rparr>)" if "jinv opts k (ts, True) d" for d hs
    using that by (simp add: jinv_def vars_ok_def)
  have ex: "\<exists>hs. jhash d = Some hs" if "jinv opts k (ts, True) d" for d
    using that by (auto simp: jinv_def)
  show ?thesis
  proof (cases "stringParams opts")
    case True
    with assms obtain a b d where xs: "xs = [a, b, d]"
      by (auto simp: param_size_def length_Suc_conv numeral_eq_Suc)
    let ?c1 = "snd (popStack c)" and ?c2 = "snd (popStack (snd (popStack c)))"
    have 1: "jinv opts k (b # d # ts, True) ?c1" using c xs by (auto intro: popStack_jinv)
    then have 2: "jinv opts k (d # ts, True) ?c2" by (rule popStack_jinv)
    then have 3: "jinv opts k (ts, True) (snd (popStack ?c2))" by (rule popStack_jinv)
    from ex [OF 3] set [OF 3] jopts_jinv [OF 1] jopts_jinv [OF 2] True show ?thesis
      by (auto simp: assignToHash_def split_beta Let_def)
  next
    case False
    with assms obtain a where xs: "xs = [a]" by (auto simp: param_size_def length_Suc_conv)
    have 1: "jinv opts k (ts, True) (snd (popStack c))" using c xs by (auto intro: popStack_jinv)
    from ex [OF 1] set [OF 1] jopts_jinv [OF 1] False show ?thesis
      by (auto simp: assignToHash_def split_beta Let_def)
  qed
qed

lemma invokePartial_jinv: "jinv opts k (t # ts, h) c \<Longrightarrow> jinv opts k (False # ts, h) (invokePartial name c)"
  by (simp add: invokePartial_def split_beta Let_def push_jinv popStack_jinv)

lemma length_split: "n \<le> length ts \<Longrightarrow> \<exists>xs. ts = xs @ drop n ts \<and> length xs = n"
  by (metis append_take_drop_id length_take min.absorb2)

lemma helper_operands:
  assumes "3 + n \<le> length ts"
  obtains a b d xs where "ts = a # b # d # xs @ drop (3 + n) ts" "length xs = n"
proof -
  obtain ys where ys: "ts = ys @ drop (3 + n) ts" "length ys = 3 + n" using length_split [OF assms] by metis
  then obtain a b d xs where "ys = a # b # d # xs" "length xs = n"
    by (auto simp: numeral_3_eq_3 length_Suc_conv)
  then show ?thesis using that ys(1) by (metis append_Cons)
qed

lemma four_operands: "length ts = 4 \<Longrightarrow> \<not> ts ! 3 \<Longrightarrow> \<exists>a b d. ts = [a, b, d, False]"
  by (auto simp: numeral_eq_Suc length_Suc_conv)

text \<open>The opcodes that only push.\<close>

definition pushing :: "opcode \<Rightarrow> bool" where
  "pushing oc = (case oc of OPushProgram g \<Rightarrow> True | OEmptyHash \<Rightarrow> True | OPushHash \<Rightarrow> True
     | OPopHash \<Rightarrow> True | OGetContext n \<Rightarrow> True | OPushStringParam v t \<Rightarrow> True | OPush e \<Rightarrow> True
     | OPushContext \<Rightarrow> True | OLookupOnContext n \<Rightarrow> True | OLookupData \<Rightarrow> True | OPushString s \<Rightarrow> True
     | OPushLiteral s \<Rightarrow> True | OStrip \<Rightarrow> True | OAppendContent s \<Rightarrow> True | _ \<Rightarrow> False)"

lemma exec_pushing:
  assumes "pushing oc" and c: "jinv opts k (ts, h) c" and s: "op_scoped k D oc" and h: "hash_before oc h"
  shows "\<exists>c'. exec_op oc c = Inr c' \<and> jinv opts k (kinds oc @ ts, hash_after oc h) c'"
proof (cases oc)
  case (OPushProgram g)
  then show ?thesis using pushProgram_jinv [OF c, of g] s
    by (cases g) (auto simp: exec_op_def op_scoped_def hash_after_def)
next
  case OPopHash
  then show ?thesis using popHash_jinv [of opts k ts c] c h
    by (auto simp: exec_op_def hash_before_def hash_after_def)
qed (use assms in \<open>simp_all add: pushing_def exec_op_def hash_after_def emptyHash_jinv pushHash_jinv push_jinv
  pushStackLiteral_jinv pushStringParam_def strip_opcode_def appendContent_def Let_def\<close>)

lemma exec_popping:
  assumes "\<not> pushing oc" and c: "jinv opts k (ts, h) c" and o: "operands_ok (stringParams opts) oc ts"
    and h: "hash_before oc h"
  shows "\<exists>c'. exec_op oc c = Inr c' \<and>
     jinv opts k (kinds oc @ drop (pops (stringParams opts) oc) ts, hash_after oc h) c'"
proof (cases oc)
  case OBlockValue
  with o obtain a b d where "ts = [a, b, d, False]" using four_operands [of ts] by (auto simp: operands_ok_def)
  with OBlockValue c show ?thesis by (simp add: exec_op_def hash_after_def blockValue_jinv)
next
  case OAmbiguousBlockValue
  with o obtain a b d where "ts = [a, b, d, False]" using four_operands [of ts] by (auto simp: operands_ok_def)
  with OAmbiguousBlockValue c show ?thesis by (simp add: exec_op_def hash_after_def ambiguousBlockValue_jinv)
next
  case OAppend
  with o obtain t where "ts = [t]" by (auto simp: operands_ok_def length_Suc_conv)
  with OAppend c show ?thesis by (simp add: exec_op_def hash_after_def append_op_jinv)
next
  case OAppendEscaped
  with o obtain t where "ts = [t]" by (auto simp: operands_ok_def length_Suc_conv)
  with OAppendEscaped c show ?thesis by (simp add: exec_op_def hash_after_def appendEscaped_jinv)
next
  case (OAssignToHash key)
  with o obtain xs where xs: "ts = xs @ drop (param_size (stringParams opts)) ts" "length xs = param_size (stringParams opts)"
    using length_split by (fastforce simp: operands_ok_def)
  moreover have h: h using h OAssignToHash by (simp add: hash_before_def)
  ultimately obtain c' where "assignToHash key c = Inr c'" "jinv opts k (drop (param_size (stringParams opts)) ts, True) c'"
    using assignToHash_jinv [of opts k xs "drop (param_size (stringParams opts)) ts" c key] c by auto
  with OAssignToHash h show ?thesis by (simp add: exec_op_def hash_after_def)
next
  case (OInvokePartial n)
  with o obtain t ts' where "ts = t # ts'" by (cases ts) (auto simp: operands_ok_def)
  with OInvokePartial c show ?thesis by (simp add: exec_op_def hash_after_def invokePartial_jinv)
next
  case (OInvokeAmbiguous n b)
  with o obtain a d where "ts = [a, d]" by (auto simp: operands_ok_def length_Suc_conv numeral_2_eq_2)
  with OInvokeAmbiguous c show ?thesis by (simp add: exec_op_def hash_after_def invokeAmbiguous_jinv)
next
  case (OInvokeKnownHelper m n)
  with o have "3 + m * param_size (stringParams opts) \<le> length ts" by (simp add: operands_ok_def)
  with helper_operands obtain a b d xs where
    ts: "ts = a # b # d # xs @ drop (3 + m * param_size (stringParams opts)) ts"
    and xs: "length xs = m * param_size (stringParams opts)" by blast
  from c have "jinv opts k (a # b # d # xs @ drop (3 + m * param_size (stringParams opts)) ts, h) c"
    unfolding ts [symmetric] .
  from invokeHelper_jinv(2) [OF this xs] OInvokeKnownHelper show ?thesis by (simp add: exec_op_def hash_after_def)
next
  case (OInvokeHelper m n)
  with o have "3 + m * param_size (stringParams opts) \<le> length ts" by (simp add: operands_ok_def)
  with helper_operands obtain a b d xs where
    ts: "ts = a # b # d # xs @ drop (3 + m * param_size (stringParams opts)) ts"
    and xs: "length xs = m * param_size (stringParams opts)" by blast
  from c have "jinv opts k (a # b # d # xs @ drop (3 + m * param_size (stringParams opts)) ts, h) c"
    unfolding ts [symmetric] .
  from invokeHelper_jinv(1) [OF this xs] OInvokeHelper show ?thesis by (simp add: exec_op_def hash_after_def)
next
  case OResolvePossibleLambda
  with o obtain t ts' where "ts = t # ts'" "ts' = [] \<or> \<not> t" by (cases ts) (auto simp: operands_ok_def)
  with OResolvePossibleLambda c show ?thesis
    by (auto simp: exec_op_def hash_after_def resolvePossibleLambda_def intro!: replaceStack_jinv)
next
  case (OLookup n)
  with o obtain t ts' where "ts = t # ts'" "ts' = [] \<or> \<not> t" by (cases ts) (auto simp: operands_ok_def)
  with OLookup c show ?thesis by (auto simp: exec_op_def hash_after_def lookup_def intro!: replaceStack_jinv)
qed (use assms(1) in \<open>simp_all add: pushing_def\<close>)

lemma exec_jinv:
  assumes c: "jinv opts k s c" and e: "eff (stringParams opts) oc s = Some s'" and s: "op_scoped k D oc"
  shows "\<exists>c'. exec oc c = Inr c' \<and> jinv opts k s' c'"
proof -
  obtain ts h where ts: "s = (ts, h)" by (cases s)
  with e have o: "operands_ok (stringParams opts) oc ts" "hash_before oc h"
    and s': "s' = (kinds oc @ drop (pops (stringParams opts) oc) ts, hash_after oc h)"
    by (auto simp: eff_def split: if_splits)
  have "\<exists>c'. exec_op oc c = Inr c' \<and> jinv opts k s' c'"
  proof (cases "pushing oc")
    case True
    then have "pops (stringParams opts) oc = 0" by (cases oc) (auto simp: pushing_def)
    with exec_pushing [OF True _ s o(2)] c ts s' show ?thesis by simp
  next
    case False
    with exec_popping [OF False _ o] c ts s' show ?thesis by simp
  qed
  then show ?thesis by (auto simp: exec_def)
qed

lemma exec_all_jinv:
  "jinv opts k s c \<Longrightarrow> run_eff (stringParams opts) ops s = Some s' \<Longrightarrow> list_all (op_scoped k D) ops \<Longrightarrow>
     \<exists>c'. exec_all ops c = Inr c' \<and> jinv opts k s' c'"
proof (induction ops arbitrary: s c)
  case (Cons oc ops)
  then obtain s1 where s1: "eff (stringParams opts) oc s = Some s1" "run_eff (stringParams opts) ops s1 = Some s'"
    by (auto simp: bind_eq_Some_conv)
  from exec_jinv [OF Cons.prems(1) s1(1)] Cons.prems(3) obtain c1 where "exec oc c = Inr c1" "jinv opts k s1 c1"
    by auto
  with Cons.IH [OF _ s1(2)] Cons.prems(3) show ?case by auto
qed simp

lemma start_jinv: "length indices = length (e_children env) \<Longrightarrow>
    jinv opts (length (e_children env)) ([], False) (start_jsc env opts isChild indices cx)"
  by (simp add: jinv_def vars_ok_def start_jsc_def)

lemma js_compile_total:
  "env_ok (stringParams opts) env \<Longrightarrow> \<exists>f cx'. js_compile env opts isChild cx = Inr (f, cx')"
  "list_all (env_ok (stringParams opts)) ch \<Longrightarrow>
     \<exists>is cx'. compileChildren ch opts cx = Inr (is, cx') \<and> length is = length ch"
proof (induction env opts isChild cx and ch opts cx rule: js_compile_compileChildren.induct)
  case (1 ops ch ds s u opts isChild cx)
  then obtain inds cx1 where i: "compileChildren ch opts cx = Inr (inds, cx1)" "length inds = length ch"
    by (auto simp: list_all_iff)
  let ?env = "Env ops ch ds s u"
  have "jinv opts (length ch) ([], False) (start_jsc ?env opts isChild inds cx1)"
    using start_jinv [of inds ?env] i(2) by simp
  from exec_all_jinv [OF this, of ops _ "set ds"] 1(2) obtain c where "exec_all ops (start_jsc ?env opts isChild inds cx1) = Inr c"
    by fastforce
  with i show ?case by (auto simp: Let_def split_beta)
next
  case (3 child rest opts cx)
  show ?case
  proof (cases "matchExistingProgram child cx")
    case (Some i)
    with 3 obtain inds cx1 where "compileChildren rest opts cx = Inr (inds, cx1)" "length inds = length rest"
      by fastforce
    with Some show ?thesis by simp
  next
    case None
    let ?cx = "cx\<lparr>programs := programs cx @ [Some []]\<rparr>"
    from 3(1) [OF None refl refl] 3(3) obtain f cx1 where "js_compile child opts True ?cx = Inr (f, cx1)" by auto
    note f = this
    let ?cx1 = "add_program (length (programs ?cx)) (function_source (program_name (length (programs ?cx))) f) child cx1"
    from 3 None f obtain inds cx2 where "compileChildren rest opts ?cx1 = Inr (inds, cx2)" "length inds = length rest"
      by (fastforce simp: Let_def)
    with None f show ?thesis by (simp add: Let_def)
  qed
qed simp

text \<open>
  C11.  The JavaScript compiler keeps to its stack: whatever opcode of a balanced program comes next,
  the opcodes before it have run without a failure, the inline and compile stacks together hold at
  least as many entries as it pops, and the declared stack variables are exactly \<open>stack1\<close> up to their
  number.  Every entry that was moved out of line is a declared variable; so is the variable of the current
  slot, and the one of the next slot is declared when it is taken.  So the opcode takes no \<open>undefined\<close> from an
  empty stack, and no undeclared stack variable, into the generated text.
\<close>

theorem jsc_stack_discipline:
  assumes "env_ok (stringParams opts) env" and "length indices = length (e_children env)"
    and "e_opcodes env = pre @ oc # post"
  shows "\<exists>c. exec_all pre (start_jsc env opts isChild indices cx) = Inr c \<and>
     pops (stringParams opts) oc \<le> length (inlineStack c @ compileStack c) \<and> vars_ok c \<and>
     (\<forall>e \<in> set (compileStack c). \<exists>v \<in> set (stackVars c). e = Expr v) \<and>
     (stackSlot c = 0 \<or> topStackName c \<in> set (stackVars c)) \<and>
     fst (incrStack c) \<in> set (stackVars (snd (incrStack c)))"
proof -
  have r: "run_eff (stringParams opts) (pre @ oc # post) ([], False) = Some ([], False)"
    and s: "list_all (op_scoped (length (e_children env)) (set (e_depths env))) pre"
    using assms(1,3) by (cases env; auto)+
  from r obtain s where pre: "run_eff (stringParams opts) pre ([], False) = Some s"
    and oc: "eff (stringParams opts) oc s \<noteq> None"
    by (auto simp: run_eff_append bind_eq_Some_conv)
  from exec_all_jinv [OF start_jinv [OF assms(2)] pre s] obtain c where
    c: "exec_all pre (start_jsc env opts isChild indices cx) = Inr c" "jinv opts (length (e_children env)) s c"
    by blast
  moreover have "pops (stringParams opts) oc \<le> length (inlineStack c @ compileStack c)"
    using oc c(2) by (auto simp: eff_def jinv_def operands_ok_def split: prod.splits if_splits)
  moreover have v: "vars_ok c" using c(2) by (simp add: jinv_def)
  moreover have "\<forall>e \<in> set (compileStack c). \<exists>v \<in> set (stackVars c). e = Expr v" using v unfolding vars_ok_def by fastforce
  moreover have "stackSlot c = 0 \<or> topStackName c \<in> set (stackVars c)" using top_declared [OF v] by blast
  ultimately show ?thesis using incrStack_ok(2) [OF v] by blast
qed

definition sample_env :: environment where
  "sample_env = Env [OGetContext 0, OLookupOnContext (js ''ab''), OResolvePossibleLambda, OAppendEscaped] [] [] True False"

theorem jsc_stack_discipline_witness:
  "env_ok (stringParams sample_options) sample_env \<and>
   e_opcodes sample_env = [OGetContext 0, OLookupOnContext (js ''ab'')] @ OResolvePossibleLambda # [OAppendEscaped] \<and>
   (\<exists>c. exec_all [OGetContext 0, OLookupOnContext (js ''ab'')] (start_jsc sample_env sample_options False [] new_context) = Inr c \<and>
     1 \<le> length (inlineStack c @ compileStack c) \<and> vars_ok c)"
proof -
  have e: "env_ok (stringParams sample_options) sample_env"
    by (simp add: sample_env_def sample_options_def op_scoped_def eff_def operands_ok_def hash_before_def hash_after_def)
  have o: "e_opcodes sample_env = [OGetContext 0, OLookupOnContext (js ''ab'')] @ OResolvePossibleLambda # [OAppendEscaped]"
    by (simp add: sample_env_def)
  have "length [] = length (e_children sample_env)" by (simp add: sample_env_def)
  from jsc_stack_discipline [OF e this o, of False new_context] e o show ?thesis by auto
qed

text \<open>The end state: both stacks are empty and no hash is open.\<close>

lemma exec_all_final:
  assumes "env_ok (stringParams opts) env" and "length indices = length (e_children env)"
  obtains c where "exec_all (e_opcodes env) (start_jsc env opts isChild indices cx) = Inr c"
    "inlineStack c = []" "compileStack c = []" "jhash c = None"
proof -
  have "run_eff (stringParams opts) (e_opcodes env) ([], False) = Some ([], False)"
    "list_all (op_scoped (length (e_children env)) (set (e_depths env))) (e_opcodes env)"
    using assms(1) by (cases env; auto)+
  from exec_all_jinv [OF start_jinv [OF assms(2)] this] that show ?thesis by (auto simp: jinv_def)
qed

section \<open>String literals\<close>

text \<open>
  How JavaScript reads the rest of a double-quoted literal: escapes are decoded, an unescaped quote
  ends it (and must be the last character here), a raw line terminator is an error.
\<close>

definition hex_value :: "jchar \<Rightarrow> jchar option" where
  "hex_value c =
     (if 48 \<le> c \<and> c \<le> 57 then Some (c - 48)
      else if 97 \<le> c \<and> c \<le> 102 then Some (c - 87)
      else if 65 \<le> c \<and> c \<le> 70 then Some (c - 55) else None)"

fun read_escape :: "jstr \<Rightarrow> (jchar \<times> nat) option" where
  "read_escape [] = None"
| "read_escape (c # s) =
     (if c = 110 then Some (10, 1) else if c = 114 then Some (13, 1)
      else if c = 34 \<or> c = 92 \<or> c = 39 then Some (c, 1)
      else if c = 117 then
        (case s of a # b # d # e # _ \<Rightarrow>
           (case (hex_value a, hex_value b, hex_value d, hex_value e) of
              (Some w, Some x, Some y, Some z) \<Rightarrow> Some (push_bit 12 w OR push_bit 8 x OR push_bit 4 y OR z, 5)
            | _ \<Rightarrow> None)
         | _ \<Rightarrow> None)
      else None)"

function read_literal :: "jstr \<Rightarrow> jstr option" where
  "read_literal [] = None"
| "read_literal (c # s) =
     (if c = 34 then (if s = [] then Some [] else None)
      else if c \<in> {10, 13, 0x2028, 0x2029} then None
      else if c = 92 then
        (case read_escape s of
           None \<Rightarrow> None
         | Some (d, n) \<Rightarrow> map_option ((#) d) (read_literal (drop n s)))
      else map_option ((#) c) (read_literal s))"
  by pat_completeness auto
termination
  by (relation "measure length") auto

definition quote_char :: "jchar \<Rightarrow> jstr" where
  "quote_char c =
     (if c = 92 then [92, 92] else if c = 34 then [92, 34] else if c = 10 then [92, 110]
      else if c = 13 then [92, 114] else if c = 0x2028 then 92 # js ''u2028''
      else if c = 0x2029 then 92 # js ''u2029'' else [c])"

lemma replaceChar_simps:
  "replaceChar c r [] = []"
  "replaceChar c r (d # s) = (if d = c then r else [d]) @ replaceChar c r s"
  by (simp_all add: replaceChar_def)

lemma quotedString_chars: "quotedString s = 34 # concat (map quote_char s) @ [34]"
proof -
  have "replaceChar 0x2029 (92 # js ''u2029'') (replaceChar 0x2028 (92 # js ''u2028'')
       (replaceChar 13 [92, 114] (replaceChar 10 [92, 110] (replaceChar 34 [92, 34]
         (replaceChar 92 [92, 92] s))))) = concat (map quote_char s)"
    by (induction s) (auto simp: replaceChar_simps quote_char_def)
  then show ?thesis by (simp add: quotedString_def)
qed

lemma read_literal_quoted: "read_literal (concat (map quote_char s) @ [34]) = Some s"
proof (induction s)
  case (Cons c s)
  consider "c = 92" | "c = 34" | "c = 10" | "c = 13" | "c = 0x2028" | "c = 0x2029"
    | "c \<notin> {92, 34, 10, 13, 0x2028, 0x2029}" by blast
  then show ?case
    by cases (use Cons in \<open>auto simp: quote_char_def hex_value_def\<close>)
qed simp

text \<open>
  C12.  A quoted string is a JavaScript string literal whose value is the original string, for
  every string: template content and string parameters cannot break out of their quotes.
\<close>

theorem quotedString_roundtrip:
  "\<exists>rest. quotedString s = 34 # rest \<and> read_literal rest = Some s"
  by (simp add: quotedString_chars read_literal_quoted)

text \<open>
  A name that needs the bracket notation is put between single quotes as it is: a name with a quote
  or a backslash is not escaped.
\<close>

theorem nameLookup_unescaped:
  "nameLookup (js ''depth0'') [97, 39, 98] =
     js ''(depth0 && depth0['' @ [39] @ [97, 39, 98] @ [39] @ js ''])''"
  by code_simp

text \<open>
  The shape condition on paths is needed: with a look-up on a literal above another entry,
  \<open>replaceStack\<close> drops the entry below.
\<close>

theorem lookup_drops_entry:
  "map_sum id (\<lambda>c. length (inlineStack c @ compileStack c))
     (exec_all [OPushString (js ''x''), OPushContext, OLookup (js ''y'')]
        (start_jsc sample_env sample_options False [] new_context)) = Inr 1"
  by code_simp

section \<open>The table of programs\<close>

text \<open>The opcodes do not touch the programs and environments of the shared context.\<close>

definition tables :: "jsc \<Rightarrow> jstr option list \<times> environment option list" where
  "tables c = (programs (ctx c), environments (ctx c))"

lemma tables_updates [simp]:
  "tables (c\<lparr>source := x1\<rparr>) = tables c" "tables (c\<lparr>stackSlot := x2\<rparr>) = tables c"
  "tables (c\<lparr>stackVars := x3\<rparr>) = tables c" "tables (c\<lparr>registers := x4\<rparr>) = tables c"
  "tables (c\<lparr>compileStack := x5\<rparr>) = tables c" "tables (c\<lparr>inlineStack := x6\<rparr>) = tables c"
  "tables (c\<lparr>lastContext := x7\<rparr>) = tables c" "tables (c\<lparr>lastHelper := x8\<rparr>) = tables c"
  "tables (c\<lparr>jhash := x9\<rparr>) = tables c" "tables (c\<lparr>pendingContent := x10\<rparr>) = tables c"
  "tables (c\<lparr>stripNext := x11\<rparr>) = tables c"
  by (simp_all add: tables_def)

lemma tables_primitives [simp]:
  "tables (set_alias n v c) = tables c" "tables (pushSource l c) = tables c" "tables (snd (incrStack c)) = tables c"
  "tables (push e c) = tables c" "tables (pushStackLiteral w c) = tables c" "tables (useRegister r c) = tables c"
  "tables (set_line1 f c) = tables c"
  by (simp_all add: set_alias_def tables_def pushSource_def incrStack_def push_def pushStackLiteral_def
      useRegister_def set_line1_def Let_def)

lemma tables_register [simp]: "tables (register n v c) = tables c"
  by (simp add: register_def)

lemma tables_push_slot [simp]: "tables (snd (push_slot i c)) = tables c"
  by (simp add: push_slot_def split_beta Let_def split: option.split)

lemma tables_flush_entry [simp]: "tables (flush_entry e c) = tables c"
  by (simp add: flush_entry_def split: entry.split)

lemma tables_flush [simp]: "tables (fold flush_entry es c) = tables c"
  by (induction es arbitrary: c) simp_all

lemma tables_flushInline [simp]: "tables (flushInline c) = tables c"
  by (simp add: flushInline_def)

lemma tables_nextStack [simp]: "tables (snd (nextStack c)) = tables c"
  by (simp add: nextStack_def)

lemma tables_popStack [simp]: "tables (snd (popStack c)) = tables c"
  by (simp add: popStack_def split: list.split entry.split)

lemma tables_replaceStack [simp]: "tables (replaceStack f c) = tables c"
  by (simp add: replaceStack_def split_beta Let_def split: list.split entry.split)

lemma tables_pop_params [simp]: "tables (snd (pop_params n c)) = tables c"
  by (induction n arbitrary: c) (simp_all add: split_beta Let_def)

lemma tables_setupParams [simp]: "tables (snd (setupParams n ps r c)) = tables c"
  by (simp add: setupParams_def split_beta Let_def del: js_Cons)

lemma tables_setupHelper [simp]: "tables (snd (setupHelper n nm m c)) = tables c"
  by (simp add: setupHelper_def split_beta Let_def)

lemmas opcode_defs = strip_opcode_def pushProgram_def programExpression_def emptyHash_def blockValue_def
  ambiguousBlockValue_def append_op_def appendEscaped_def appendContent_def pushHash_def assignToHash_def popHash_def
  pushStringParam_def invokePartial_def invokeAmbiguous_def invokeKnownHelper_def invokeHelper_def
  resolvePossibleLambda_def lookup_def

lemma tables_exec_op: "exec_op oc c = Inr c' \<Longrightarrow> tables c' = tables c"
  by (cases oc)
    (auto simp: exec_op_def opcode_defs split_beta Let_def simp del: js_Cons split: option.splits if_splits)

lemma tables_exec_all: "exec_all ops c = Inr c' \<Longrightarrow> tables c' = tables c"
proof (induction ops arbitrary: c)
  case (Cons oc ops)
  then obtain c1 where "exec_op oc c = Inr c1" "exec_all ops (if oc = OStrip then c1 else c1\<lparr>stripNext := False\<rparr>) = Inr c'"
    by (auto simp: exec_def bindR_Inr_iff)
  with Cons.IH [of "if oc = OStrip then c1 else c1\<lparr>stripNext := False\<rparr>"] tables_exec_op [of oc c c1] show ?case
    by (auto split: if_splits)
qed simp

lemma tables_createFunctionContext: "tables (snd (createFunctionContext env b c)) = tables c"
  by (simp add: createFunctionContext_def split_beta Let_def del: js_Cons)

text \<open>
  What compiling may change: entries are added behind the existing ones; a table is consistent when
  every registered environment has its program, a function of the matching name.
\<close>

definition keeps :: "jcontext \<Rightarrow> jcontext \<Rightarrow> bool" where
  "keeps cx cx' \<longleftrightarrow> length (programs cx) \<le> length (programs cx') \<and>
     (\<forall>i \<le> length (programs cx). arr_get (environments cx') i = arr_get (environments cx) i) \<and>
     (\<forall>i < length (programs cx). arr_get (programs cx') i = arr_get (programs cx) i)"

definition ctx_ok :: "jcontext \<Rightarrow> bool" where
  "ctx_ok cx \<longleftrightarrow>
     (\<forall>i e. arr_get (environments cx) i = Some e \<longrightarrow>
        i < length (programs cx) \<and> (\<exists>f. arr_get (programs cx) i = Some (function_source (program_name i) f)))"

definition resolves :: "jcontext \<Rightarrow> nat \<Rightarrow> environment \<Rightarrow> bool" where
  "resolves cx i child \<longleftrightarrow> (\<exists>e. arr_get (environments cx) i = Some e \<and> equals e child)"

lemma keeps_trans: "keeps a b \<Longrightarrow> keeps b c \<Longrightarrow> keeps a c"
  by (auto simp: keeps_def)

lemma keeps_resolves: "keeps cx cx' \<Longrightarrow> ctx_ok cx \<Longrightarrow> resolves cx i e \<Longrightarrow> resolves cx' i e"
  unfolding keeps_def ctx_ok_def resolves_def by (metis less_imp_le_nat)

lemma match_resolves: "matchExistingProgram child cx = Some i \<Longrightarrow> resolves cx i child"
  by (auto simp: matchExistingProgram_def resolves_def find_Some_iff arr_get_def split: option.splits)

lemma equals_refl: "equals e e"
  by (simp add: equals_skeleton)

lemma arr_get_append1: "i < length xs \<Longrightarrow> arr_get (xs @ ys) i = arr_get xs i"
  by (simp add: arr_get_def nth_append)

lemma add_program_ok:
  assumes cx1: "cx1 = cx\<lparr>programs := programs cx @ [Some []]\<rparr>" and k: "keeps cx1 cx2" and ok: "ctx_ok cx" "ctx_ok cx2"
    and i: "i = length (programs cx1)"
    and cx3: "cx3 = add_program i (function_source (program_name i) f) child cx2"
  shows "keeps cx cx3" "ctx_ok cx3" "resolves cx3 i child"
proof -
  show "keeps cx cx3"
    using k by (auto simp: keeps_def cx1 cx3 i add_program_def arr_get_append1)
  show "ctx_ok cx3" using ok(2) by (cases f) (auto simp: ctx_ok_def cx3 add_program_def split: if_splits)
  show "resolves cx3 i child" by (simp add: resolves_def cx3 add_program_def equals_refl)
qed

lemma compile_tables:
  "ctx_ok cx \<Longrightarrow> js_compile env opts isChild cx = Inr (f, cx') \<Longrightarrow> ctx_ok cx' \<and> keeps cx cx'"
  "ctx_ok cx \<Longrightarrow> compileChildren ch opts cx = Inr (is, cx') \<Longrightarrow>
     ctx_ok cx' \<and> keeps cx cx' \<and> list_all2 (resolves cx') is ch"
proof (induction env opts isChild cx and ch opts cx arbitrary: f cx' and "is" cx' rule: js_compile_compileChildren.induct)
  case (1 ops ch ds s u opts isChild cx)
  let ?env = "Env ops ch ds s u"
  from 1(3) obtain inds cx1 c where cc: "compileChildren ch opts cx = Inr (inds, cx1)"
    and ex: "exec_all ops (start_jsc ?env opts isChild inds cx1) = Inr c"
    and cx': "cx' = ctx (snd (createFunctionContext ?env isChild (pushSource (LText []) c)))"
    by (auto simp: bindR_Inr_iff Let_def split_beta)
  have "tables (snd (createFunctionContext ?env isChild (pushSource (LText []) c))) = (programs cx1, environments cx1)"
    using tables_exec_all [OF ex] by (simp add: tables_createFunctionContext) (simp add: start_jsc_def tables_def)
  then have "programs cx' = programs cx1" "environments cx' = environments cx1" by (simp_all add: tables_def cx')
  with 1(1) [OF 1(2) cc] show ?case by (simp add: ctx_ok_def keeps_def)
next
  case (2 opts cx)
  then show ?case by (simp add: keeps_def)
next
  case (3 child rest opts cx)
  from 3(4) obtain i cx3 inds where
    first: "(case matchExistingProgram child cx of Some i \<Rightarrow> Inr (i, cx)
            | None \<Rightarrow> let cx1 = cx\<lparr>programs := programs cx @ [Some []]\<rparr>; index = length (programs cx1)
                in bindR (js_compile child opts True cx1) (\<lambda>(f, cx2).
                     Inr (index, add_program index (function_source (program_name index) f) child cx2))) = Inr (i, cx3)"
    and rest: "compileChildren rest opts cx3 = Inr (inds, cx')" and "is": "is = i # inds"
    by (auto simp: bindR_Inr_iff)
  have h: "ctx_ok cx3 \<and> keeps cx cx3 \<and> resolves cx3 i child"
  proof (cases "matchExistingProgram child cx")
    case (Some j)
    with first 3(3) match_resolves [OF Some] show ?thesis by (auto simp: keeps_def)
  next
    case None
    let ?cx1 = "cx\<lparr>programs := programs cx @ [Some []]\<rparr>"
    from first None obtain f cx2 where f: "js_compile child opts True ?cx1 = Inr (f, cx2)"
      and i: "i = length (programs ?cx1)" and cx3: "cx3 = add_program i (function_source (program_name i) f) child cx2"
      by (auto simp: Let_def bindR_Inr_iff)
    have "ctx_ok ?cx1" using 3(3) by (auto simp: ctx_ok_def arr_get_def nth_append split: if_splits)
    from 3(1) [OF None refl refl this f] have "ctx_ok cx2" "keeps ?cx1 cx2" by auto
    from add_program_ok [OF refl this(2) 3(3) this(1) i cx3] show ?thesis by simp
  qed
  from 3(2) [OF first refl, of inds cx'] h rest have r: "ctx_ok cx'" "keeps cx3 cx'" "list_all2 (resolves cx') inds rest"
    by auto
  with h "is" keeps_trans [of cx cx3 cx'] keeps_resolves [of cx3 cx' i child] show ?case by simp
qed

text \<open>
  C13.  Every reference to a program resolves: after the children of a program are compiled, the
  index of each child names an entry of the shared table, that entry is the function of the matching
  name, and the program compiled there has the same opcodes and children as the child.
\<close>

theorem compileChildren_resolves:
  assumes "compileChildren ch opts new_context = Inr (inds, cx)"
  shows "list_all2 (\<lambda>i child. \<exists>e f. arr_get (environments cx) i = Some e \<and> equals e child \<and>
            arr_get (programs cx) i = Some (function_source (program_name i) f)) inds ch"
proof -
  have "ctx_ok new_context" by (simp add: ctx_ok_def new_context_def arr_get_def)
  from compile_tables(2) [OF this assms] have "ctx_ok cx" "list_all2 (resolves cx) inds ch" by auto
  then show ?thesis by (elim list_all2_mono) (auto simp: resolves_def ctx_ok_def)
qed

definition sample_child :: environment where
  "sample_child = Env [OAppendContent (js ''a'')] [] [] True False"

theorem compileChildren_resolves_witness:
  "\<exists>inds cx. compileChildren [sample_child, sample_child] sample_options new_context = Inr (inds, cx) \<and>
     list_all2 (\<lambda>i child. \<exists>e f. arr_get (environments cx) i = Some e \<and> equals e child \<and>
       arr_get (programs cx) i = Some (function_source (program_name i) f)) inds [sample_child, sample_child]"
proof -
  have "case compileChildren [sample_child, sample_child] sample_options new_context of Inl _ \<Rightarrow> False | Inr (is, _) \<Rightarrow> is = [1, 1]"
    by code_simp
  then obtain cx where c: "compileChildren [sample_child, sample_child] sample_options new_context = Inr ([1, 1], cx)"
    by (auto split: sum.splits)
  from c compileChildren_resolves [OF c] show ?thesis by blast
qed

end
