(* ===== verification/HB_Base.thy ===== *)
theory HB_Base
  imports HB_JSCompiler
begin

text \<open>
  The environment of \<open>resources/js/handlebars.js\<close>: module \<open>base.js\<close> (lines 149 to 330).

  An environment has a table of helpers and a table of partials.  The tables are objects that are
  shared by reference and changed in place, so the state keeps them in a store and names them by
  their index.  A value in a table is a JavaScript value; a function value is a reference, and the
  references 0 to 6 are the default helpers that \<open>registerDefaultHelpers\<close> installs, 7 to 18 the
  members that every object inherits from \<open>Object.prototype\<close>, in the order of \<open>object_prototype\<close>.
  A look-up of a name that a table does not have itself gives such a member.  What is assigned under
  the name \<open>__proto__\<close> is no entry of a table; that a function or an object assigned there becomes the
  prototype of the table is not modelled, nor are own properties of that name.

  What a function of the host program or of the language does when it is called is not part of the
  file: it is the parameter \<open>engine\<close>.  A block of a template (\<open>options.fn\<close>, \<open>options.inverse\<close>) is a function from
  the context and the data frame to an action.  Every action may throw and may change the state.
  Frames are passed by value.
\<close>

section \<open>Actions\<close>

type_synonym ('s, 'a) act = "'s \<Rightarrow> 'a result \<times> 's"

definition returnS :: "'a \<Rightarrow> ('s, 'a) act" where
  "returnS x = (\<lambda>s. (Inr x, s))"

definition throwS :: "js_error \<Rightarrow> ('s, 'a) act" where
  "throwS e = (\<lambda>s. (Inl e, s))"

definition bindS :: "('s, 'a) act \<Rightarrow> ('a \<Rightarrow> ('s, 'b) act) \<Rightarrow> ('s, 'b) act" where
  "bindS m f = (\<lambda>s. case m s of (Inl e, s') \<Rightarrow> (Inl e, s') | (Inr x, s') \<Rightarrow> f x s')"

definition liftR :: "'a result \<Rightarrow> ('s, 'a) act" where
  "liftR r = (\<lambda>s. (r, s))"

lemma bindS_simps [simp]:
  "bindS (returnS x) f = f x" "bindS (throwS e) f = throwS e"
  "returnS x = Pair (Inr x)" "throwS e = Pair (Inl e)" "liftR r = Pair r"
  by (simp_all add: bindS_def returnS_def throwS_def liftR_def fun_eq_iff)

lemma bindS_Pair [simp]: "bindS (Pair (Inr x)) f = f x" "bindS (Pair (Inl e)) f = Pair (Inl e)"
  by (simp_all add: bindS_def fun_eq_iff)

lemma bindS_run: "m s = (Inr x, s') \<Longrightarrow> bindS m f s = f x s'"
  by (simp add: bindS_def)

lemma bindS_assoc: "bindS (bindS m f) g = bindS m (\<lambda>x. bindS (f x) g)"
  by (auto simp: bindS_def fun_eq_iff split: prod.splits sum.splits)

section \<open>State\<close>

type_synonym frame = "(jstr \<times> jsval) list"

text \<open>What \<open>Handlebars.compile\<close> closes over, and the container of the template once it is compiled.\<close>

datatype input = ISource jstr | IAst program

record wrapper =
  w_program :: nat
  w_depth :: nat
  w_fn :: nat
  w_data :: "frame option"
  w_args :: "jsval list"

record compiled =
  c_code :: "jstr list \<times> jstr"
  c_programs :: "wrapper option list"
  c_info :: "(int \<times> jstr) option"

record lazy =
  l_input :: input
  l_options :: options
  l_compiled :: "compiled option"

record hb =
  tables :: "frame list"
  helpers_ref :: nat
  partials_ref :: nat
  nots :: "(nat \<times> jsval) list"
  closures :: "(nat \<times> lazy) list"
  next_fun :: nat
  log_level :: int
  console_methods :: "jstr list"
  console :: "(jstr \<times> jsval) list"

definition table_of :: "nat \<Rightarrow> 'x hb_scheme \<Rightarrow> frame" where
  "table_of r s = (if r < length (tables s) then tables s ! r else [])"

definition set_table :: "nat \<Rightarrow> frame \<Rightarrow> 'x hb_scheme \<Rightarrow> 'x hb_scheme" where
  "set_table r t s = s\<lparr>tables := (tables s)[r := t]\<rparr>"

text \<open>Reading a property, which may be inherited, and assigning one.\<close>

definition object_member :: "jstr \<Rightarrow> jsval" where
  "object_member k =
     (if k = js ''__proto__'' then JObj []
      else case map_of (zip object_prototype [7..<19]) k of Some n \<Rightarrow> JFun n | None \<Rightarrow> JUndefined)"

definition get_prop :: "frame \<Rightarrow> jstr \<Rightarrow> jsval" where
  "get_prop t k = (case map_of t k of Some v \<Rightarrow> v | None \<Rightarrow> object_member k)"

definition assign_prop :: "frame \<Rightarrow> jstr \<Rightarrow> jsval \<Rightarrow> frame" where
  "assign_prop t k v = (if k = js ''__proto__'' then t else obj_set t k v)"

text \<open>The options object of a helper call.\<close>

type_synonym 's block = "jsval \<Rightarrow> frame option \<Rightarrow> ('s, jsval) act"

record 's helper_options =
  h_fn :: "'s block option"
  h_inverse :: "'s block option"
  h_hash :: frame
  h_data :: "frame option"

text \<open>The host program: source texts, calls with plain arguments, calls of a helper.\<close>

record 's engine =
  src :: "nat \<Rightarrow> jstr"
  callf :: "nat \<Rightarrow> jsval \<Rightarrow> jsval list \<Rightarrow> ('s, jsval) act"
  callh :: "nat \<Rightarrow> jsval \<Rightarrow> jsval \<Rightarrow> 's helper_options \<Rightarrow> ('s, jsval) act"

definition call_block :: "'s block option \<Rightarrow> jsval \<Rightarrow> frame option \<Rightarrow> ('s, jsval) act" where
  "call_block f v d = (case f of None \<Rightarrow> throwS TypeErr | Some g \<Rightarrow> g v d)"

text \<open>\<open>if (isFunction(context)) { context = context.call(this); }\<close>\<close>

definition resolve :: "'s engine \<Rightarrow> jsval \<Rightarrow> jsval \<Rightarrow> ('s, jsval) act" where
  "resolve E this v = (case v of JFun n \<Rightarrow> callf E n this [] | _ \<Rightarrow> returnS v)"

section \<open>Registration\<close>

text \<open>\<open>toString.call(name) === objectType\<close>, with the own properties of such a value.\<close>

definition object_props :: "jsval \<Rightarrow> frame option" where
  "object_props v = (case v of JObj kvs \<Rightarrow> Some kvs | JSafe w \<Rightarrow> Some [(js ''string'', w)] | _ \<Rightarrow> None)"

text \<open>
  \<open>fn.not = inverse\<close>: a property of a function is kept beside it; on an object it changes the
  value; arrays and wrappers have no room for it in the model; on anything else strict mode throws.
\<close>

definition set_not :: "jsval \<Rightarrow> jsval \<Rightarrow> ('x hb_scheme, jsval) act" where
  "set_not fn invr s =
     (case fn of
        JFun n \<Rightarrow> (Inr fn, s\<lparr>nots := (n, invr) # nots s\<rparr>)
      | JObj kvs \<Rightarrow> (Inr (JObj (obj_set kvs (js ''not'') invr)), s)
      | JArr _ \<Rightarrow> (Inr fn, s)
      | JSafe _ \<Rightarrow> (Inr fn, s)
      | _ \<Rightarrow> (Inl TypeErr, s))"

definition registerHelper :: "'x hb_scheme engine \<Rightarrow> jsval \<Rightarrow> jsval \<Rightarrow> jsval \<Rightarrow> ('x hb_scheme, unit) act" where
  "registerHelper E name fn invr s =
     (case object_props name of
        Some kvs \<Rightarrow>
          if truthy invr \<or> truthy fn then (Inl (HBException (js ''Arg not supported with multiple helpers'')), s)
          else (Inr (), set_table (helpers_ref s) (HB_Utils.extend (table_of (helpers_ref s) s) kvs) s)
      | None \<Rightarrow>
          bindS (if truthy invr then set_not fn invr else returnS fn) (\<lambda>fn s.
            (Inr (), set_table (helpers_ref s) (assign_prop (table_of (helpers_ref s) s) (toStr (src E) name) fn) s)) s)"

definition registerPartial :: "'x hb_scheme engine \<Rightarrow> jsval \<Rightarrow> jsval \<Rightarrow> ('x hb_scheme, unit) act" where
  "registerPartial E name str s =
     (case object_props name of
        Some kvs \<Rightarrow> (Inr (), set_table (partials_ref s) (HB_Utils.extend (table_of (partials_ref s) s) kvs) s)
      | None \<Rightarrow>
          (Inr (), set_table (partials_ref s) (assign_prop (table_of (partials_ref s) s) (toStr (src E) name) str) s))"

section \<open>Default helpers\<close>

definition helperMissing :: "'s engine \<Rightarrow> jsval list \<Rightarrow> ('s, jsval) act" where
  "helperMissing E args =
     (if length args + 1 = 2 then returnS JUndefined
      else throwS (Error (js ''Missing helper: '' @ [39] @
             (case args of [] \<Rightarrow> js ''[object Object]'' | v # _ \<Rightarrow> toStr (src E) v) @ [39])))"

definition createFrame :: "frame \<Rightarrow> frame" where
  "createFrame object = HB_Utils.extend [] object"

definition index_frame :: "nat \<Rightarrow> nat \<Rightarrow> frame \<Rightarrow> frame" where
  "index_frame i n d =
     obj_set (obj_set (obj_set d (js ''index'') (JNum (int i))) (js ''first'') (JBool (i = 0)))
       (js ''last'') (JBool (Suc i = n))"

fun each_array :: "'s engine \<Rightarrow> 's block option \<Rightarrow> nat \<Rightarrow> nat \<Rightarrow> jsval list \<Rightarrow> frame option \<Rightarrow> jstr \<Rightarrow> ('s, jstr) act" where
  "each_array E fn i n [] dat ret = returnS ret"
| "each_array E fn i n (v # vs) dat ret =
     (let dat = map_option (index_frame i n) dat
      in bindS (call_block fn v dat) (\<lambda>r. each_array E fn (Suc i) n vs dat (ret @ toStr (src E) r)))"

definition key_frame :: "jstr \<Rightarrow> nat \<Rightarrow> frame \<Rightarrow> frame" where
  "key_frame key i d =
     obj_set (obj_set (obj_set d (js ''key'') (JStr key)) (js ''index'') (JNum (int i)))
       (js ''first'') (JBool (i = 0))"

text \<open>\<open>context.hasOwnProperty(key)\<close>, which an own property of that name replaces.\<close>

definition has_own :: "'s engine \<Rightarrow> frame \<Rightarrow> jstr \<Rightarrow> ('s, bool) act" where
  "has_own E kvs key =
     (case map_of kvs (js ''hasOwnProperty'') of
        None \<Rightarrow> returnS True
      | Some (JFun n) \<Rightarrow> bindS (callf E n (JObj kvs) [JStr key]) (\<lambda>v. returnS (truthy v))
      | Some _ \<Rightarrow> throwS TypeErr)"

fun each_object ::
    "'s engine \<Rightarrow> 's block option \<Rightarrow> frame \<Rightarrow> frame \<Rightarrow> nat \<Rightarrow> frame option \<Rightarrow> jstr \<Rightarrow> ('s, nat \<times> jstr) act" where
  "each_object E fn kvs [] i dat ret = returnS (i, ret)"
| "each_object E fn kvs ((key, v) # rest) i dat ret =
     bindS (has_own E kvs key) (\<lambda>own.
       if own then
         let dat = map_option (key_frame key i) dat
         in bindS (call_block fn v dat) (\<lambda>r. each_object E fn kvs rest (Suc i) dat (ret @ toStr (src E) r))
       else each_object E fn kvs rest i dat ret)"

definition each :: "'s engine \<Rightarrow> jsval \<Rightarrow> jsval \<Rightarrow> 's helper_options \<Rightarrow> ('s, jsval) act" where
  "each E this context opts =
     bindS (resolve E this context) (\<lambda>context.
       let dat = map_option createFrame (h_data opts)
       in bindS (case context of
                   JArr vs \<Rightarrow> bindS (each_array E (h_fn opts) 0 (length vs) vs dat []) (\<lambda>ret. returnS (length vs, ret))
                 | JObj kvs \<Rightarrow> each_object E (h_fn opts) kvs kvs 0 dat []
                 | JSafe w \<Rightarrow> each_object E (h_fn opts) [(js ''string'', w)] [(js ''string'', w)] 0 dat []
                 | _ \<Rightarrow> returnS (0, [])) (\<lambda>(i, ret).
            if i = 0 then call_block (h_inverse opts) this None else returnS (JStr ret)))"

definition if_helper :: "'s engine \<Rightarrow> jsval \<Rightarrow> jsval \<Rightarrow> 's helper_options \<Rightarrow> ('s, jsval) act" where
  "if_helper E this conditional opts =
     bindS (resolve E this conditional) (\<lambda>conditional.
       if (\<not> truthy (get_prop (h_hash opts) (js ''includeZero'')) \<and> \<not> truthy conditional) \<or> isEmpty conditional
       then call_block (h_inverse opts) this None
       else call_block (h_fn opts) this None)"

definition with_helper :: "'s engine \<Rightarrow> jsval \<Rightarrow> jsval \<Rightarrow> 's helper_options \<Rightarrow> ('s, jsval) act" where
  "with_helper E this context opts =
     bindS (resolve E this context) (\<lambda>context.
       if \<not> isEmpty context then call_block (h_fn opts) context None else returnS JUndefined)"

section \<open>Logging\<close>

definition method_map :: "int \<Rightarrow> jstr" where
  "method_map level =
     (if level = 0 then js ''debug'' else if level = 1 then js ''info'' else if level = 2 then js ''warn''
      else if level = 3 then js ''error'' else js ''undefined'')"

text \<open>A level that is not a number compares as false.\<close>

definition logger_log :: "int option \<Rightarrow> jsval \<Rightarrow> ('x hb_scheme, unit) act" where
  "logger_log level obj s =
     (Inr (), case level of
        None \<Rightarrow> s
      | Some l \<Rightarrow>
          if log_level s \<le> l \<and> method_map l \<in> set (console_methods s)
          then s\<lparr>console := console s @ [(method_map l, obj)]\<rparr> else s)"

definition digit :: "jchar \<Rightarrow> bool" where
  "digit c \<longleftrightarrow> 48 \<le> c \<and> c \<le> 57"

definition parseInt10 :: "jstr \<Rightarrow> int option" where
  "parseInt10 s =
     (let t = dropWhile js_space s;
          neg = (t \<noteq> [] \<and> hd t = 45);
          u = (if t \<noteq> [] \<and> (hd t = 45 \<or> hd t = 43) then tl t else t);
          ds = takeWhile digit u
      in if ds = [] then None else Some ((if neg then -1 else 1) * digits_value ds))"

definition log_helper :: "'x hb_scheme engine \<Rightarrow> jsval \<Rightarrow> 'x hb_scheme helper_options \<Rightarrow> ('x hb_scheme, jsval) act" where
  "log_helper E context opts =
     (let level = (case h_data opts of
                     None \<Rightarrow> Some 1
                   | Some d \<Rightarrow> let l = get_prop d (js ''level'')
                       in if l = JUndefined \<or> l = JNull then Some 1 else parseInt10 (toStr (src E) l))
      in bindS (logger_log level context) (\<lambda>_. returnS JUndefined))"

section \<open>Calls through the helper table\<close>

text \<open>
  \<open>blockHelperMissing\<close> and \<open>unless\<close> call \<open>instance.helpers.each\<close> and \<open>instance.helpers['if']\<close>,
  whatever is registered there.  The first argument is the depth of the call stack that is left:
  helpers registered under each other's names recurse until it is used up.
\<close>

definition stack_overflow :: js_error where
  "stack_overflow = Error (js ''Maximum call stack size exceeded'')"

fun call_helper ::
    "nat \<Rightarrow> 'x hb_scheme engine \<Rightarrow> jsval \<Rightarrow> jsval \<Rightarrow> jsval \<Rightarrow> 'x hb_scheme helper_options \<Rightarrow> ('x hb_scheme, jsval) act"
  and blockHelperMissing ::
    "nat \<Rightarrow> 'x hb_scheme engine \<Rightarrow> jsval \<Rightarrow> jsval \<Rightarrow> 'x hb_scheme helper_options \<Rightarrow> ('x hb_scheme, jsval) act"
  and unless_helper ::
    "nat \<Rightarrow> 'x hb_scheme engine \<Rightarrow> jsval \<Rightarrow> jsval \<Rightarrow> 'x hb_scheme helper_options \<Rightarrow> ('x hb_scheme, jsval) act" where
  "call_helper 0 E f this context opts = throwS stack_overflow"
| "call_helper (Suc d) E f this context opts =
     (case f of
        JFun n \<Rightarrow>
          if n = 0 then helperMissing E [context]
          else if n = 1 then blockHelperMissing d E this context opts
          else if n = 2 then each E this context opts
          else if n = 3 then if_helper E this context opts
          else if n = 4 then unless_helper d E this context opts
          else if n = 5 then with_helper E this context opts
          else if n = 6 then log_helper E context opts
          else callh E n this context opts
      | _ \<Rightarrow> throwS TypeErr)"
| "blockHelperMissing d E this context opts =
     bindS (resolve E this context) (\<lambda>context.
       if context = JBool True then call_block (h_fn opts) this None
       else if context = JBool False \<or> context = JUndefined \<or> context = JNull
       then call_block (Some (case h_inverse opts of None \<Rightarrow> (\<lambda>_ _. returnS JUndefined) | Some g \<Rightarrow> g)) this None
       else case context of
              JArr vs \<Rightarrow>
                if length vs > 0
                then (\<lambda>s. let t = table_of (helpers_ref s) s
                          in call_helper d E (get_prop t (js ''each'')) (JObj t) context opts s)
                else call_block (Some (case h_inverse opts of None \<Rightarrow> (\<lambda>_ _. returnS JUndefined) | Some g \<Rightarrow> g)) this None
            | _ \<Rightarrow> call_block (h_fn opts) context None)"
| "unless_helper d E this conditional opts =
     (\<lambda>s. call_helper d E (get_prop (table_of (helpers_ref s) s) (js ''if'')) this conditional
            \<lparr>h_fn = h_inverse opts, h_inverse = h_fn opts, h_hash = h_hash opts, h_data = None\<rparr> s)"

definition default_table :: "(jstr \<times> nat) list" where
  "default_table =
     [(js ''helperMissing'', 0), (js ''blockHelperMissing'', 1), (js ''each'', 2), (js ''if'', 3),
      (js ''unless'', 4), (js ''with'', 5), (js ''log'', 6)]"

fun register_all :: "'x hb_scheme engine \<Rightarrow> (jstr \<times> nat) list \<Rightarrow> ('x hb_scheme, unit) act" where
  "register_all E [] = returnS ()"
| "register_all E ((name, f) # fs) =
     bindS (registerHelper E (JStr name) (JFun f) JUndefined) (\<lambda>_. register_all E fs)"

definition registerDefaultHelpers :: "'x hb_scheme engine \<Rightarrow> ('x hb_scheme, unit) act" where
  "registerDefaultHelpers E = register_all E default_table"

text \<open>\<open>new HandlebarsEnvironment(helpers, partials)\<close>: the objects given, or new ones.\<close>

definition HandlebarsEnvironment ::
    "'x hb_scheme engine \<Rightarrow> nat option \<Rightarrow> nat option \<Rightarrow> ('x hb_scheme, unit) act" where
  "HandlebarsEnvironment E h p s =
     (let n = length (tables s);
          (hr, s) = (case h of Some r \<Rightarrow> (r, s) | None \<Rightarrow> (n, s\<lparr>tables := tables s @ [[]]\<rparr>));
          (pr, s) = (case p of Some r \<Rightarrow> (r, s) | None \<Rightarrow> (length (tables s), s\<lparr>tables := tables s @ [[]]\<rparr>))
      in registerDefaultHelpers E (s\<lparr>helpers_ref := hr, partials_ref := pr\<rparr>))"

section \<open>Objects\<close>

lemma map_of_extend: "map_of (HB_Utils.extend o1 o2) = map_of o1 ++ map_of (rev o2)"
  by (induction o1 o2 rule: HB_Utils.extend.induct) (auto simp: map_add_def fun_eq_iff split: option.splits)

lemma obj_set_twice [simp]: "obj_set (obj_set ps k v) k w = obj_set ps k w"
  by (induction ps k v rule: obj_set.induct) auto

lemma obj_set_commute: "k \<in> fst ` set ps \<Longrightarrow> k \<noteq> k' \<Longrightarrow> obj_set (obj_set ps k v) k' w = obj_set (obj_set ps k' w) k v"
  by (induction ps k v rule: obj_set.induct) auto

lemma keys_obj_set [simp]: "fst ` set (obj_set ps k v) = insert k (fst ` set ps)"
  by (induction ps k v rule: obj_set.induct) auto

lemma get_prop_put [simp]:
  "get_prop (obj_set t k v) k' = (if k' = k then v else get_prop t k')"
  "k \<noteq> js ''__proto__'' \<Longrightarrow> get_prop (assign_prop t k v) k' = (if k' = k then v else get_prop t k')"
  by (simp_all add: get_prop_def assign_prop_def)

lemma object_member_other: "k \<notin> set object_prototype \<Longrightarrow> object_member k = JUndefined"
proof -
  assume k: "k \<notin> set object_prototype"
  then have "map_of (zip object_prototype [7..<19]) k = None" by (auto simp: map_of_eq_None_iff dest: set_zip_leftD)
  moreover have "k \<noteq> js ''__proto__''" using k by (auto simp: object_prototype_def simp del: js_Cons)
  ultimately show ?thesis by (simp add: object_member_def)
qed

section \<open>Registration: the tables as registries\<close>

text \<open>
  The contract of a registry: storing a value under a key that is valid is what a later look-up of
  the key sees, the other keys keep theirs, and the invariant is kept.
\<close>

locale registry =
  fixes ok :: "'s \<Rightarrow> bool" and valid :: "'k \<Rightarrow> bool" and put :: "'k \<Rightarrow> 'v \<Rightarrow> 's \<Rightarrow> 's" and look :: "'s \<Rightarrow> 'k \<Rightarrow> 'v"
  assumes ok_put: "ok s \<Longrightarrow> ok (put k v s)"
    and look_put: "ok s \<Longrightarrow> valid k \<Longrightarrow> look (put k v s) k' = (if k' = k then v else look s k')"
begin

lemma ok_puts: "ok s \<Longrightarrow> ok (fold (\<lambda>(k, v). put k v) kvs s)"
  by (induction kvs arbitrary: s) (auto simp: ok_put)

lemma look_puts:
  "ok s \<Longrightarrow> \<forall>k \<in> fst ` set kvs. valid k \<Longrightarrow>
   look (fold (\<lambda>(k, v). put k v) kvs s) k = (case map_of (rev kvs) k of Some v \<Rightarrow> v | None \<Rightarrow> look s k)"
proof (induction kvs arbitrary: s)
  case (Cons kv kvs)
  obtain k' v where kv: "kv = (k', v)" by (cases kv)
  have "ok (put k' v s)" using Cons.prems(1) by (rule ok_put)
  from Cons.IH [OF this] Cons.prems(2) show ?case
    by (simp add: kv look_put [OF Cons.prems(1)] map_add_def split: option.splits)
qed simp

end

definition proper_name :: "jstr \<Rightarrow> bool" where
  "proper_name k \<longleftrightarrow> k \<noteq> js ''__proto__''"

text \<open>The two tables of an environment exist and are different objects.\<close>

definition env_wf :: "'x hb_scheme \<Rightarrow> bool" where
  "env_wf s \<longleftrightarrow> helpers_ref s < length (tables s) \<and> partials_ref s < length (tables s) \<and> helpers_ref s \<noteq> partials_ref s"

definition helper_named :: "'x hb_scheme \<Rightarrow> jstr \<Rightarrow> jsval" where
  "helper_named s k = get_prop (table_of (helpers_ref s) s) k"

definition partial_named :: "'x hb_scheme \<Rightarrow> jstr \<Rightarrow> jsval" where
  "partial_named s k = get_prop (table_of (partials_ref s) s) k"

definition put_helper :: "'x hb_scheme engine \<Rightarrow> jstr \<Rightarrow> jsval \<Rightarrow> 'x hb_scheme \<Rightarrow> 'x hb_scheme" where
  "put_helper E k v s = snd (registerHelper E (JStr k) v JUndefined s)"

definition put_partial :: "'x hb_scheme engine \<Rightarrow> jstr \<Rightarrow> jsval \<Rightarrow> 'x hb_scheme \<Rightarrow> 'x hb_scheme" where
  "put_partial E k v s = snd (registerPartial E (JStr k) v s)"

lemma table_of_set_table [simp]:
  "r < length (tables s) \<Longrightarrow> table_of r' (set_table r t s) = (if r' = r then t else table_of r' s)"
  by (auto simp: table_of_def set_table_def)

lemma set_table_fields [simp]:
  "helpers_ref (set_table r t s) = helpers_ref s" "partials_ref (set_table r t s) = partials_ref s"
  "length (tables (set_table r t s)) = length (tables s)" "closures (set_table r t s) = closures s"
  "next_fun (set_table r t s) = next_fun s"
  by (simp_all add: set_table_def)

lemma env_wf_set_table [simp]: "env_wf (set_table r t s) = env_wf s"
  by (simp add: env_wf_def)

lemma registerHelper_string:
  "registerHelper E (JStr k) v JUndefined s =
     (Inr (), set_table (helpers_ref s) (assign_prop (table_of (helpers_ref s) s) k v) s)"
  by (simp add: registerHelper_def object_props_def)

lemma registerPartial_string:
  "registerPartial E (JStr k) v s =
     (Inr (), set_table (partials_ref s) (assign_prop (table_of (partials_ref s) s) k v) s)"
  by (simp add: registerPartial_def object_props_def)

interpretation helpers_reg: registry env_wf proper_name "put_helper E" helper_named
  by unfold_locales
    (auto simp: proper_name_def put_helper_def registerHelper_string helper_named_def env_wf_def)

interpretation partials_reg: registry env_wf proper_name "put_partial E" partial_named
  by unfold_locales
    (auto simp: proper_name_def put_partial_def registerPartial_string partial_named_def env_wf_def)

lemma put_helper_partial [simp]: "env_wf s \<Longrightarrow> partial_named (put_helper E k v s) = partial_named s"
  by (auto simp: put_helper_def registerHelper_string partial_named_def env_wf_def fun_eq_iff)

lemma put_partial_helper [simp]: "env_wf s \<Longrightarrow> helper_named (put_partial E k v s) = helper_named s"
  by (auto simp: put_partial_def registerPartial_string helper_named_def env_wf_def fun_eq_iff)

lemma register_all_fold: "register_all E fs s = (Inr (), fold (\<lambda>(k, v). put_helper E k v) (map (apsnd JFun) fs) s)"
  by (induction fs arbitrary: s)
    (auto simp: put_helper_def registerHelper_string bindS_def)

lemma puts_partial: "env_wf s \<Longrightarrow> partial_named (fold (\<lambda>(k, v). put_helper E k v) kvs s) = partial_named s"
  by (induction kvs arbitrary: s) (auto simp: helpers_reg.ok_put)

text \<open>The state after \<open>new HandlebarsEnvironment()\<close> and before the default helpers.\<close>

lemma new_environment:
  "HandlebarsEnvironment E None None s =
     registerDefaultHelpers E (s\<lparr>tables := tables s @ [[], []], helpers_ref := length (tables s), partials_ref := Suc (length (tables s))\<rparr>)"
  by (simp add: HandlebarsEnvironment_def Let_def)

lemma new_environment_named:
  fixes s :: "'x hb_scheme"
  assumes "HandlebarsEnvironment E None None s = (r, e)"
  shows "r = Inr ()" "env_wf e" "partial_named e k = object_member k"
    "helper_named e k = (case map_of default_table k of Some n \<Rightarrow> JFun n | None \<Rightarrow> object_member k)"
proof -
  let ?s0 = "s\<lparr>tables := tables s @ [[], []], helpers_ref := length (tables s), partials_ref := Suc (length (tables s))\<rparr>"
  have wf: "env_wf ?s0" by (simp add: env_wf_def)
  from assms show "r = Inr ()" by (simp add: new_environment registerDefaultHelpers_def register_all_fold)
  from assms have e: "e = fold (\<lambda>(k, v). put_helper E k v) (map (apsnd JFun) default_table) ?s0"
    by (simp add: new_environment registerDefaultHelpers_def register_all_fold)
  show "env_wf e" unfolding e by (rule helpers_reg.ok_puts [OF wf])
  have "map_of (rev (map (apsnd JFun) default_table)) k = map_option JFun (map_of default_table k)"
    by (simp add: default_table_def)
  moreover have pn: "\<forall>k \<in> fst ` set (map (apsnd JFun) default_table). proper_name k"
    by (simp add: default_table_def proper_name_def)
  ultimately show "helper_named e k = (case map_of default_table k of Some n \<Rightarrow> JFun n | None \<Rightarrow> object_member k)"
    unfolding e helpers_reg.look_puts [OF wf pn]
    by (auto simp: helper_named_def table_of_def get_prop_def nth_append split: option.splits)
  show "partial_named e k = object_member k"
    unfolding e puts_partial [OF wf] by (simp add: partial_named_def table_of_def get_prop_def nth_append)
qed

text \<open>
  C14.  In a new environment the names of the seven default helpers find these; every other helper
  name, and every partial name, finds what every object inherits under it, which is nothing
  unless it is one of the names of \<open>Object.prototype\<close>.  From then on the latest registration of a name is
  what a look-up finds: registering a sequence of helpers, none of them under the name \<open>__proto__\<close>,
  changes exactly the names in it, the last value of each name wins, and the partials are untouched.
\<close>

theorem environment_registry:
  fixes s :: "'x hb_scheme" and E :: "'x hb_scheme engine"
  assumes "js ''__proto__'' \<notin> fst ` set kvs"
  shows "let (r, e) = HandlebarsEnvironment E None None s; e' = fold (\<lambda>(k, v). put_helper E k v) kvs e in
    r = Inr () \<and>
    helper_named e' k =
      (case map_of (rev kvs) k of
         Some v \<Rightarrow> v
       | None \<Rightarrow> (case map_of default_table k of Some n \<Rightarrow> JFun n | None \<Rightarrow> object_member k)) \<and>
    partial_named e' k = object_member k \<and>
    (k \<notin> set object_prototype \<longrightarrow> object_member k = JUndefined)"
proof -
  obtain r e where e: "HandlebarsEnvironment E None None s = (r, e)" by fastforce
  have "\<forall>k \<in> fst ` set kvs. proper_name k" using assms unfolding proper_name_def by metis
  with new_environment_named [OF e] show ?thesis
    by (simp add: e helpers_reg.look_puts puts_partial object_member_other split: option.split)
qed

section \<open>The \<open>each\<close> helper\<close>

text \<open>The sequence of actions, with the results collected.\<close>

fun seqS :: "('s, 'a) act list \<Rightarrow> ('s, 'a list) act" where
  "seqS [] = returnS []"
| "seqS (m # ms) = bindS m (\<lambda>x. bindS (seqS ms) (\<lambda>xs. returnS (x # xs)))"

lemma js_literals_distinct [simp]:
  "js ''index'' \<noteq> js ''first''" "js ''index'' \<noteq> js ''last''" "js ''first'' \<noteq> js ''last''"
  by (simp_all add: js_def)

lemma index_frame_again [simp]: "index_frame j n (index_frame i n d) = index_frame j n d"
proof -
  let ?k1 = "js ''index''" and ?k2 = "js ''first''" and ?k3 = "js ''last''"
  note d = js_literals_distinct js_literals_distinct [symmetric]
  have "index_frame j n (obj_set (obj_set (obj_set d ?k1 a) ?k2 b) ?k3 c) = index_frame j n d" for a b c
    unfolding index_frame_def
    by (simp add: obj_set_commute [of ?k1 _ ?k3, symmetric] obj_set_commute [of ?k1 _ ?k2, symmetric]
      obj_set_commute [of ?k2 _ ?k3, symmetric] d del: js_Cons)
  then show ?thesis by (simp add: index_frame_def [of i])
qed

lemma each_array_seq:
  "each_array E (Some fn) i n vs d ret =
     bindS (seqS (map (\<lambda>j. fn (vs ! j) (map_option (index_frame (i + j) n) d)) [0..<length vs]))
       (\<lambda>rs. returnS (ret @ concat (map (toStr (src E)) rs)))"
proof (induction vs arbitrary: i d ret)
  case (Cons v vs)
  have *: "map (\<lambda>j. fn ((v # vs) ! j) (map_option (index_frame (i + j) n) d)) [0..<length (v # vs)] =
      fn v (map_option (index_frame i n) d) #
      map (\<lambda>j. fn (vs ! j) (map_option (index_frame (Suc i + j) n) (map_option (index_frame i n) d))) [0..<length vs]"
    by (simp add: option.map_comp comp_def upt_conv_Cons del: upt_Suc flip: map_Suc_upt)
  show ?case
    unfolding * by (simp add: Cons.IH call_block_def bindS_assoc Let_def)
qed simp

lemma map_of_index_frame:
  "map_of (index_frame i n d) =
     (map_of d)(js ''index'' \<mapsto> JNum (int i), js ''first'' \<mapsto> JBool (i = 0), js ''last'' \<mapsto> JBool (Suc i = n))"
  by (simp add: index_frame_def del: js_Cons)

lemma map_of_createFrame [simp]: "map_of (createFrame d) = map_of (rev d)"
  by (simp add: createFrame_def map_of_extend)

lemma each_array:
  "each E this (JArr vs) (opts\<lparr>h_fn := Some fn\<rparr>) =
     (if vs = [] then call_block (h_inverse opts) this None
      else bindS (seqS (map (\<lambda>i. fn (vs ! i) (map_option (\<lambda>d. index_frame i (length vs) (createFrame d)) (h_data opts))) [0..<length vs]))
             (\<lambda>rs. returnS (JStr (concat (map (toStr (src E)) rs)))))"
  by (simp add: each_def resolve_def each_array_seq bindS_assoc option.map_comp comp_def Let_def)

text \<open>
  C15.  Iterating over an array runs the block once per element, in order, and stops at the first
  block that throws; the text is the concatenation of the results.  The data frame of the element
  at index \<open>i\<close> is a copy of the given one with \<open>index\<close>, \<open>first\<close> and \<open>last\<close> set.  An empty array runs
  the inverse block once and nothing else.
\<close>

theorem each_iterates:
  "each E this (JArr vs) (opts\<lparr>h_fn := Some fn\<rparr>) =
     (if vs = [] then call_block (h_inverse opts) this None
      else bindS (seqS (map (\<lambda>i. fn (vs ! i) (map_option (\<lambda>d. index_frame i (length vs) (createFrame d)) (h_data opts))) [0..<length vs]))
             (\<lambda>rs. returnS (JStr (concat (map (toStr (src E)) rs))))) \<and>
   map_of (index_frame i n (createFrame d)) =
     (map_of (rev d))(js ''index'' \<mapsto> JNum (int i), js ''first'' \<mapsto> JBool (i = 0), js ''last'' \<mapsto> JBool (Suc i = n))"
  by (simp only: each_array map_of_index_frame map_of_createFrame)

section \<open>Conditionals and sections\<close>

text \<open>The value shows the positive branch: it is truthy and not an empty array, or it is 0 and \<open>includeZero\<close> is set.\<close>

definition shows_block :: "frame \<Rightarrow> jsval \<Rightarrow> bool" where
  "shows_block h v \<longleftrightarrow> (truthy v \<and> v \<noteq> JArr []) \<or> (v = JNum 0 \<and> truthy (get_prop h (js ''includeZero'')))"

lemma if_branch:
  "\<not> isFunction v \<Longrightarrow> if_helper E this v opts =
     call_block (if shows_block (h_hash opts) v then h_fn opts else h_inverse opts) this None"
  by (cases v) (auto simp: if_helper_def resolve_def shows_block_def isEmpty_def isArray_def isFunction_def)

lemma unless_default:
  "helper_named s (js ''if'') = JFun 3 \<Longrightarrow>
   unless_helper (Suc d) E this v opts s =
     if_helper E this v \<lparr>h_fn = h_inverse opts, h_inverse = h_fn opts, h_hash = h_hash opts, h_data = None\<rparr> s"
  by (simp add: helper_named_def)

text \<open>
  \<open>if\<close> and \<open>unless\<close> decide the same condition and take opposite branches, each exactly once, on
  the unchanged context: the positive branch of \<open>if\<close> is taken when the value is truthy and not an
  empty array, or is 0 with \<open>includeZero\<close>.
\<close>

theorem if_unless_opposite:
  assumes "\<not> isFunction v" and "helper_named s (js ''if'') = JFun 3"
  shows "if_helper E this v opts s =
           call_block (if shows_block (h_hash opts) v then h_fn opts else h_inverse opts) this None s \<and>
         unless_helper (Suc d) E this v opts s =
           call_block (if shows_block (h_hash opts) v then h_inverse opts else h_fn opts) this None s"
  by (simp add: if_branch [OF assms(1)] unless_default [OF assms(2)] del: unless_helper.simps js_Cons)

text \<open>A state and an engine for concrete runs.\<close>

definition sample_engine :: "hb engine" where
  "sample_engine = \<lparr>src = (\<lambda>n. js ''function () {}''), callf = (\<lambda>n this args. returnS JUndefined),
                    callh = (\<lambda>n this v opts. returnS JUndefined)\<rparr>"

definition sample_hb :: hb where
  "sample_hb = snd (HandlebarsEnvironment sample_engine None None
     \<lparr>tables = [], helpers_ref = 0, partials_ref = 0, nots = [], closures = [], next_fun = 19, log_level = 3,
      console_methods = [js ''error''], console = []\<rparr>)"

lemma sample_helpers:
  "helper_named sample_hb k = (case map_of default_table k of Some n \<Rightarrow> JFun n | None \<Rightarrow> object_member k)"
  unfolding sample_hb_def by (rule new_environment_named(4) [OF surjective_pairing])

definition sample_call :: "hb helper_options" where
  "sample_call = \<lparr>h_fn = Some (\<lambda>v d. returnS (JStr (js ''yes''))), h_inverse = Some (\<lambda>v d. returnS (JStr (js ''no''))),
                  h_hash = [], h_data = None\<rparr>"

theorem environment_registry_witness:
  "helper_named (put_helper sample_engine (js ''if'') (JFun 20) sample_hb) (js ''if'') = JFun 20 \<and>
   helper_named (put_helper sample_engine (js ''if'') (JFun 20) sample_hb) (js ''with'') = JFun 5 \<and>
   helper_named (put_helper sample_engine (js ''if'') (JFun 20) sample_hb) (js ''toString'') = JFun 15 \<and>
   partial_named (put_helper sample_engine (js ''if'') (JFun 20) sample_hb) (js ''page'') = JUndefined"
proof -
  let ?s = "\<lparr>tables = [], helpers_ref = 0, partials_ref = 0, nots = [], closures = [], next_fun = 19, log_level = 3,
      console_methods = [js ''error''], console = []\<rparr> :: hb"
  have p: "js ''__proto__'' \<notin> fst ` set [(js ''if'', JFun 20)]" by simp
  have k: "js ''with'' \<noteq> js ''if''" "js ''toString'' \<noteq> js ''if''" "js ''page'' \<notin> set object_prototype"
    "map_of default_table (js ''with'') = Some 5" "map_of default_table (js ''toString'') = None"
    "object_member (js ''toString'') = JFun 15" by code_simp+
  from environment_registry [OF p, where k = "js ''if''" and E = sample_engine and s = ?s]
    environment_registry [OF p, where k = "js ''with''" and E = sample_engine and s = ?s]
    environment_registry [OF p, where k = "js ''toString''" and E = sample_engine and s = ?s]
    environment_registry [OF p, where k = "js ''page''" and E = sample_engine and s = ?s]
  show ?thesis unfolding sample_hb_def using k by (simp add: split_beta Let_def del: js_Cons)
qed

theorem if_unless_opposite_witness:
  "\<not> isFunction (JNum 0) \<and> helper_named sample_hb (js ''if'') = JFun 3 \<and>
   if_helper sample_engine JNull (JNum 0) sample_call sample_hb = (Inr (JStr (js ''no'')), sample_hb) \<and>
   unless_helper (Suc 0) sample_engine JNull (JNum 0) sample_call sample_hb = (Inr (JStr (js ''yes'')), sample_hb)"
proof -
  have f: "\<not> isFunction (JNum 0)" by (simp add: isFunction_def)
  have h: "helper_named sample_hb (js ''if'') = JFun 3" by (simp add: sample_helpers default_table_def)
  have z: "get_prop [] (js ''includeZero'') = JUndefined" by code_simp
  have "\<not> shows_block (h_hash sample_call) (JNum 0)"
    using z by (simp add: shows_block_def sample_call_def del: js_Cons)
  with if_unless_opposite [OF f h, of sample_engine JNull sample_call 0] f h show ?thesis
    by (simp add: sample_call_def call_block_def del: js_Cons unless_helper.simps)
qed

text \<open>The helper behind \<open>{{#foo}}...{{/foo}}\<close>.\<close>

lemma section_array:
  "helper_named s (js ''each'') = JFun 2 \<Longrightarrow> vs \<noteq> [] \<Longrightarrow>
   blockHelperMissing (Suc d) E this (JArr vs) opts s = each E (JObj (table_of (helpers_ref s) s)) (JArr vs) opts s"
  by (simp add: helper_named_def resolve_def Let_def)

lemma section_false:
  "v \<in> {JBool False, JNull, JUndefined, JArr []} \<Longrightarrow>
   blockHelperMissing d E this v opts s =
     (case h_inverse opts of None \<Rightarrow> (Inr JUndefined, s) | Some g \<Rightarrow> g this None s)"
  by (auto simp: resolve_def call_block_def split: option.split)

lemma section_value:
  "\<not> isFunction v \<Longrightarrow> \<not> isArray v \<Longrightarrow> v \<notin> {JBool False, JNull, JUndefined} \<Longrightarrow>
   blockHelperMissing d E this v opts s = call_block (h_fn opts) (if v = JBool True then this else v) None s"
  by (cases v) (auto simp: resolve_def isFunction_def isArray_def)



text \<open>The debug output of the code generator is logged at the level \<open>"debug"\<close>, which is not a number: nothing is written.\<close>

lemma debug_log_silent: "logger_log None v s = (Inr (), s)"
  by (simp add: logger_log_def)

end
