(* ===== verification/HB_Lexer.thy ===== *)
theory HB_Lexer
  imports HB_AST
begin

text \<open>
  The generated lexer of \<open>handlebars.js\<close> (lines 902 to 1159): its state as a record, one definition
  per method, its 31 rules as functions that give the length of the match of the rule's regular
  expression at the start of the input, and the action switch.

  The regular expressions are translated one by one.  Lazy repetitions with a lookahead are
  \<open>lazy_until\<close>; the quoted-string rules follow the backtracking order of the engine.  The option
  \<open>ranges\<close> is never set, so the \<open>range\<close> fields are not modelled; neither is \<open>matches\<close>, which nothing
  reads.
\<close>

section \<open>Regular expressions\<close>

definition starts :: "jstr \<Rightarrow> jstr \<Rightarrow> bool" where
  "starts p s \<longleftrightarrow> take (length p) s = p"

text \<open>The class \<open>\s\<close>, and the line terminators that \<open>.\<close> does not match.\<close>

definition whitespace :: "jchar \<Rightarrow> bool" where
  "whitespace c \<longleftrightarrow>
     c \<in> {9, 10, 11, 12, 13, 32, 0xA0, 0x1680, 0x2028, 0x2029, 0x202F, 0x205F, 0x3000, 0xFEFF} \<or>
     (0x2000 \<le> c \<and> c \<le> 0x200A)"

definition dot :: "jchar \<Rightarrow> bool" where
  "dot c \<longleftrightarrow> c \<notin> {10, 13, 0x2028, 0x2029}"

definition wordChar :: "jchar \<Rightarrow> bool" where
  "wordChar c \<longleftrightarrow> (48 \<le> c \<and> c \<le> 57) \<or> (65 \<le> c \<and> c \<le> 90) \<or> c = 95 \<or> (97 \<le> c \<and> c \<le> 122)"

definition digit :: "jchar \<Rightarrow> bool" where
  "digit c \<longleftrightarrow> 48 \<le> c \<and> c \<le> 57"

text \<open>\<open>[^\x00]*?(?=stop)\<close> and its relatives: the shortest prefix of allowed characters before \<open>stop\<close>.\<close>

fun lazy_until :: "(jstr \<Rightarrow> bool) \<Rightarrow> (jchar \<Rightarrow> bool) \<Rightarrow> jstr \<Rightarrow> nat option" where
  "lazy_until stop ok [] = (if stop [] then Some 0 else None)"
| "lazy_until stop ok (c # s) =
     (if stop (c # s) then Some 0
      else if ok c then map_option Suc (lazy_until stop ok s) else None)"

definition lit :: "jstr \<Rightarrow> jstr \<Rightarrow> nat option" where
  "lit p s = (if starts p s then Some (length p) else None)"

text \<open>\<open>\{\{(~)?\<close> followed by a literal.\<close>

definition open_lit :: "jstr \<Rightarrow> jstr \<Rightarrow> nat option" where
  "open_lit p s =
     (if starts (js ''{{'') s
      then let k = (if starts (js ''~'') (drop 2 s) then 3 else 2)
           in if starts p (drop k s) then Some (k + length p) else None
      else None)"

text \<open>Lookahead classes \<open>[~}\s]\<close> and \<open>[=~}\s\/.]\<close> at the start of a string.\<close>

definition literal_end :: "jstr \<Rightarrow> bool" where
  "literal_end s = (case s of [] \<Rightarrow> False | c # _ \<Rightarrow> c = 126 \<or> c = 125 \<or> whitespace c)"

definition id_end :: "jstr \<Rightarrow> bool" where
  "id_end s = (case s of [] \<Rightarrow> False
               | c # _ \<Rightarrow> c = 61 \<or> c = 126 \<or> c = 125 \<or> whitespace c \<or> c = 47 \<or> c = 46)"

text \<open>\<open>[^\s!"#%-,\.\/;->@\[-\^`\{-~]\<close>\<close>

definition idChar :: "jchar \<Rightarrow> bool" where
  "idChar c \<longleftrightarrow>
     \<not> (whitespace c \<or> c \<in> {33, 34, 35, 46, 47, 64, 96} \<or> (37 \<le> c \<and> c \<le> 44) \<or>
        (59 \<le> c \<and> c \<le> 62) \<or> (91 \<le> c \<and> c \<le> 94) \<or> (123 \<le> c \<and> c \<le> 126))"

text \<open>\<open>(\\["]|[^"])*"\<close> after the opening quote \<open>q\<close>: the engine prefers the escaped quote and falls back.\<close>

fun quoted_rest :: "jchar \<Rightarrow> jstr \<Rightarrow> nat option" where
  "quoted_rest q [] = None"
| "quoted_rest q [c] = (if c = q then Some 1 else None)"
| "quoted_rest q (c # d # s) =
     (if c = q then Some 1
      else if c = 92 \<and> d = q
           then (case quoted_rest q s of
                   Some n \<Rightarrow> Some (n + 2)
                 | None \<Rightarrow> map_option Suc (quoted_rest q (d # s)))
           else map_option Suc (quoted_rest q (d # s)))"

definition quoted :: "jchar \<Rightarrow> jstr \<Rightarrow> nat option" where
  "quoted q s = (case s of [] \<Rightarrow> None
                 | c # s' \<Rightarrow> if c = q then map_option Suc (quoted_rest q s') else None)"

definition nonNul :: "jchar \<Rightarrow> bool" where
  "nonNul c \<longleftrightarrow> c \<noteq> 0"

text \<open>The table \<open>lexer.rules\<close>.\<close>

definition rule2 :: "jstr \<Rightarrow> nat option" where
  "rule2 s =
     (case s of
        a # b # s' \<Rightarrow>
          if nonNul a \<and> nonNul b
          then map_option (\<lambda>n. n + 2)
                 (lazy_until (\<lambda>t. starts (js ''{{'') t \<or> starts (92 # js ''{{'') t \<or>
                                  starts (92 # 92 # js ''{{'') t \<or> t = []) nonNul s')
          else None
      | _ \<Rightarrow> None)"

definition rule8 :: "jstr \<Rightarrow> nat option" where
  "rule8 s =
     (if starts (js ''{{'') s
      then let k = (if starts (js ''~'') (drop 2 s) then 3 else 2);
               w = length (takeWhile whitespace (drop k s));
               t = drop (k + w) s
           in if starts (js ''else'') t \<and> (case drop 4 t of [] \<Rightarrow> True | c # _ \<Rightarrow> \<not> wordChar c)
              then Some (k + w + 4) else None
      else None)"

definition rule26 :: "jstr \<Rightarrow> nat option" where
  "rule26 s =
     (let k = (if starts (js ''-'') s then 1 else 0);
          d = length (takeWhile digit (drop k s))
      in if 0 < d \<and> literal_end (drop (k + d) s) then Some (k + d) else None)"

definition one_or_more :: "(jchar \<Rightarrow> bool) \<Rightarrow> jstr \<Rightarrow> nat option" where
  "one_or_more ok s = (let n = length (takeWhile ok s) in if 0 < n then Some n else None)"

definition rules :: "(jstr \<Rightarrow> nat option) list" where
  "rules =
     [lazy_until (starts (js ''{{'')) nonNul,
      one_or_more nonNul,
      rule2,
      (\<lambda>s. map_option (\<lambda>n. n + 4) (lazy_until (starts (js ''--}}'')) (\<lambda>_. True) s)),
      open_lit (js ''>''),
      open_lit (js ''#''),
      open_lit (js ''/''),
      open_lit (js ''^''),
      rule8,
      open_lit (js ''{''),
      open_lit (js ''&''),
      lit (js ''{{!--''),
      (\<lambda>s. if starts (js ''{{!'') s
           then map_option (\<lambda>n. n + 5) (lazy_until (starts (js ''}}'')) (\<lambda>_. True) (drop 3 s))
           else None),
      open_lit [],
      lit (js ''=''),
      lit (js ''..''),
      (\<lambda>s. if starts (js ''.'') s \<and> id_end (drop 1 s) then Some 1 else None),
      (\<lambda>s. case s of [] \<Rightarrow> None | c # _ \<Rightarrow> if c = 47 \<or> c = 46 then Some 1 else None),
      one_or_more whitespace,
      (\<lambda>s. if starts (js ''}}}'') s then Some 3 else lit (js ''}~}}'') s),
      (\<lambda>s. if starts (js ''~}}'') s then Some 3 else lit (js ''}}'') s),
      quoted 34,
      quoted 39,
      lit (js ''@''),
      (\<lambda>s. if starts (js ''true'') s \<and> literal_end (drop 4 s) then Some 4 else None),
      (\<lambda>s. if starts (js ''false'') s \<and> literal_end (drop 5 s) then Some 5 else None),
      rule26,
      (\<lambda>s. case one_or_more idChar s of None \<Rightarrow> None | Some n \<Rightarrow> if id_end (drop n s) then Some n else None),
      (\<lambda>s. if starts (js ''['') s
           then map_option (\<lambda>n. n + 2) (lazy_until (starts (js '']'')) (\<lambda>_. True) (drop 1 s))
           else None),
      (\<lambda>s. case s of [] \<Rightarrow> None | c # _ \<Rightarrow> if dot c then Some 1 else None),
      (\<lambda>s. if s = [] then Some 0 else None)]"

section \<open>State and methods\<close>

datatype condition = INITIAL | MU | EMU | COM

record yyloc =
  first_line :: int
  last_line :: int
  first_column :: int
  last_column :: int

record lexer =
  lx_input :: jstr
  lx_more :: bool
  lx_done :: bool
  yylineno :: int
  yyleng :: nat
  yytext :: jstr
  matched :: jstr
  match :: jstr
  conditionStack :: "condition list"
  yylloc :: yyloc
  offset :: int

text \<open>A token is a terminal number of the grammar; \<open>INVALID\<close> is the string the grammar does not know.\<close>

datatype token = Tok nat | INVALID

definition conditions :: "condition \<Rightarrow> nat list" where
  "conditions c =
     (case c of
        MU \<Rightarrow> [4, 5, 6, 7, 8, 9, 10, 11, 12, 13, 14, 15, 16, 17, 18, 19, 20, 21, 22, 23, 24, 25, 26,
               27, 28, 29, 30]
      | EMU \<Rightarrow> [2]
      | COM \<Rightarrow> [3]
      | INITIAL \<Rightarrow> [0, 1, 30])"

definition setInput :: "jstr \<Rightarrow> lexer" where
  "setInput input =
     \<lparr>lx_input = input, lx_more = False, lx_done = False, yylineno = 0, yyleng = 0, yytext = [],
      matched = [], match = [], conditionStack = [INITIAL],
      yylloc = \<lparr>first_line = 1, last_line = 1, first_column = 0, last_column = 0\<rparr>, offset = 0\<rparr>"

text \<open>\<open>s.match(/(?:\r\n?|\n).*/g)\<close> and \<open>s.split(/(?:\r\n?|\n)/g)\<close>.\<close>

definition newline_len :: "jstr \<Rightarrow> nat" where
  "newline_len s =
     (case s of [] \<Rightarrow> 0
      | c # s' \<Rightarrow> if c = 13 then (if starts [10] s' then 2 else 1) else if c = 10 then 1 else 0)"

function newline_lines :: "jstr \<Rightarrow> jstr list" where
  "newline_lines s =
     (if s = [] then []
      else if newline_len s = 0 then newline_lines (drop 1 s)
      else let k = newline_len s + length (takeWhile dot (drop (newline_len s) s))
           in take k s # newline_lines (drop k s))"
  by pat_completeness auto
termination
  by (relation "measure length") auto

declare newline_lines.simps [simp del]

function split_lines :: "jstr \<Rightarrow> jstr \<Rightarrow> jstr list" where
  "split_lines acc s =
     (if s = [] then [acc]
      else if newline_len s = 0 then split_lines (acc @ take 1 s) (drop 1 s)
      else acc # split_lines [] (drop (newline_len s) s))"
  by pat_completeness auto
termination
  by (relation "measure (\<lambda>(acc, s). length s)") auto

declare split_lines.simps [simp del]

definition begin_cond :: "condition \<Rightarrow> lexer \<Rightarrow> lexer" where
  "begin_cond c lx = lx\<lparr>conditionStack := conditionStack lx @ [c]\<rparr>"

definition popState :: "lexer \<Rightarrow> lexer" where
  "popState lx = lx\<lparr>conditionStack := butlast (conditionStack lx)\<rparr>"

definition currentRules :: "lexer \<Rightarrow> nat list result" where
  "currentRules lx =
     (if conditionStack lx = [] then Inl TypeErr else Inr (conditions (last (conditionStack lx))))"

definition topState :: "lexer \<Rightarrow> condition option" where
  "topState lx =
     (if 2 \<le> length (conditionStack lx)
      then Some (conditionStack lx ! (length (conditionStack lx) - 2)) else None)"

text \<open>\<open>input\<close>, \<open>unput\<close>, \<open>more\<close> and \<open>less\<close>: the character interface of the generated lexer.\<close>

definition input_char :: "lexer \<Rightarrow> (jchar \<times> lexer) result" where
  "input_char lx =
     (case lx_input lx of
        [] \<Rightarrow> Inl TypeErr
      | ch # rest \<Rightarrow>
          let nl = (ch = 10 \<or> ch = 13)
          in Inr (ch, lx\<lparr>yytext := yytext lx @ [ch], yyleng := yyleng lx + 1, offset := offset lx + 1,
                        match := match lx @ [ch], matched := matched lx @ [ch],
                        yylineno := (if nl then yylineno lx + 1 else yylineno lx),
                        yylloc := (if nl then (yylloc lx)\<lparr>last_line := last_line (yylloc lx) + 1\<rparr>
                                   else (yylloc lx)\<lparr>last_column := last_column (yylloc lx) + 1\<rparr>),
                        lx_input := rest\<rparr>))"

definition unput :: "jstr \<Rightarrow> lexer \<Rightarrow> lexer result" where
  "unput ch lx =
     (let len = length ch;
          lines = split_lines [] ch;
          oldLines = split_lines [] (match lx);
          lineno = yylineno lx - int (length lines - 1);
          k = int (length oldLines) - int (length lines)
      in if k < 0 then Inl TypeErr
         else Inr (lx\<lparr>
           lx_input := ch @ lx_input lx,
           yytext := substr (yytext lx) 0 (int (length (yytext lx)) - int len - 1),
           offset := offset lx - int len,
           match := substr (match lx) 0 (int (length (match lx)) - 1),
           matched := substr (matched lx) 0 (int (length (matched lx)) - 1),
           yylineno := lineno,
           yylloc := \<lparr>first_line = first_line (yylloc lx),
                      last_line = lineno + 1,
                      first_column = first_column (yylloc lx),
                      last_column =
                        (if length lines = length oldLines then first_column (yylloc lx) else 0) +
                        int (length (oldLines ! nat k)) - int (length (hd lines))\<rparr>\<rparr>))"

definition more_text :: "lexer \<Rightarrow> lexer" where
  "more_text lx = lx\<lparr>lx_more := True\<rparr>"

definition less_chars :: "int \<Rightarrow> lexer \<Rightarrow> lexer result" where
  "less_chars n lx = unput (slice_from (match lx) n) lx"

text \<open>The position shown in error messages.\<close>

definition dropNewlines :: "jstr \<Rightarrow> jstr" where
  "dropNewlines s = filter (\<lambda>c. c \<noteq> 10) s"

definition pastInput :: "lexer \<Rightarrow> jstr" where
  "pastInput lx =
     (let past = substr (matched lx) 0 (int (length (matched lx)) - int (length (match lx)))
      in (if length past > 20 then js ''...'' else []) @ dropNewlines (substr past (- 20) (int (length past))))"

definition upcomingInput :: "lexer \<Rightarrow> jstr" where
  "upcomingInput lx =
     (let nxt = match lx;
          nxt = (if length nxt < 20 then nxt @ substr (lx_input lx) 0 (20 - int (length nxt)) else nxt)
      in dropNewlines (substr nxt 0 20 @ (if length nxt > 20 then js ''...'' else [])))"

definition showPosition :: "lexer \<Rightarrow> jstr" where
  "showPosition lx =
     (let pre = pastInput lx
      in pre @ upcomingInput lx @ [10] @ replicate (length pre) 45 @ js ''^'')"

section \<open>Actions\<close>

definition strip_text :: "int \<Rightarrow> int \<Rightarrow> lexer \<Rightarrow> lexer" where
  "strip_text start e lx = lx\<lparr>yytext := substr (yytext lx) start (int (yyleng lx) - e)\<rparr>"

text \<open>\<open>text.replace(/\\"/g,'"')\<close> and its single-quote twin.\<close>

fun unescape_quotes :: "jchar \<Rightarrow> jstr \<Rightarrow> jstr" where
  "unescape_quotes q [] = []"
| "unescape_quotes q [c] = [c]"
| "unescape_quotes q (c # d # s) =
     (if c = 92 \<and> d = q then q # unescape_quotes q s else c # unescape_quotes q (d # s))"

definition content_action :: "lexer \<Rightarrow> token option \<times> lexer" where
  "content_action lx =
     (let lx' = (if slice_from (yytext lx) (- 2) = [92, 92] then begin_cond MU (strip_text 0 1 lx)
                 else if slice_from (yytext lx) (- 1) = [92] then begin_cond EMU (strip_text 0 1 lx)
                 else begin_cond MU lx)
      in (if yytext lx' \<noteq> [] then Some (Tok 14) else None, lx'))"

definition lex_action :: "nat \<Rightarrow> lexer \<Rightarrow> token option \<times> lexer" where
  "lex_action r lx =
     (if r = 0 then content_action lx
      else if r = 1 then (Some (Tok 14), lx)
      else if r = 2 then (Some (Tok 14), popState lx)
      else if r = 3 then (Some (Tok 15), popState (strip_text 0 4 lx))
      else if r = 4 then (Some (Tok 25), lx)
      else if r = 5 then (Some (Tok 16), lx)
      else if r = 6 then (Some (Tok 20), lx)
      else if r = 7 then (Some (Tok 19), lx)
      else if r = 8 then (Some (Tok 19), lx)
      else if r = 9 then (Some (Tok 23), lx)
      else if r = 10 then (Some (Tok 22), lx)
      else if r = 11 then (None, begin_cond COM (popState lx))
      else if r = 12 then (Some (Tok 15), popState (strip_text 3 5 lx))
      else if r = 13 then (Some (Tok 22), lx)
      else if r = 14 then (Some (Tok 39), lx)
      else if r = 15 then (Some (Tok 38), lx)
      else if r = 16 then (Some (Tok 38), lx)
      else if r = 17 then (Some (Tok 42), lx)
      else if r = 18 then (None, lx)
      else if r = 19 then (Some (Tok 24), popState lx)
      else if r = 20 then (Some (Tok 18), popState lx)
      else if r = 21 then (Some (Tok 32), let lx' = strip_text 1 2 lx in lx'\<lparr>yytext := unescape_quotes 34 (yytext lx')\<rparr>)
      else if r = 22 then (Some (Tok 32), let lx' = strip_text 1 2 lx in lx'\<lparr>yytext := unescape_quotes 39 (yytext lx')\<rparr>)
      else if r = 23 then (Some (Tok 40), lx)
      else if r = 24 then (Some (Tok 34), lx)
      else if r = 25 then (Some (Tok 34), lx)
      else if r = 26 then (Some (Tok 33), lx)
      else if r = 27 then (Some (Tok 38), lx)
      else if r = 28 then (Some (Tok 38), strip_text 1 2 lx)
      else if r = 29 then (Some INVALID, lx)
      else if r = 30 then (Some (Tok 5), lx)
      else (None, lx))"

text \<open>The rule loop of \<open>next\<close>: without the option \<open>flex\<close> the first matching rule wins.\<close>

fun first_match :: "nat list \<Rightarrow> jstr \<Rightarrow> (nat \<times> nat) option" where
  "first_match [] s = None"
| "first_match (r # rs) s =
     (case (rules ! r) s of Some n \<Rightarrow> Some (r, n) | None \<Rightarrow> first_match rs s)"

definition advance :: "nat \<Rightarrow> lexer \<Rightarrow> lexer" where
  "advance n lx =
     (let m = take n (lx_input lx);
          lines = newline_lines m;
          lineno = yylineno lx + int (length lines);
          text = yytext lx @ m
      in lx\<lparr>yylineno := lineno,
            yylloc := \<lparr>first_line = last_line (yylloc lx),
                       last_line = lineno + 1,
                       first_column = last_column (yylloc lx),
                       last_column =
                         (if lines \<noteq> [] then int (length (last lines)) - int (newline_len (last lines))
                          else last_column (yylloc lx) + int (length m))\<rparr>,
            yytext := text,
            match := match lx @ m,
            yyleng := length text,
            lx_more := False,
            lx_input := drop n (lx_input lx),
            matched := matched lx @ m\<rparr>)"

definition lexical_error :: "lexer \<Rightarrow> js_error" where
  "lexical_error lx =
     Error (js ''Lexical error on line '' @ intToString (yylineno lx + 1) @
            js ''. Unrecognized text.'' @ [10] @ showPosition lx)"

definition prepare :: "lexer \<Rightarrow> lexer" where
  "prepare lx =
     (let lx1 = (if lx_input lx = [] then lx\<lparr>lx_done := True\<rparr> else lx)
      in if lx_more lx1 then lx1 else lx1\<lparr>yytext := [], match := []\<rparr>)"

definition next_token :: "lexer \<Rightarrow> (token option \<times> lexer) result" where
  "next_token lx =
     (if lx_done lx then Inr (Some (Tok 1), lx)
      else let lx1 = prepare lx
           in bindR (currentRules lx1) (\<lambda>rs.
             case first_match rs (lx_input lx1) of
               Some (r, n) \<Rightarrow>
                 let (tok, lx2) = lex_action r (advance n lx1);
                     lx3 = (if lx_done lx2 \<and> lx_input lx2 \<noteq> [] then lx2\<lparr>lx_done := False\<rparr> else lx2)
                 in Inr (tok, lx3)
             | None \<Rightarrow>
                 if lx_input lx1 = [] then Inr (Some (Tok 1), lx1)
                 else Inl (lexical_error lx1)))"

section \<open>Every match is a prefix; tokens and comments make progress\<close>

lemma lazy_until_Some: "lazy_until stop ok s = Some n \<Longrightarrow>
   n \<le> length s \<and> stop (drop n s) \<and> list_all ok (take n s) \<and> (\<forall>k<n. \<not> stop (drop k s))"
proof (induction s arbitrary: n)
  case (Cons c s)
  then show ?case
    by (auto split: if_splits simp: less_Suc_eq_0_disj)
qed (auto split: if_splits)

lemma starts_length: "starts p s \<Longrightarrow> length p \<le> length s"
  unfolding starts_def by (metis length_take min.cobounded1 min_def nat_le_linear)

lemma lazy_until_starts: "lazy_until (starts p) ok s = Some n \<Longrightarrow> n + length p \<le> length s"
  by (auto dest!: lazy_until_Some starts_length)

lemma lit_bound: "lit p s = Some n \<Longrightarrow> n = length p \<and> n \<le> length s"
  by (auto simp: lit_def dest: starts_length split: if_splits)

lemma open_lit_bound: "open_lit p s = Some n \<Longrightarrow> 0 < n \<and> n \<le> length s"
  by (auto simp: open_lit_def Let_def dest!: starts_length split: if_splits)

lemma one_or_more_bound: "one_or_more ok s = Some n \<Longrightarrow> 0 < n \<and> n \<le> length s"
  by (auto simp: one_or_more_def Let_def length_takeWhile_le split: if_splits)

lemma quoted_rest_bound: "quoted_rest q s = Some n \<Longrightarrow> 0 < n \<and> n \<le> length s"
  by (induction q s arbitrary: n rule: quoted_rest.induct) (auto split: if_splits option.splits)

lemma quoted_bound: "quoted q s = Some n \<Longrightarrow> 0 < n \<and> n \<le> length s"
  by (auto simp: quoted_def dest: quoted_rest_bound split: list.splits if_splits)

lemma rule2_bound: "rule2 s = Some n \<Longrightarrow> 0 < n \<and> n \<le> length s"
  by (auto simp: rule2_def dest: lazy_until_Some split: list.splits if_splits)

lemma rule8_bound: "rule8 s = Some n \<Longrightarrow> 0 < n \<and> n \<le> length s"
  by (auto simp: rule8_def Let_def dest!: starts_length split: if_splits list.splits)

lemma rule26_bound: "rule26 s = Some n \<Longrightarrow> 0 < n \<and> n \<le> length s"
  using length_takeWhile_le [of digit "drop 1 s"] length_takeWhile_le [of digit s]
  by (auto simp: rule26_def Let_def dest!: starts_length split: if_splits)

lemmas rule_bounds = open_lit_bound one_or_more_bound quoted_bound rule2_bound rule8_bound
  rule26_bound lit_bound

definition bounded_rule :: "nat \<Rightarrow> (jstr \<Rightarrow> nat option) \<Rightarrow> bool" where
  "bounded_rule m f \<longleftrightarrow> (\<forall>s n. f s = Some n \<longrightarrow> m \<le> n \<and> n \<le> length s)"

lemma rules_bounded:
  "list_all2 bounded_rule (0 # replicate 29 1 @ [0]) rules"
  unfolding rules_def
  by (simp add: numeral_eq_Suc bounded_rule_def, intro conjI)
    (auto dest!: rule_bounds lazy_until_starts starts_length lazy_until_Some
       split: if_splits option.splits list.splits)

lemma rule_bound:
  assumes "r < 31" and "(rules ! r) s = Some n"
  shows "n \<le> length s \<and> (r \<noteq> 0 \<longrightarrow> r \<noteq> 30 \<longrightarrow> 0 < n)"
proof -
  have len: "length (0 # replicate 29 1 @ [0 :: nat]) = 31" by simp
  have "bounded_rule ((0 # replicate 29 1 @ [0]) ! r) (rules ! r)"
    using list_all2_nthD [OF rules_bounded] assms(1) len by simp
  then have "(0 # replicate 29 1 @ [0]) ! r \<le> n \<and> n \<le> length s"
    using assms(2) by (simp add: bounded_rule_def)
  moreover have "r \<noteq> 0 \<longrightarrow> r \<noteq> 30 \<longrightarrow> (0 # replicate 29 1 @ [0]) ! r = (1 :: nat)"
    using assms(1) by (auto simp: nth_Cons' nth_append)
  ultimately show ?thesis by auto
qed

lemma first_match_Some:
  "first_match rs s = Some (r, n) \<Longrightarrow> r \<in> set rs \<and> (rules ! r) s = Some n"
  by (induction rs) (auto split: option.splits)

lemma conditions_less: "r \<in> set (conditions c) \<Longrightarrow> r < 31"
  by (auto simp: conditions_def split: condition.splits)


lemmas action_defs = lex_action_def content_action_def begin_cond_def popState_def strip_text_def

lemma lex_action_frame [simp]:
  "lx_input (snd (lex_action r lx)) = lx_input lx"
  "matched (snd (lex_action r lx)) = matched lx"
  "lx_more (snd (lex_action r lx)) = lx_more lx"
  by (simp_all add: action_defs Let_def)

lemma advance_frame [simp]:
  "lx_input (advance n lx) = drop n (lx_input lx)"
  "matched (advance n lx) = matched lx @ take n (lx_input lx)"
  "lx_more (advance n lx) = False"
  "conditionStack (advance n lx) = conditionStack lx"
  "yytext (advance n lx) = yytext lx @ take n (lx_input lx)"
  "yyleng (advance n lx) = length (yytext lx @ take n (lx_input lx))"
  by (simp_all add: advance_def Let_def)

lemma prepare_frame [simp]:
  "lx_input (prepare lx) = lx_input lx" "matched (prepare lx) = matched lx"
  "lx_more (prepare lx) = lx_more lx" "conditionStack (prepare lx) = conditionStack lx"
  by (simp_all add: prepare_def Let_def)

text \<open>What a successful call of \<open>next\<close> did.\<close>

lemma next_token_cases:
  assumes "next_token lx = Inr (t, lx')"
  obtains (eof) "t = Some (Tok 1)" "lx_input lx' = lx_input lx" "conditionStack lx' = conditionStack lx"
      "matched lx' = matched lx" "lx_more lx' = lx_more lx"
  | (rule) r n where "conditionStack lx \<noteq> []" "r \<in> set (conditions (last (conditionStack lx)))"
      "(rules ! r) (lx_input lx) = Some n" "n \<le> length (lx_input lx)"
      "t = fst (lex_action r (advance n (prepare lx)))"
      "conditionStack lx' = conditionStack (snd (lex_action r (advance n (prepare lx))))"
      "yytext lx' = yytext (snd (lex_action r (advance n (prepare lx))))"
      "lx_input lx' = drop n (lx_input lx)" "matched lx' = matched lx @ take n (lx_input lx)"
      "lx_more lx' = False"
proof (cases "lx_done lx")
  case True
  with assms show ?thesis by (intro eof) (auto simp: next_token_def)
next
  case False
  with assms have ne: "conditionStack lx \<noteq> []"
    by (auto simp: next_token_def currentRules_def Let_def)
  let ?rs = "conditions (last (conditionStack lx))"
  show ?thesis
  proof (cases "first_match ?rs (lx_input lx)")
    case None
    with assms False ne show ?thesis
      by (intro eof) (auto simp: next_token_def currentRules_def Let_def split: if_splits)
  next
    case (Some rn)
    obtain r n where rn: "rn = (r, n)" by (cases rn)
    have m: "r \<in> set ?rs" "(rules ! r) (lx_input lx) = Some n"
      using first_match_Some Some rn by blast+
    have "n \<le> length (lx_input lx)" using rule_bound conditions_less m by blast
    with m ne show ?thesis
      using assms False Some rn
      by (intro rule [of r n]) (auto simp: next_token_def currentRules_def Let_def split_beta split: if_splits)
  qed
qed

definition lex_measure :: "lexer \<Rightarrow> nat" where
  "lex_measure lx =
     2 * length (lx_input lx) +
     (if conditionStack lx \<noteq> [] \<and> last (conditionStack lx) = INITIAL then 1 else 0)"

lemma lex_action_None:
  "r \<in> set (conditions c) \<Longrightarrow> fst (lex_action r lx) = None \<Longrightarrow>
     r = 0 \<and> last (conditionStack (snd (lex_action r lx))) \<noteq> INITIAL \<or>
     r = 11 \<and> last (conditionStack (snd (lex_action r lx))) \<noteq> INITIAL \<or>
     r = 18 \<and> conditionStack (snd (lex_action r lx)) = conditionStack lx"
  by (cases c) (auto simp: conditions_def action_defs Let_def split: if_splits)

lemma next_token_silent: "next_token lx = Inr (None, lx') \<Longrightarrow> lex_measure lx' < lex_measure lx"
proof (erule next_token_cases)
  fix r n
  assume ne: "conditionStack lx \<noteq> []" and r: "r \<in> set (conditions (last (conditionStack lx)))"
    and m: "(rules ! r) (lx_input lx) = Some n" and n: "n \<le> length (lx_input lx)"
    and t: "None = fst (lex_action r (advance n (prepare lx)))"
    and c: "conditionStack lx' = conditionStack (snd (lex_action r (advance n (prepare lx))))"
    and i: "lx_input lx' = drop n (lx_input lx)"
  have "r < 31" using conditions_less r by blast
  from lex_action_None [OF r t [symmetric]]
  consider "r = 0" "last (conditionStack lx') \<noteq> INITIAL" | "r = 11" "last (conditionStack lx') \<noteq> INITIAL"
    | "r = 18" "conditionStack lx' = conditionStack lx"
    by (auto simp: c)
  then show "lex_measure lx' < lex_measure lx"
  proof cases
    case 1
    then have "last (conditionStack lx) = INITIAL"
      using r by (auto simp: conditions_def split: condition.splits)
    with 1 ne i show ?thesis by (simp add: lex_measure_def)
  next
    case 2
    then show ?thesis using rule_bound [OF \<open>r < 31\<close> m] i by (auto simp: lex_measure_def)
  next
    case 3
    then show ?thesis using rule_bound [OF \<open>r < 31\<close> m] i by (auto simp: lex_measure_def)
  qed
qed simp

text \<open>\<open>lex\<close> calls \<open>next\<close> until it gives a token.\<close>

function lex :: "lexer \<Rightarrow> (token \<times> lexer) result" where
  "lex lx =
     bindR (next_token lx) (\<lambda>(t, lx').
       case t of Some tok \<Rightarrow> Inr (tok, lx') | None \<Rightarrow> lex lx')"
  by pat_completeness auto
termination
  by (relation "measure lex_measure") (auto dest: next_token_silent)

declare lex.simps [simp del]

section \<open>Reachable lexer states\<close>

text \<open>The states the lexer goes through on an input: the start state and the results of \<open>next\<close>.\<close>

inductive lexer_reachable :: "jstr \<Rightarrow> lexer \<Rightarrow> bool" for input where
  lexer_start: "lexer_reachable input (setInput input)"
| lexer_step: "lexer_reachable input lx \<Longrightarrow> next_token lx = Inr (t, lx') \<Longrightarrow> lexer_reachable input lx'"

definition lexer_ok :: "lexer \<Rightarrow> bool" where
  "lexer_ok lx \<longleftrightarrow>
     \<not> lx_more lx \<and> conditionStack lx \<in> {[INITIAL], [INITIAL, MU], [INITIAL, EMU], [INITIAL, COM]}"

lemma lex_action_stack:
  assumes "cs \<in> {[INITIAL], [INITIAL, MU], [INITIAL, EMU], [INITIAL, COM]}"
    and "r \<in> set (conditions (last cs))" and "conditionStack lx = cs"
  shows "conditionStack (snd (lex_action r lx)) \<in> {[INITIAL], [INITIAL, MU], [INITIAL, EMU], [INITIAL, COM]}"
  using assms by (auto simp: conditions_def action_defs Let_def)

lemma next_token_ok: "lexer_ok lx \<Longrightarrow> next_token lx = Inr (t, lx') \<Longrightarrow> lexer_ok lx'"
proof (erule next_token_cases)
  assume "lexer_ok lx" "conditionStack lx' = conditionStack lx" "lx_more lx' = lx_more lx"
  then show "lexer_ok lx'" by (simp add: lexer_ok_def)
next
  fix r n
  assume ok: "lexer_ok lx" and r: "r \<in> set (conditions (last (conditionStack lx)))"
    and c: "conditionStack lx' = conditionStack (snd (lex_action r (advance n (prepare lx))))"
    and "lx_more lx' = False"
  moreover have "conditionStack (snd (lex_action r (advance n (prepare lx)))) \<in> {[INITIAL], [INITIAL, MU], [INITIAL, EMU], [INITIAL, COM]}"
    using ok r by (intro lex_action_stack) (auto simp: lexer_ok_def)
  ultimately show "lexer_ok lx'" by (simp add: lexer_ok_def)
qed

lemma next_token_no_TypeErr: "lexer_ok lx \<Longrightarrow> next_token lx \<noteq> Inl TypeErr"
  by (auto simp: lexer_ok_def next_token_def currentRules_def lexical_error_def Let_def split: option.splits prod.splits)

lemma next_token_text: "next_token lx = Inr (t, lx') \<Longrightarrow> matched lx' @ lx_input lx' = matched lx @ lx_input lx"
  by (erule next_token_cases) simp_all

text \<open>
  C5.  In every state the lexer can reach, the condition stack is \<open>INITIAL\<close> alone or \<open>INITIAL\<close>
  with one of \<open>mu\<close>, \<open>emu\<close>, \<open>com\<close> on top (so no \<open>popState\<close> ever removes \<open>INITIAL\<close> and reading
  the rules of the current condition never fails), and the text matched so far followed by the
  remaining input is the whole input: the lexer never loses or repeats a character.
\<close>

theorem lexer_reachable_ok:
  "lexer_reachable input lx \<Longrightarrow>
     lexer_ok lx \<and> next_token lx \<noteq> Inl TypeErr \<and> matched lx @ lx_input lx = input"
proof (induction rule: lexer_reachable.induct)
  case lexer_start
  have "lexer_ok (setInput input)" by (simp add: lexer_ok_def setInput_def)
  then show ?case by (simp add: next_token_no_TypeErr) (simp add: setInput_def)
next
  case (lexer_step lx t lx')
  then show ?case by (metis next_token_ok next_token_no_TypeErr next_token_text)
qed

theorem lexer_reachable_ok_witness:
  "lexer_reachable (js ''{{a}}'') (setInput (js ''{{a}}'')) \<and> lexer_ok (setInput (js ''{{a}}''))"
  using lexer_reachable.lexer_start [of "js ''{{a}}''"]
    lexer_reachable_ok [OF lexer_reachable.lexer_start, of "js ''{{a}}''"] by blast

lemma lex_action_progress:
  "r \<in> set (conditions c) \<Longrightarrow> fst (lex_action r lx) = Some tok \<Longrightarrow> tok \<noteq> Tok 1 \<and> (r = 30 \<longrightarrow> tok = Tok 5)"
  by (cases c) (auto simp: conditions_def action_defs Let_def split: if_splits)

lemma next_token_progress:
  assumes "next_token lx = Inr (Some tok, lx')" and "tok \<noteq> Tok 1" and "tok \<noteq> Tok 5" and "\<not> lx_more lx"
  shows "length (lx_input lx') < length (lx_input lx)"
  using assms(1)
proof (cases rule: next_token_cases)
  case (rule r n)
  have "r < 31" using conditions_less rule(2) by blast
  have "r \<noteq> 30" using lex_action_progress [OF rule(2) rule(5) [symmetric]] assms by auto
  have "0 < n"
  proof (cases "r = 0")
    case True
    show ?thesis
    proof (rule ccontr)
      assume "\<not> 0 < n"
      then have "fst (lex_action r (advance n (prepare lx))) = None"
        using True assms(4) by (simp add: action_defs Let_def prepare_def substr_def)
      with rule(5) show False by simp
    qed
  next
    case False
    then show ?thesis using rule_bound [OF \<open>r < 31\<close> rule(3)] \<open>r \<noteq> 30\<close> by simp
  qed
  with rule(4,8) show ?thesis by simp
qed (use assms in simp)

lemma next_token_input: "next_token lx = Inr (t, lx') \<Longrightarrow> length (lx_input lx') \<le> length (lx_input lx)"
  by (erule next_token_cases) simp_all

lemma lex_cases:
  assumes "lex lx = Inr (tok, lx')"
  obtains (token) "next_token lx = Inr (Some tok, lx')"
  | (silent) lx1 where "next_token lx = Inr (None, lx1)" "lex lx1 = Inr (tok, lx')"
proof -
  from assms have "bindR (next_token lx) (\<lambda>(t, lx').
       case t of Some tok \<Rightarrow> Inr (tok, lx') | None \<Rightarrow> lex lx') = Inr (tok, lx')"
    by (simp add: lex.simps [of lx])
  then obtain t lx1 where "next_token lx = Inr (t, lx1)"
    and "(case t of Some tok \<Rightarrow> Inr (tok, lx1) | None \<Rightarrow> lex lx1) = Inr (tok, lx')"
    by (auto simp: bindR_Inr_iff)
  then show ?thesis by (cases t) (auto intro: token silent)
qed

lemma lex_ok: "lexer_ok lx \<Longrightarrow> lex lx = Inr (tok, lx') \<Longrightarrow> lexer_ok lx'"
proof (induction lx rule: lex.induct)
  case (1 lx)
  from 1(3) show ?case
  proof (cases rule: lex_cases)
    case (silent lx1)
    from 1(1) [OF silent(1) refl refl next_token_ok [OF 1(2) silent(1)] silent(2)] show ?thesis .
  qed (rule next_token_ok [OF 1(2)])
qed

lemma lex_progress:
  "lexer_ok lx \<Longrightarrow> lex lx = Inr (tok, lx') \<Longrightarrow>
     length (lx_input lx') \<le> length (lx_input lx) \<and>
     (tok \<noteq> Tok 1 \<and> tok \<noteq> Tok 5 \<longrightarrow> length (lx_input lx') < length (lx_input lx))"
proof (induction lx rule: lex.induct)
  case (1 lx)
  from 1(3) show ?case
  proof (cases rule: lex_cases)
    case token
    then show ?thesis using next_token_input next_token_progress 1(2) by (metis lexer_ok_def)
  next
    case (silent lx1)
    from 1(1) [OF silent(1) refl refl next_token_ok [OF 1(2) silent(1)] silent(2)] next_token_input [OF silent(1)]
    show ?thesis by auto
  qed
qed

lemma lex_no_TypeErr: "lexer_ok lx \<Longrightarrow> lex lx \<noteq> Inl TypeErr"
proof (induction lx rule: lex.induct)
  case (1 lx)
  show ?case
  proof (cases "next_token lx")
    case (Inl e)
    then show ?thesis using next_token_no_TypeErr [OF 1(2)] by (simp add: lex.simps [of lx])
  next
    case (Inr p)
    then show ?thesis using 1(1) [OF Inr] next_token_ok [OF 1(2)]
      by (simp add: lex.simps [of lx] split: option.split prod.split)
  qed
qed

lemma lex_text: "lex lx = Inr (tok, lx') \<Longrightarrow> matched lx' @ lx_input lx' = matched lx @ lx_input lx"
proof (induction lx rule: lex.induct)
  case (1 lx)
  from 1(2) show ?case
  proof (cases rule: lex_cases)
    case (silent lx1)
    with 1(1) [OF silent(1) refl refl silent(2)] next_token_text show ?thesis by metis
  qed (rule next_token_text)
qed

end
