(* ===== verification/HB_LR.thy ===== *)
theory HB_LR
  imports Main
begin

text \<open>
  Shift-reduce automata.  A table-driven parser keeps a stack of states and grammar symbols with a
  semantic value per symbol.  This theory states what the tables of such a parser have to satisfy,
  as a locale over the transition function, the kernel items of each state and the productions,
  and proves once what follows for the stack: when a state reduces by a production, the top of the
  stack spells its right-hand side, the state below has a transition for its left-hand side, and
  the reduction makes the stack lighter in a fixed weighting of the states.
\<close>

text \<open>
  \<open>spell D Xs u vs\<close>: the symbols \<open>Xs\<close> derive the consecutive parts of the text \<open>u\<close> with the
  values \<open>vs\<close>, the value of the last symbol first.
\<close>

inductive spell :: "(nat \<Rightarrow> 'w list \<Rightarrow> 'v \<Rightarrow> bool) \<Rightarrow> nat list \<Rightarrow> 'w list \<Rightarrow> 'v list \<Rightarrow> bool" for D where
  spell_Nil: "spell D [] [] []"
| spell_snoc: "spell D Xs us vs \<Longrightarrow> D X u v \<Longrightarrow> spell D (Xs @ [X]) (us @ u) (v # vs)"

lemma spell_mono [mono]:
  assumes "\<And>X u v. D X u v \<longrightarrow> D' X u v"
  shows "spell D Xs u vs \<longrightarrow> spell D' Xs u vs"
proof
  assume "spell D Xs u vs"
  then show "spell D' Xs u vs" by induction (auto intro: spell.intros simp: assms)
qed

lemma spell_list_all2:
  assumes "spell D Xs u vs" and "\<And>X u v. D X u v \<Longrightarrow> P X v"
  shows "list_all2 P (rev Xs) vs"
  using assms(1) by induction (auto intro: assms(2))

text \<open>The stack alternates states and symbols, the top state first; \<open>vbot\<close> is the bottom value.\<close>

inductive lr_stack ::
    "(nat \<Rightarrow> nat \<Rightarrow> nat option) \<Rightarrow> (nat \<Rightarrow> 'w list \<Rightarrow> 'v \<Rightarrow> bool) \<Rightarrow> 'v \<Rightarrow>
     nat list \<Rightarrow> 'v list \<Rightarrow> 'w list \<Rightarrow> bool"
  for target D vbot where
  lr_bottom: "lr_stack target D vbot [0] [vbot] []"
| lr_push: "lr_stack target D vbot (s # st) vs w \<Longrightarrow> target s X = Some s' \<Longrightarrow> D X u v \<Longrightarrow>
     lr_stack target D vbot (s' # X # s # st) (v # vs) (w @ u)"

lemma lr_stack_values: "lr_stack target D vbot st vs w \<Longrightarrow> st \<noteq> [] \<and> length st + 1 = 2 * length vs"
  by (induction rule: lr_stack.induct) auto

locale lr_automaton =
  fixes target :: "nat \<Rightarrow> nat \<Rightarrow> nat option"
    and kernel :: "nat \<Rightarrow> (nat \<times> nat) list"
    and lhs :: "nat \<Rightarrow> nat"
    and rhs :: "nat \<Rightarrow> nat list"
    and reduces :: "nat \<Rightarrow> nat \<Rightarrow> bool"
    and weight :: "nat \<Rightarrow> nat"
    and unit :: nat
  assumes kernel_start: "kernel 0 = []"
    and kernel_target: "target s X = Some s' \<Longrightarrow> (p, d) \<in> set (kernel s') \<Longrightarrow>
      0 < d \<and> d \<le> length (rhs p) \<and> rhs p ! (d - 1) = X \<and>
      (if d = 1 then target s (lhs p) \<noteq> None else (p, d - 1) \<in> set (kernel s))"
    and reduce_item: "reduces s p \<Longrightarrow>
      (if rhs p = [] then target s (lhs p) \<noteq> None else (p, length (rhs p)) \<in> set (kernel s))"
    and reduce_weight: "reduces s p \<Longrightarrow> target s0 (lhs p) = Some t \<Longrightarrow>
      weight t + unit < weight s + unit * length (rhs p)"
begin

definition potential :: "nat list \<Rightarrow> nat" where
  "potential st = weight (hd st) + unit * (length (tl st) div 2)"

lemma lr_stack_pushed:
  assumes "lr_stack target D vbot (s # st) vs w" and "i \<in> set (kernel s)"
  obtains X s1 st1 v vs1 w1 u where "st = X # s1 # st1" "vs = v # vs1" "w = w1 @ u"
    "target s1 X = Some s" "D X u v" "lr_stack target D vbot (s1 # st1) vs1 w1"
  using assms(1)
proof (cases rule: lr_stack.cases)
  case lr_bottom
  with assms(2) show ?thesis by (simp add: kernel_start)
next
  case lr_push
  with that show ?thesis by blast
qed

lemma lr_stack_item:
  assumes "lr_stack target D vbot (s # st) vs w" and "(p, d) \<in> set (kernel s)"
  shows "\<exists>s0 rest vs0 vs1 w0 u. drop (2 * d) (s # st) = s0 # rest \<and> vs = vs1 @ vs0 \<and>
     length vs1 = d \<and> spell D (take d (rhs p)) u vs1 \<and> w = w0 @ u \<and>
     lr_stack target D vbot (s0 # rest) vs0 w0 \<and> target s0 (lhs p) \<noteq> None"
  using assms
proof (induction d arbitrary: s st vs w)
  case 0
  obtain X s1 where "target s1 X = Some s" by (rule lr_stack_pushed [OF 0])
  from kernel_target [OF this 0(2)] show ?case by simp
next
  case (Suc d)
  obtain X s1 st1 vs1 w1 u v where
    st: "st = X # s1 # st1" "vs = v # vs1" "w = w1 @ u" and t: "target s1 X = Some s"
    and D: "D X u v" and low: "lr_stack target D vbot (s1 # st1) vs1 w1"
    by (rule lr_stack_pushed [OF Suc.prems])
  note k = kernel_target [OF t Suc.prems(2)]
  have tk: "take (Suc d) (rhs p) = take d (rhs p) @ [X]"
    using k by (simp add: take_Suc_conv_app_nth)
  show ?case
  proof (cases "d = 0")
    case True
    then have "target s1 (lhs p) \<noteq> None" using k by simp
    moreover have "spell D (take (Suc d) (rhs p)) u [v]"
      using spell_snoc [OF spell_Nil, of D, OF D] True tk by simp
    ultimately show ?thesis using True low st
      by (intro exI [of _ s1] exI [of _ st1] exI [of _ vs1] exI [of _ "[v]"] exI [of _ w1] exI [of _ u]) simp
  next
    case False
    then have "(p, d) \<in> set (kernel s1)" using k by simp
    from Suc.IH [OF low this] obtain s0 rest vs0 vs2 w0 u0 where
      "drop (2 * d) (s1 # st1) = s0 # rest" "vs1 = vs2 @ vs0" "length vs2 = d"
      and sp: "spell D (take d (rhs p)) u0 vs2"
      and "w1 = w0 @ u0" "lr_stack target D vbot (s0 # rest) vs0 w0" "target s0 (lhs p) \<noteq> None"
      by blast
    then show ?thesis using st spell_snoc [where D = D, OF sp D] tk
      by (intro exI [of _ s0] exI [of _ rest] exI [of _ vs0] exI [of _ "v # vs2"] exI [of _ w0]
           exI [of _ "u0 @ u"]) simp
  qed
qed

text \<open>What a reduction finds on the stack, and that it makes the stack lighter.\<close>

lemma lr_stack_reduce:
  assumes st: "lr_stack target D vbot (s # st) vs w" and r: "reduces s p"
  obtains s0 rest vs0 vs1 w0 u t where
    "drop (2 * length (rhs p)) (s # st) = s0 # rest" "vs = vs1 @ vs0" "length vs1 = length (rhs p)"
    "spell D (rhs p) u vs1" "w = w0 @ u" "lr_stack target D vbot (s0 # rest) vs0 w0"
    "target s0 (lhs p) = Some t"
    "potential (t # lhs p # s0 # rest) < potential (s # st)"
proof -
  have "\<exists>s0 rest vs0 vs1 w0 u. drop (2 * length (rhs p)) (s # st) = s0 # rest \<and> vs = vs1 @ vs0 \<and>
     length vs1 = length (rhs p) \<and> spell D (rhs p) u vs1 \<and> w = w0 @ u \<and>
     lr_stack target D vbot (s0 # rest) vs0 w0 \<and> target s0 (lhs p) \<noteq> None"
  proof (cases "rhs p = []")
    case True
    then show ?thesis using reduce_item [OF r] st
      by (intro exI [of _ s] exI [of _ st] exI [of _ vs] exI [of _ "[]"] exI [of _ w] exI [of _ "[]"])
        (simp add: spell_Nil)
  next
    case False
    then show ?thesis using lr_stack_item [OF st] reduce_item [OF r] by fastforce
  qed
  then obtain s0 rest vs0 vs1 w0 u t where d: "drop (2 * length (rhs p)) (s # st) = s0 # rest"
    and *: "vs = vs1 @ vs0" "length vs1 = length (rhs p)"
    "spell D (rhs p) u vs1" "w = w0 @ u" "lr_stack target D vbot (s0 # rest) vs0 w0"
    and t: "target s0 (lhs p) = Some t"
    by auto
  from arg_cong [OF d, of length] have len: "length (s # st) = 2 * length (rhs p) + length (s0 # rest)"
    by (cases "2 * length (rhs p) \<le> length (s # st)") auto
  then have "length st div 2 = length (rhs p) + length rest div 2" by simp
  then have "potential (t # lhs p # s0 # rest) < potential (s # st)"
    using reduce_weight [OF r t] by (simp add: potential_def algebra_simps)
  with d * t that show ?thesis by blast
qed

end

end
