(* ===== verification/HB_Parser.thy ===== *)
theory HB_Parser
  imports HB_Lexer HB_LR
begin

text \<open>
  The generated LALR(1) parser of \<open>handlebars.js\<close> (lines 682 to 893): its tables, the semantic
  actions and the shift/reduce loop.

  The three stacks are lists with the top first.  \<open>stack\<close> alternates states and symbols as in the
  source; \<open>vstack\<close> has the semantic values and \<open>lstack\<close> the locations.  A semantic value is one of
  the shapes of \<open>yyval\<close>; an action that finds a shape it cannot use fails with \<open>TypeErr\<close>, which the
  theorems below exclude.  The recovery variables \<open>recovering\<close> and \<open>preErrorSymbol\<close> never change:
  \<open>parseError\<close> always throws.
\<close>

section \<open>Tables\<close>

datatype entry = Goto nat | Shift nat | Reduce nat | Accept

definition terminals :: "(nat \<times> jstr) list" where
  "terminals =
     [(2, js ''error''), (5, js ''EOF''), (14, js ''CONTENT''), (15, js ''COMMENT''),
      (16, js ''OPEN_BLOCK''), (18, js ''CLOSE''), (19, js ''OPEN_INVERSE''),
      (20, js ''OPEN_ENDBLOCK''), (22, js ''OPEN''), (23, js ''OPEN_UNESCAPED''),
      (24, js ''CLOSE_UNESCAPED''), (25, js ''OPEN_PARTIAL''), (32, js ''STRING''),
      (33, js ''INTEGER''), (34, js ''BOOLEAN''), (38, js ''ID''), (39, js ''EQUALS''),
      (40, js ''DATA''), (42, js ''SEP'')]"

text \<open>For each production its left-hand side and its length.\<close>

definition productions :: "(nat \<times> nat) list" where
  "productions =
     [(0, 0), (3, 2), (3, 1), (6, 2), (6, 3), (6, 2), (6, 1), (6, 1), (6, 0), (4, 1), (4, 2),
      (8, 3), (8, 3), (8, 1), (8, 1), (8, 1), (8, 1), (11, 3), (9, 3), (10, 3), (12, 3), (12, 3),
      (13, 4), (7, 2), (17, 3), (17, 1), (31, 1), (31, 1), (31, 1), (31, 1), (31, 1), (35, 1),
      (37, 3), (26, 1), (26, 1), (26, 1), (30, 2), (21, 1), (41, 3), (41, 1), (27, 0), (27, 1),
      (28, 0), (28, 2), (29, 0), (29, 1), (36, 1), (36, 2)]"

definition table :: "(nat \<times> entry) list list" where
  "table =
     [[(3, Goto 1), (4, Goto 2), (5, Shift 3), (8, Goto 4), (9, Goto 5), (11, Goto 6),
       (12, Goto 7), (13, Goto 8), (14, Shift 9), (15, Shift 10), (16, Shift 12), (19, Shift 11),
       (22, Shift 13), (23, Shift 14), (25, Shift 15)],
      [(1, Accept)],
      [(5, Shift 16), (8, Goto 17), (9, Goto 5), (11, Goto 6), (12, Goto 7), (13, Goto 8),
       (14, Shift 9), (15, Shift 10), (16, Shift 12), (19, Shift 11), (22, Shift 13),
       (23, Shift 14), (25, Shift 15)],
      [(1, Reduce 2)],
      [(5, Reduce 9), (14, Reduce 9), (15, Reduce 9), (16, Reduce 9), (19, Reduce 9),
       (20, Reduce 9), (22, Reduce 9), (23, Reduce 9), (25, Reduce 9)],
      [(4, Goto 20), (6, Goto 18), (7, Goto 19), (8, Goto 4), (9, Goto 5), (11, Goto 6),
       (12, Goto 7), (13, Goto 8), (14, Shift 9), (15, Shift 10), (16, Shift 12), (19, Shift 21),
       (20, Reduce 8), (22, Shift 13), (23, Shift 14), (25, Shift 15)],
      [(4, Goto 20), (6, Goto 22), (7, Goto 19), (8, Goto 4), (9, Goto 5), (11, Goto 6),
       (12, Goto 7), (13, Goto 8), (14, Shift 9), (15, Shift 10), (16, Shift 12), (19, Shift 21),
       (20, Reduce 8), (22, Shift 13), (23, Shift 14), (25, Shift 15)],
      [(5, Reduce 13), (14, Reduce 13), (15, Reduce 13), (16, Reduce 13), (19, Reduce 13),
       (20, Reduce 13), (22, Reduce 13), (23, Reduce 13), (25, Reduce 13)],
      [(5, Reduce 14), (14, Reduce 14), (15, Reduce 14), (16, Reduce 14), (19, Reduce 14),
       (20, Reduce 14), (22, Reduce 14), (23, Reduce 14), (25, Reduce 14)],
      [(5, Reduce 15), (14, Reduce 15), (15, Reduce 15), (16, Reduce 15), (19, Reduce 15),
       (20, Reduce 15), (22, Reduce 15), (23, Reduce 15), (25, Reduce 15)],
      [(5, Reduce 16), (14, Reduce 16), (15, Reduce 16), (16, Reduce 16), (19, Reduce 16),
       (20, Reduce 16), (22, Reduce 16), (23, Reduce 16), (25, Reduce 16)],
      [(17, Goto 23), (21, Goto 24), (30, Goto 25), (38, Shift 28), (40, Shift 27), (41, Goto 26)],
      [(17, Goto 29), (21, Goto 24), (30, Goto 25), (38, Shift 28), (40, Shift 27), (41, Goto 26)],
      [(17, Goto 30), (21, Goto 24), (30, Goto 25), (38, Shift 28), (40, Shift 27), (41, Goto 26)],
      [(17, Goto 31), (21, Goto 24), (30, Goto 25), (38, Shift 28), (40, Shift 27), (41, Goto 26)],
      [(21, Goto 33), (26, Goto 32), (32, Shift 34), (33, Shift 35), (38, Shift 28), (41, Goto 26)],
      [(1, Reduce 1)],
      [(5, Reduce 10), (14, Reduce 10), (15, Reduce 10), (16, Reduce 10), (19, Reduce 10),
       (20, Reduce 10), (22, Reduce 10), (23, Reduce 10), (25, Reduce 10)],
      [(10, Goto 36), (20, Shift 37)],
      [(4, Goto 38), (8, Goto 4), (9, Goto 5), (11, Goto 6), (12, Goto 7), (13, Goto 8),
       (14, Shift 9), (15, Shift 10), (16, Shift 12), (19, Shift 11), (20, Reduce 7),
       (22, Shift 13), (23, Shift 14), (25, Shift 15)],
      [(7, Goto 39), (8, Goto 17), (9, Goto 5), (11, Goto 6), (12, Goto 7), (13, Goto 8),
       (14, Shift 9), (15, Shift 10), (16, Shift 12), (19, Shift 21), (20, Reduce 6),
       (22, Shift 13), (23, Shift 14), (25, Shift 15)],
      [(17, Goto 23), (18, Shift 40), (21, Goto 24), (30, Goto 25), (38, Shift 28),
       (40, Shift 27), (41, Goto 26)],
      [(10, Goto 41), (20, Shift 37)],
      [(18, Shift 42)],
      [(18, Reduce 42), (24, Reduce 42), (28, Goto 43), (32, Reduce 42), (33, Reduce 42),
       (34, Reduce 42), (38, Reduce 42), (40, Reduce 42)],
      [(18, Reduce 25), (24, Reduce 25)],
      [(18, Reduce 37), (24, Reduce 37), (32, Reduce 37), (33, Reduce 37), (34, Reduce 37),
       (38, Reduce 37), (40, Reduce 37), (42, Shift 44)],
      [(21, Goto 45), (38, Shift 28), (41, Goto 26)],
      [(18, Reduce 39), (24, Reduce 39), (32, Reduce 39), (33, Reduce 39), (34, Reduce 39),
       (38, Reduce 39), (40, Reduce 39), (42, Reduce 39)],
      [(18, Shift 46)],
      [(18, Shift 47)],
      [(24, Shift 48)],
      [(18, Reduce 40), (21, Goto 50), (27, Goto 49), (38, Shift 28), (41, Goto 26)],
      [(18, Reduce 33), (38, Reduce 33)],
      [(18, Reduce 34), (38, Reduce 34)],
      [(18, Reduce 35), (38, Reduce 35)],
      [(5, Reduce 11), (14, Reduce 11), (15, Reduce 11), (16, Reduce 11), (19, Reduce 11),
       (20, Reduce 11), (22, Reduce 11), (23, Reduce 11), (25, Reduce 11)],
      [(21, Goto 51), (38, Shift 28), (41, Goto 26)],
      [(8, Goto 17), (9, Goto 5), (11, Goto 6), (12, Goto 7), (13, Goto 8), (14, Shift 9),
       (15, Shift 10), (16, Shift 12), (19, Shift 11), (20, Reduce 3), (22, Shift 13),
       (23, Shift 14), (25, Shift 15)],
      [(4, Goto 52), (8, Goto 4), (9, Goto 5), (11, Goto 6), (12, Goto 7), (13, Goto 8),
       (14, Shift 9), (15, Shift 10), (16, Shift 12), (19, Shift 11), (20, Reduce 5),
       (22, Shift 13), (23, Shift 14), (25, Shift 15)],
      [(14, Reduce 23), (15, Reduce 23), (16, Reduce 23), (19, Reduce 23), (20, Reduce 23),
       (22, Reduce 23), (23, Reduce 23), (25, Reduce 23)],
      [(5, Reduce 12), (14, Reduce 12), (15, Reduce 12), (16, Reduce 12), (19, Reduce 12),
       (20, Reduce 12), (22, Reduce 12), (23, Reduce 12), (25, Reduce 12)],
      [(14, Reduce 18), (15, Reduce 18), (16, Reduce 18), (19, Reduce 18), (20, Reduce 18),
       (22, Reduce 18), (23, Reduce 18), (25, Reduce 18)],
      [(18, Reduce 44), (21, Goto 56), (24, Reduce 44), (29, Goto 53), (30, Goto 60),
       (31, Goto 54), (32, Shift 57), (33, Shift 58), (34, Shift 59), (35, Goto 55),
       (36, Goto 61), (37, Goto 62), (38, Shift 63), (40, Shift 27), (41, Goto 26)],
      [(38, Shift 64)],
      [(18, Reduce 36), (24, Reduce 36), (32, Reduce 36), (33, Reduce 36), (34, Reduce 36),
       (38, Reduce 36), (40, Reduce 36)],
      [(14, Reduce 17), (15, Reduce 17), (16, Reduce 17), (19, Reduce 17), (20, Reduce 17),
       (22, Reduce 17), (23, Reduce 17), (25, Reduce 17)],
      [(5, Reduce 20), (14, Reduce 20), (15, Reduce 20), (16, Reduce 20), (19, Reduce 20),
       (20, Reduce 20), (22, Reduce 20), (23, Reduce 20), (25, Reduce 20)],
      [(5, Reduce 21), (14, Reduce 21), (15, Reduce 21), (16, Reduce 21), (19, Reduce 21),
       (20, Reduce 21), (22, Reduce 21), (23, Reduce 21), (25, Reduce 21)],
      [(18, Shift 65)],
      [(18, Reduce 41)],
      [(18, Shift 66)],
      [(8, Goto 17), (9, Goto 5), (11, Goto 6), (12, Goto 7), (13, Goto 8), (14, Shift 9),
       (15, Shift 10), (16, Shift 12), (19, Shift 11), (20, Reduce 4), (22, Shift 13),
       (23, Shift 14), (25, Shift 15)],
      [(18, Reduce 24), (24, Reduce 24)],
      [(18, Reduce 43), (24, Reduce 43), (32, Reduce 43), (33, Reduce 43), (34, Reduce 43),
       (38, Reduce 43), (40, Reduce 43)],
      [(18, Reduce 45), (24, Reduce 45)],
      [(18, Reduce 26), (24, Reduce 26), (32, Reduce 26), (33, Reduce 26), (34, Reduce 26),
       (38, Reduce 26), (40, Reduce 26)],
      [(18, Reduce 27), (24, Reduce 27), (32, Reduce 27), (33, Reduce 27), (34, Reduce 27),
       (38, Reduce 27), (40, Reduce 27)],
      [(18, Reduce 28), (24, Reduce 28), (32, Reduce 28), (33, Reduce 28), (34, Reduce 28),
       (38, Reduce 28), (40, Reduce 28)],
      [(18, Reduce 29), (24, Reduce 29), (32, Reduce 29), (33, Reduce 29), (34, Reduce 29),
       (38, Reduce 29), (40, Reduce 29)],
      [(18, Reduce 30), (24, Reduce 30), (32, Reduce 30), (33, Reduce 30), (34, Reduce 30),
       (38, Reduce 30), (40, Reduce 30)],
      [(18, Reduce 31), (24, Reduce 31), (37, Goto 67), (38, Shift 68)],
      [(18, Reduce 46), (24, Reduce 46), (38, Reduce 46)],
      [(18, Reduce 39), (24, Reduce 39), (32, Reduce 39), (33, Reduce 39), (34, Reduce 39),
       (38, Reduce 39), (39, Shift 69), (40, Reduce 39), (42, Reduce 39)],
      [(18, Reduce 38), (24, Reduce 38), (32, Reduce 38), (33, Reduce 38), (34, Reduce 38),
       (38, Reduce 38), (40, Reduce 38), (42, Reduce 38)],
      [(5, Reduce 22), (14, Reduce 22), (15, Reduce 22), (16, Reduce 22), (19, Reduce 22),
       (20, Reduce 22), (22, Reduce 22), (23, Reduce 22), (25, Reduce 22)],
      [(5, Reduce 19), (14, Reduce 19), (15, Reduce 19), (16, Reduce 19), (19, Reduce 19),
       (20, Reduce 19), (22, Reduce 19), (23, Reduce 19), (25, Reduce 19)],
      [(18, Reduce 47), (24, Reduce 47), (38, Reduce 47)],
      [(39, Shift 69)],
      [(21, Goto 56), (30, Goto 60), (31, Goto 70), (32, Shift 57), (33, Shift 58),
       (34, Shift 59), (38, Shift 28), (40, Shift 27), (41, Goto 26)],
      [(18, Reduce 32), (24, Reduce 32), (38, Reduce 32)]]"

definition defaultActions :: "(nat \<times> entry) list" where
  "defaultActions = [(3, Reduce 2), (16, Reduce 1), (50, Reduce 41)]"

definition table_get :: "nat \<Rightarrow> nat \<Rightarrow> entry option" where
  "table_get s x = (if s < length table then map_of (table ! s) x else None)"

section \<open>Semantic values and actions\<close>

datatype yyval =
    VUndef
  | VNull
  | VTrue
  | VText jstr
  | VStatements "statement list"
  | VStatement statement
  | VProgram program
  | VStrip strip
  | VClose close_node
  | VInMustache "param list" "hash_node option"
  | VParam param
  | VParams "param list"
  | VHash hash_node
  | VPair jstr param
  | VPairs "(jstr \<times> param) list"
  | VName jstr
  | VSegments "(jstr \<times> jstr) list"

text \<open>Reading a value at the shape an action needs.\<close>

definition asText :: "yyval \<Rightarrow> jstr result" where
  "asText v = (case v of VText t \<Rightarrow> Inr t | _ \<Rightarrow> Inl TypeErr)"

definition asStatements :: "yyval \<Rightarrow> statement list result" where
  "asStatements v = (case v of VStatements sts \<Rightarrow> Inr sts | _ \<Rightarrow> Inl TypeErr)"

definition asStatement :: "yyval \<Rightarrow> statement result" where
  "asStatement v = (case v of VStatement st \<Rightarrow> Inr st | _ \<Rightarrow> Inl TypeErr)"

definition asMustache :: "yyval \<Rightarrow> mustache_node result" where
  "asMustache v = (case v of VStatement (SMustache m) \<Rightarrow> Inr m | _ \<Rightarrow> Inl TypeErr)"

definition asProgram :: "yyval \<Rightarrow> program result" where
  "asProgram v = (case v of VProgram p \<Rightarrow> Inr p | _ \<Rightarrow> Inl TypeErr)"

definition asStrip :: "yyval \<Rightarrow> strip result" where
  "asStrip v = (case v of VStrip st \<Rightarrow> Inr st | _ \<Rightarrow> Inl TypeErr)"

definition asClose :: "yyval \<Rightarrow> close_node result" where
  "asClose v = (case v of VClose c \<Rightarrow> Inr c | _ \<Rightarrow> Inl TypeErr)"

definition asInMustache :: "yyval \<Rightarrow> (param list \<times> hash_node option) result" where
  "asInMustache v = (case v of VInMustache ps h \<Rightarrow> Inr (ps, h) | _ \<Rightarrow> Inl TypeErr)"

definition asParam :: "yyval \<Rightarrow> param result" where
  "asParam v = (case v of VParam p \<Rightarrow> Inr p | _ \<Rightarrow> Inl TypeErr)"

definition asId :: "yyval \<Rightarrow> id_node result" where
  "asId v = (case v of VParam (PId i) \<Rightarrow> Inr i | _ \<Rightarrow> Inl TypeErr)"

definition asContext :: "yyval \<Rightarrow> id_node option result" where
  "asContext v = (case v of VUndef \<Rightarrow> Inr None | VParam (PId i) \<Rightarrow> Inr (Some i) | _ \<Rightarrow> Inl TypeErr)"

definition asParams :: "yyval \<Rightarrow> param list result" where
  "asParams v = (case v of VParams ps \<Rightarrow> Inr ps | _ \<Rightarrow> Inl TypeErr)"

definition asHash :: "yyval \<Rightarrow> hash_node option result" where
  "asHash v = (case v of VUndef \<Rightarrow> Inr None | VHash h \<Rightarrow> Inr (Some h) | _ \<Rightarrow> Inl TypeErr)"

definition asPair :: "yyval \<Rightarrow> (jstr \<times> param) result" where
  "asPair v = (case v of VPair k p \<Rightarrow> Inr (k, p) | _ \<Rightarrow> Inl TypeErr)"

definition asPairs :: "yyval \<Rightarrow> (jstr \<times> param) list result" where
  "asPairs v = (case v of VPairs ps \<Rightarrow> Inr ps | _ \<Rightarrow> Inl TypeErr)"

definition asName :: "yyval \<Rightarrow> jstr result" where
  "asName v = (case v of VName n \<Rightarrow> Inr n | _ \<Rightarrow> Inl TypeErr)"

definition asSegments :: "yyval \<Rightarrow> (jstr \<times> jstr) list result" where
  "asSegments v = (case v of VSegments ss \<Rightarrow> Inr ss | _ \<Rightarrow> Inl TypeErr)"

lemmas as_defs = asText_def asStatements_def asStatement_def asMustache_def asProgram_def asStrip_def
  asClose_def asInMustache_def asParam_def asId_def asContext_def asParams_def asHash_def asPair_def
  asPairs_def asName_def asSegments_def

text \<open>An action assigns \<open>this.$\<close> or returns a value, which ends the parse.\<close>

datatype outcome = Assign yyval | Return yyval

text \<open>\<open>$$[$0-i]\<close>\<close>

definition arg :: "yyval list \<Rightarrow> nat \<Rightarrow> yyval" where
  "arg vs i = (if i < length vs then vs ! i else VUndef)"

definition mustache_action :: "yyval list \<Rightarrow> outcome result" where
  "mustache_action vs =
     bindR (asInMustache (arg vs 1)) (\<lambda>(ps, h).
     bindR (asText (arg vs 2)) (\<lambda>open.
     bindR (asText (arg vs 0)) (\<lambda>close.
     bindR (MustacheNode ps h open (stripFlags open close)) (\<lambda>m.
       Inr (Assign (VStatement (SMustache m)))))))"

text \<open>
  Productions 11 and 12 pass a program \<open>p\<close> and \<open>p.inverse\<close> to \<open>BlockNode\<close>; the object \<open>p.inverse\<close>
  is the same one that the block refers to, so its new strip flags are seen through \<open>p\<close> too.
\<close>

definition openInverse_block :: "yyval list \<Rightarrow> outcome result" where
  "openInverse_block vs =
     bindR (asMustache (arg vs 2)) (\<lambda>m.
     bindR (asProgram (arg vs 1)) (\<lambda>p.
     bindR (asClose (arg vs 0)) (\<lambda>c.
     bindR (BlockNode m (p_inverse p) (Some p) c) (\<lambda>b.
       case b of
         SBlock m prog invp st \<Rightarrow>
           Inr (Assign (VStatement (SBlock m prog (map_option (with_inverse prog) invp) st)))
       | _ \<Rightarrow> Inl TypeErr))))"

definition openBlock_block :: "yyval list \<Rightarrow> outcome result" where
  "openBlock_block vs =
     bindR (asMustache (arg vs 2)) (\<lambda>m.
     bindR (asProgram (arg vs 1)) (\<lambda>p.
     bindR (asClose (arg vs 0)) (\<lambda>c.
     bindR (BlockNode m (Some p) (p_inverse p) c) (\<lambda>b.
       case b of
         SBlock m prog invp st \<Rightarrow>
           Inr (Assign (VStatement (SBlock m (map_option (with_inverse invp) prog) invp st)))
       | _ \<Rightarrow> Inl TypeErr))))"

text \<open>
  \<open>performAction\<close> by production number; \<open>dflt\<close> is the value of \<open>this.$\<close> on entry.
\<close>

definition performAction :: "nat \<Rightarrow> yyval list \<Rightarrow> yyval \<Rightarrow> outcome result" where
  "performAction yystate vs dflt =
     (if yystate = 1 then
        bindR (asStatements (arg vs 1)) (\<lambda>sts. Inr (Return (VProgram (ProgramNode sts None None))))
      else if yystate = 2 then Inr (Return (VProgram (ProgramNode [] None None)))
      else if yystate = 3 then
        bindR (asStrip (arg vs 1)) (\<lambda>st. bindR (asStatements (arg vs 0)) (\<lambda>sts.
          Inr (Assign (VProgram (ProgramNode [] (Some st) (Some sts))))))
      else if yystate = 4 then
        bindR (asStatements (arg vs 2)) (\<lambda>sts. bindR (asStrip (arg vs 1)) (\<lambda>st.
        bindR (asStatements (arg vs 0)) (\<lambda>sts'.
          Inr (Assign (VProgram (ProgramNode sts (Some st) (Some sts')))))))
      else if yystate = 5 then
        bindR (asStatements (arg vs 1)) (\<lambda>sts. bindR (asStrip (arg vs 0)) (\<lambda>st.
          Inr (Assign (VProgram (ProgramNode sts (Some st) (Some []))))))
      else if yystate = 6 then
        bindR (asStatements (arg vs 0)) (\<lambda>sts. Inr (Assign (VProgram (ProgramNode sts None None))))
      else if yystate = 7 \<or> yystate = 8 then Inr (Assign (VProgram (ProgramNode [] None None)))
      else if yystate = 9 then
        bindR (asStatement (arg vs 0)) (\<lambda>st. Inr (Assign (VStatements [st])))
      else if yystate = 10 then
        bindR (asStatements (arg vs 1)) (\<lambda>sts. bindR (asStatement (arg vs 0)) (\<lambda>st.
          Inr (Assign (VStatements (sts @ [st])))))
      else if yystate = 11 then openInverse_block vs
      else if yystate = 12 then openBlock_block vs
      else if yystate = 13 \<or> yystate = 14 then Inr (Assign (arg vs 0))
      else if yystate = 15 then
        bindR (asText (arg vs 0)) (\<lambda>t. Inr (Assign (VStatement (SContent t))))
      else if yystate = 16 then
        bindR (asText (arg vs 0)) (\<lambda>t. Inr (Assign (VStatement (SComment t))))
      else if yystate = 17 \<or> yystate = 18 then mustache_action vs
      else if yystate = 19 then
        bindR (asText (arg vs 2)) (\<lambda>open. bindR (asId (arg vs 1)) (\<lambda>i.
        bindR (asText (arg vs 0)) (\<lambda>close.
          Inr (Assign (VClose \<lparr>c_path = i, c_strip = stripFlags open close\<rparr>)))))
      else if yystate = 20 \<or> yystate = 21 then mustache_action vs
      else if yystate = 22 then
        bindR (asText (arg vs 3)) (\<lambda>open. bindR (asName (arg vs 2)) (\<lambda>n.
        bindR (asContext (arg vs 1)) (\<lambda>c. bindR (asText (arg vs 0)) (\<lambda>close.
          Inr (Assign (VStatement (SPartial n c (stripFlags open close))))))))
      else if yystate = 23 then
        bindR (asText (arg vs 1)) (\<lambda>open. bindR (asText (arg vs 0)) (\<lambda>close.
          Inr (Assign (VStrip (stripFlags open close)))))
      else if yystate = 24 then
        bindR (asParam (arg vs 2)) (\<lambda>i. bindR (asParams (arg vs 1)) (\<lambda>ps.
        bindR (asHash (arg vs 0)) (\<lambda>h. Inr (Assign (VInMustache ([i] @ ps) h)))))
      else if yystate = 25 then
        bindR (asParam (arg vs 0)) (\<lambda>i. Inr (Assign (VInMustache [i] None)))
      else if yystate = 26 then Inr (Assign (arg vs 0))
      else if yystate = 27 then bindR (asText (arg vs 0)) (\<lambda>t. Inr (Assign (VParam (PString t))))
      else if yystate = 28 then bindR (asText (arg vs 0)) (\<lambda>t. Inr (Assign (VParam (PInteger t))))
      else if yystate = 29 then bindR (asText (arg vs 0)) (\<lambda>t. Inr (Assign (VParam (PBoolean t))))
      else if yystate = 30 then Inr (Assign (arg vs 0))
      else if yystate = 31 then bindR (asPairs (arg vs 0)) (\<lambda>ps. Inr (Assign (VHash ps)))
      else if yystate = 32 then
        bindR (asText (arg vs 2)) (\<lambda>k. bindR (asParam (arg vs 0)) (\<lambda>p. Inr (Assign (VPair k p))))
      else if yystate = 33 then bindR (asId (arg vs 0)) (\<lambda>i. Inr (Assign (VName (original i))))
      else if yystate = 34 \<or> yystate = 35 then
        bindR (asText (arg vs 0)) (\<lambda>t. Inr (Assign (VName t)))
      else if yystate = 36 then bindR (asId (arg vs 0)) (\<lambda>i. Inr (Assign (VParam (PData i))))
      else if yystate = 37 then
        bindR (asSegments (arg vs 0)) (\<lambda>ss. bindR (IdNode ss) (\<lambda>i. Inr (Assign (VParam (PId i)))))
      else if yystate = 38 then
        bindR (asSegments (arg vs 2)) (\<lambda>ss. bindR (asText (arg vs 1)) (\<lambda>sep.
        bindR (asText (arg vs 0)) (\<lambda>p. Inr (Assign (VSegments (ss @ [(sep, p)]))))))
      else if yystate = 39 then
        bindR (asText (arg vs 0)) (\<lambda>p. Inr (Assign (VSegments [([], p)])))
      else if yystate = 42 then Inr (Assign (VParams []))
      else if yystate = 43 then
        bindR (asParams (arg vs 1)) (\<lambda>ps. bindR (asParam (arg vs 0)) (\<lambda>p.
          Inr (Assign (VParams (ps @ [p])))))
      else if yystate = 46 then
        bindR (asPair (arg vs 0)) (\<lambda>kp. Inr (Assign (VPairs [kp])))
      else if yystate = 47 then
        bindR (asPairs (arg vs 1)) (\<lambda>ps. bindR (asPair (arg vs 0)) (\<lambda>kp.
          Inr (Assign (VPairs (ps @ [kp])))))
      else Inr (Assign dflt))"

section \<open>The loop\<close>

record parser =
  stack :: "nat list"
  vstack :: "yyval list"
  lstack :: "yyloc list"
  symbol :: "token option"
  lexer_of :: lexer
  last_lineno :: int

definition symbol_name :: "token \<Rightarrow> jstr" where
  "symbol_name t =
     (case t of INVALID \<Rightarrow> js ''INVALID''
      | Tok n \<Rightarrow> (case map_of terminals n of Some w \<Rightarrow> w | None \<Rightarrow> natToString n))"

definition expected_tokens :: "nat \<Rightarrow> jstr list" where
  "expected_tokens s =
     map (\<lambda>x. [39] @ the (map_of terminals x) @ [39])
       (filter (\<lambda>x. map_of terminals x \<noteq> None \<and> 2 < x) (map fst (table ! s)))"

definition parse_error :: "nat \<Rightarrow> token \<Rightarrow> parser \<Rightarrow> js_error" where
  "parse_error s t ps =
     Error (js ''Parse error on line '' @ intToString (last_lineno ps + 1) @ js '':'' @ [10] @
            showPosition (lexer_of ps) @ [10] @ js ''Expecting '' @
            join (expected_tokens s) (js '', '') @ js '', got '' @ [39] @ symbol_name t @ [39])"

text \<open>The inner function \<open>lex\<close> and the choice of the action.\<close>

definition fetch :: "parser \<Rightarrow> (token \<times> parser) result" where
  "fetch ps =
     (case symbol ps of
        Some t \<Rightarrow> Inr (t, ps)
      | None \<Rightarrow> bindR (lex (lexer_of ps)) (\<lambda>(t, lx). Inr (t, ps\<lparr>symbol := Some t, lexer_of := lx\<rparr>)))"

definition token_entry :: "nat \<Rightarrow> token \<Rightarrow> entry option" where
  "token_entry s t = (case t of INVALID \<Rightarrow> None | Tok n \<Rightarrow> table_get s n)"

definition shift :: "nat \<Rightarrow> parser \<Rightarrow> parser result" where
  "shift s' ps =
     (case symbol ps of
        Some (Tok x) \<Rightarrow>
          Inr (ps\<lparr>stack := s' # x # stack ps,
                  vstack := VText (yytext (lexer_of ps)) # vstack ps,
                  lstack := yylloc (lexer_of ps) # lstack ps,
                  symbol := None,
                  last_lineno := yylineno (lexer_of ps)\<rparr>)
      | _ \<Rightarrow> Inl TypeErr)"

text \<open>\<open>yyval._$\<close>; reading a field of a missing location fails.\<close>

definition reduce_loc :: "nat \<Rightarrow> yyloc list \<Rightarrow> yyloc result" where
  "reduce_loc len ls =
     (let k = (if len = 0 then 1 else len)
      in if length ls < k then Inl TypeErr
         else Inr \<lparr>first_line = first_line (ls ! (k - 1)), last_line = last_line (hd ls),
                   first_column = first_column (ls ! (k - 1)), last_column = last_column (hd ls)\<rparr>)"

datatype step = Continue parser | Finished yyval

definition reduce :: "nat \<Rightarrow> parser \<Rightarrow> step result" where
  "reduce p ps =
     (let (lhs, len) = productions ! p;
          dflt = (if len = 0 then VUndef else arg (vstack ps) (len - 1))
      in bindR (reduce_loc len (lstack ps)) (\<lambda>loc.
         bindR (performAction p (vstack ps) dflt) (\<lambda>r.
         case r of
           Return v \<Rightarrow> Inr (Finished v)
         | Assign v \<Rightarrow>
             (case drop (2 * len) (stack ps) of
                [] \<Rightarrow> Inl TypeErr
              | s0 # rest \<Rightarrow>
                  (case table_get s0 lhs of
                     Some (Goto s') \<Rightarrow>
                       Inr (Continue (ps\<lparr>stack := s' # lhs # s0 # rest,
                                         vstack := v # drop len (vstack ps),
                                         lstack := loc # drop len (lstack ps)\<rparr>))
                   | _ \<Rightarrow> Inl TypeErr)))))"

text \<open>One round of the \<open>while\<close> loop.\<close>

definition parse_step :: "parser \<Rightarrow> step result" where
  "parse_step ps =
     (case stack ps of
        [] \<Rightarrow> Inl TypeErr
      | s # _ \<Rightarrow>
          bindR (case map_of defaultActions s of
                   Some a \<Rightarrow> Inr (Some a, ps)
                 | None \<Rightarrow> bindR (fetch ps) (\<lambda>(t, ps'). Inr (token_entry s t, ps'))) (\<lambda>(action, ps').
          case action of
            Some (Shift s') \<Rightarrow> bindR (shift s' ps') (\<lambda>ps''. Inr (Continue ps''))
          | Some (Reduce p) \<Rightarrow> reduce p ps'
          | Some Accept \<Rightarrow> Inr (Finished VTrue)
          | _ \<Rightarrow> Inl (case symbol ps' of Some t \<Rightarrow> parse_error s t ps' | None \<Rightarrow> TypeErr)))"

partial_function (option) parse_loop :: "parser \<Rightarrow> yyval result option" where
  "parse_loop ps =
     (case parse_step ps of
        Inl e \<Rightarrow> Some (Inl e)
      | Inr (Finished v) \<Rightarrow> Some (Inr v)
      | Inr (Continue ps') \<Rightarrow> parse_loop ps')"

declare parse_loop.simps [code]

definition parse_start :: "jstr \<Rightarrow> parser" where
  "parse_start input =
     \<lparr>stack = [0], vstack = [VNull], lstack = [yylloc (setInput input)], symbol = None,
      lexer_of = setInput input, last_lineno = 0\<rparr>"

definition parse :: "jstr \<Rightarrow> yyval result option" where
  "parse input = parse_loop (parse_start input)"

section \<open>The automaton behind the table\<close>

text \<open>
  The grammar: the right-hand side of each production.  The source has only the left-hand sides
  and the lengths; the right-hand sides are those of the grammar the table was generated from, and
  the checks below confirm that the table agrees with them.
\<close>

definition rhs_table :: "nat list list" where
  "rhs_table =
     [[], [4, 5], [5], [7, 4], [4, 7, 4], [4, 7], [4], [7], [], [8], [4, 8], [9, 6, 10],
      [11, 6, 10], [12], [13], [14], [15], [16, 17, 18], [19, 17, 18], [20, 21, 18], [22, 17, 18],
      [23, 17, 24], [25, 26, 27, 18], [19, 18], [21, 28, 29], [30], [21], [32], [33], [34], [30],
      [36], [38, 39, 31], [21], [32], [33], [40, 21], [41], [41, 42, 38], [38], [], [21], [],
      [28, 31], [], [35], [37], [36, 37]]"

definition rhs :: "nat \<Rightarrow> nat list" where
  "rhs p = (if p < length rhs_table then rhs_table ! p else [])"

definition lhs :: "nat \<Rightarrow> nat" where
  "lhs p = fst (productions ! p)"

text \<open>The kernel items (production, position) of each state, and a weight for each state.\<close>

definition kernel_table :: "(nat \<times> nat) list list" where
  "kernel_table =
     [[], [], [(1, 1), (10, 1)], [(2, 1)], [(9, 1)], [(11, 1)], [(12, 1)], [(13, 1)], [(14, 1)],
      [(15, 1)], [(16, 1)], [(18, 1)], [(17, 1)], [(20, 1)], [(21, 1)], [(22, 1)], [(1, 2)],
      [(10, 2)], [(11, 2)], [(3, 1), (7, 1)], [(4, 1), (5, 1), (6, 1), (10, 1)],
      [(18, 1), (23, 1)], [(12, 2)], [(18, 2)], [(24, 1)], [(25, 1)], [(37, 1), (38, 1)],
      [(36, 1)], [(39, 1)], [(17, 2)], [(20, 2)], [(21, 2)], [(22, 2)], [(33, 1)], [(34, 1)],
      [(35, 1)], [(11, 3)], [(19, 1)], [(3, 2), (10, 1)], [(4, 2), (5, 2)], [(23, 2)], [(12, 3)],
      [(18, 3)], [(24, 2), (43, 1)], [(38, 2)], [(36, 2)], [(17, 3)], [(20, 3)], [(21, 3)],
      [(22, 3)], [(41, 1)], [(19, 2)], [(4, 3), (10, 1)], [(24, 3)], [(43, 2)], [(45, 1)],
      [(26, 1)], [(27, 1)], [(28, 1)], [(29, 1)], [(30, 1)], [(31, 1), (47, 1)], [(46, 1)],
      [(32, 1), (39, 1)], [(38, 3)], [(22, 4)], [(19, 3)], [(47, 2)], [(32, 1)], [(32, 2)],
      [(32, 3)]]"

definition weight_table :: "nat list" where
  "weight_table =
     [1, 1, 1, 2, 3, 10, 10, 4, 4, 4, 4, 1, 1, 1, 1, 1, 1, 1, 1, 2, 2, 1, 1, 1, 19, 2, 20, 1, 21,
      1, 1, 1, 10, 11, 11, 11, 1, 1, 1, 1, 1, 1, 1, 10, 1, 1, 1, 1, 1, 1, 2, 1, 1, 1, 3, 2, 4, 4,
      4, 4, 4, 3, 4, 21, 5, 1, 1, 1, 1, 1, 1]"

text \<open>The greatest weight of a state that is entered with a given symbol.\<close>

definition entry_weights :: "nat list" where
  "entry_weights =
     [0, 0, 0, 1, 2, 2, 1, 2, 3, 10, 1, 10, 4, 4, 4, 4, 1, 1, 1, 1, 1, 19, 1, 1, 1, 1, 10, 1, 10,
      1, 4, 3, 11, 11, 4, 2, 3, 4, 21, 1, 1, 20, 1]"

definition kernel :: "nat \<Rightarrow> (nat \<times> nat) list" where
  "kernel s = (if s < length kernel_table then kernel_table ! s else [])"

definition weight :: "nat \<Rightarrow> nat" where
  "weight s = (if s < length weight_table then weight_table ! s else 0)"

definition entry_target :: "entry \<Rightarrow> nat option" where
  "entry_target e = (case e of Goto t \<Rightarrow> Some t | Shift t \<Rightarrow> Some t | _ \<Rightarrow> None)"

definition target :: "nat \<Rightarrow> nat \<Rightarrow> nat option" where
  "target s x = Option.bind (table_get s x) entry_target"

definition reduces :: "nat \<Rightarrow> nat \<Rightarrow> bool" where
  "reduces s p \<longleftrightarrow> s < length table \<and> Reduce p \<in> snd ` set (table ! s)"

text \<open>The laws of the automaton as checks over the rows of the table.\<close>

definition item_ok :: "nat \<Rightarrow> (nat \<times> nat) list \<Rightarrow> (nat \<times> entry) list \<Rightarrow> nat \<times> nat \<Rightarrow> bool" where
  "item_ok x items row pd =
     (case pd of (p, d) \<Rightarrow>
        0 < d \<and> d \<le> length (rhs p) \<and> rhs p ! (d - 1) = x \<and>
        (if d = 1 then Option.bind (map_of row (lhs p)) entry_target \<noteq> None else (p, d - 1) \<in> set items))"

definition entry_ok :: "(nat \<times> nat) list \<Rightarrow> (nat \<times> entry) list \<Rightarrow> nat \<times> entry \<Rightarrow> bool" where
  "entry_ok items row xe =
     (case xe of
        (x, Goto t) \<Rightarrow> list_all (item_ok x items row) (kernel t)
      | (x, Shift t) \<Rightarrow> list_all (item_ok x items row) (kernel t)
      | (x, Reduce p) \<Rightarrow>
          0 < p \<and> p < 48 \<and>
          (if rhs p = [] then Option.bind (map_of row (lhs p)) entry_target \<noteq> None
           else (p, length (rhs p)) \<in> set items)
      | (x, Accept) \<Rightarrow> True)"

definition weight_ok :: "nat \<Rightarrow> nat \<times> entry \<Rightarrow> bool" where
  "weight_ok w xe =
     (case xe of
        (x, Goto t) \<Rightarrow> x < 43 \<and> weight t \<le> entry_weights ! x
      | (x, Shift t) \<Rightarrow> x < 43 \<and> weight t \<le> entry_weights ! x
      | (x, Reduce p) \<Rightarrow> entry_weights ! lhs p + 8 < w + 8 * length (rhs p)
      | (x, Accept) \<Rightarrow> True)"

fun rows_ok :: "(nat \<times> entry) list list \<Rightarrow> (nat \<times> nat) list list \<Rightarrow> bool" where
  "rows_ok [] [] = True"
| "rows_ok (row # rows) (items # itemss) = (list_all (entry_ok items row) row \<and> rows_ok rows itemss)"
| "rows_ok _ _ = False"

fun weights_ok :: "(nat \<times> entry) list list \<Rightarrow> nat list \<Rightarrow> bool" where
  "weights_ok [] [] = True"
| "weights_ok (row # rows) (w # ws) = (list_all (weight_ok w) row \<and> weights_ok rows ws)"
| "weights_ok _ _ = False"

lemma rhs_values:
  "rhs 0 = []"
  "rhs 1 = [4, 5]"
  "rhs 2 = [5]"
  "rhs 3 = [7, 4]"
  "rhs 4 = [4, 7, 4]"
  "rhs 5 = [4, 7]"
  "rhs 6 = [4]"
  "rhs 7 = [7]"
  "rhs 8 = []"
  "rhs 9 = [8]"
  "rhs 10 = [4, 8]"
  "rhs 11 = [9, 6, 10]"
  "rhs 12 = [11, 6, 10]"
  "rhs 13 = [12]"
  "rhs 14 = [13]"
  "rhs 15 = [14]"
  "rhs 16 = [15]"
  "rhs 17 = [16, 17, 18]"
  "rhs 18 = [19, 17, 18]"
  "rhs 19 = [20, 21, 18]"
  "rhs 20 = [22, 17, 18]"
  "rhs 21 = [23, 17, 24]"
  "rhs 22 = [25, 26, 27, 18]"
  "rhs 23 = [19, 18]"
  "rhs 24 = [21, 28, 29]"
  "rhs 25 = [30]"
  "rhs 26 = [21]"
  "rhs 27 = [32]"
  "rhs 28 = [33]"
  "rhs 29 = [34]"
  "rhs 30 = [30]"
  "rhs 31 = [36]"
  "rhs 32 = [38, 39, 31]"
  "rhs 33 = [21]"
  "rhs 34 = [32]"
  "rhs 35 = [33]"
  "rhs 36 = [40, 21]"
  "rhs 37 = [41]"
  "rhs 38 = [41, 42, 38]"
  "rhs 39 = [38]"
  "rhs 40 = []"
  "rhs 41 = [21]"
  "rhs 42 = []"
  "rhs 43 = [28, 31]"
  "rhs 44 = []"
  "rhs 45 = [35]"
  "rhs 46 = [37]"
  "rhs 47 = [36, 37]"
  by (simp_all add: rhs_def rhs_table_def)

lemma lhs_values:
  "lhs 0 = 0"
  "lhs 1 = 3"
  "lhs 2 = 3"
  "lhs 3 = 6"
  "lhs 4 = 6"
  "lhs 5 = 6"
  "lhs 6 = 6"
  "lhs 7 = 6"
  "lhs 8 = 6"
  "lhs 9 = 4"
  "lhs 10 = 4"
  "lhs 11 = 8"
  "lhs 12 = 8"
  "lhs 13 = 8"
  "lhs 14 = 8"
  "lhs 15 = 8"
  "lhs 16 = 8"
  "lhs 17 = 11"
  "lhs 18 = 9"
  "lhs 19 = 10"
  "lhs 20 = 12"
  "lhs 21 = 12"
  "lhs 22 = 13"
  "lhs 23 = 7"
  "lhs 24 = 17"
  "lhs 25 = 17"
  "lhs 26 = 31"
  "lhs 27 = 31"
  "lhs 28 = 31"
  "lhs 29 = 31"
  "lhs 30 = 31"
  "lhs 31 = 35"
  "lhs 32 = 37"
  "lhs 33 = 26"
  "lhs 34 = 26"
  "lhs 35 = 26"
  "lhs 36 = 30"
  "lhs 37 = 21"
  "lhs 38 = 41"
  "lhs 39 = 41"
  "lhs 40 = 27"
  "lhs 41 = 27"
  "lhs 42 = 28"
  "lhs 43 = 28"
  "lhs 44 = 29"
  "lhs 45 = 29"
  "lhs 46 = 36"
  "lhs 47 = 36"
  by (simp_all add: lhs_def productions_def)

lemma kernel_values:
  "kernel 0 = []"
  "kernel 1 = []"
  "kernel 2 = [(1, 1), (10, 1)]"
  "kernel 3 = [(2, 1)]"
  "kernel 4 = [(9, 1)]"
  "kernel 5 = [(11, 1)]"
  "kernel 6 = [(12, 1)]"
  "kernel 7 = [(13, 1)]"
  "kernel 8 = [(14, 1)]"
  "kernel 9 = [(15, 1)]"
  "kernel 10 = [(16, 1)]"
  "kernel 11 = [(18, 1)]"
  "kernel 12 = [(17, 1)]"
  "kernel 13 = [(20, 1)]"
  "kernel 14 = [(21, 1)]"
  "kernel 15 = [(22, 1)]"
  "kernel 16 = [(1, 2)]"
  "kernel 17 = [(10, 2)]"
  "kernel 18 = [(11, 2)]"
  "kernel 19 = [(3, 1), (7, 1)]"
  "kernel 20 = [(4, 1), (5, 1), (6, 1), (10, 1)]"
  "kernel 21 = [(18, 1), (23, 1)]"
  "kernel 22 = [(12, 2)]"
  "kernel 23 = [(18, 2)]"
  "kernel 24 = [(24, 1)]"
  "kernel 25 = [(25, 1)]"
  "kernel 26 = [(37, 1), (38, 1)]"
  "kernel 27 = [(36, 1)]"
  "kernel 28 = [(39, 1)]"
  "kernel 29 = [(17, 2)]"
  "kernel 30 = [(20, 2)]"
  "kernel 31 = [(21, 2)]"
  "kernel 32 = [(22, 2)]"
  "kernel 33 = [(33, 1)]"
  "kernel 34 = [(34, 1)]"
  "kernel 35 = [(35, 1)]"
  "kernel 36 = [(11, 3)]"
  "kernel 37 = [(19, 1)]"
  "kernel 38 = [(3, 2), (10, 1)]"
  "kernel 39 = [(4, 2), (5, 2)]"
  "kernel 40 = [(23, 2)]"
  "kernel 41 = [(12, 3)]"
  "kernel 42 = [(18, 3)]"
  "kernel 43 = [(24, 2), (43, 1)]"
  "kernel 44 = [(38, 2)]"
  "kernel 45 = [(36, 2)]"
  "kernel 46 = [(17, 3)]"
  "kernel 47 = [(20, 3)]"
  "kernel 48 = [(21, 3)]"
  "kernel 49 = [(22, 3)]"
  "kernel 50 = [(41, 1)]"
  "kernel 51 = [(19, 2)]"
  "kernel 52 = [(4, 3), (10, 1)]"
  "kernel 53 = [(24, 3)]"
  "kernel 54 = [(43, 2)]"
  "kernel 55 = [(45, 1)]"
  "kernel 56 = [(26, 1)]"
  "kernel 57 = [(27, 1)]"
  "kernel 58 = [(28, 1)]"
  "kernel 59 = [(29, 1)]"
  "kernel 60 = [(30, 1)]"
  "kernel 61 = [(31, 1), (47, 1)]"
  "kernel 62 = [(46, 1)]"
  "kernel 63 = [(32, 1), (39, 1)]"
  "kernel 64 = [(38, 3)]"
  "kernel 65 = [(22, 4)]"
  "kernel 66 = [(19, 3)]"
  "kernel 67 = [(47, 2)]"
  "kernel 68 = [(32, 1)]"
  "kernel 69 = [(32, 2)]"
  "kernel 70 = [(32, 3)]"
  by (simp_all add: kernel_def kernel_table_def)

lemma weight_values:
  "weight 0 = 1"
  "weight 1 = 1"
  "weight 2 = 1"
  "weight 3 = 2"
  "weight 4 = 3"
  "weight 5 = 10"
  "weight 6 = 10"
  "weight 7 = 4"
  "weight 8 = 4"
  "weight 9 = 4"
  "weight 10 = 4"
  "weight 11 = 1"
  "weight 12 = 1"
  "weight 13 = 1"
  "weight 14 = 1"
  "weight 15 = 1"
  "weight 16 = 1"
  "weight 17 = 1"
  "weight 18 = 1"
  "weight 19 = 2"
  "weight 20 = 2"
  "weight 21 = 1"
  "weight 22 = 1"
  "weight 23 = 1"
  "weight 24 = 19"
  "weight 25 = 2"
  "weight 26 = 20"
  "weight 27 = 1"
  "weight 28 = 21"
  "weight 29 = 1"
  "weight 30 = 1"
  "weight 31 = 1"
  "weight 32 = 10"
  "weight 33 = 11"
  "weight 34 = 11"
  "weight 35 = 11"
  "weight 36 = 1"
  "weight 37 = 1"
  "weight 38 = 1"
  "weight 39 = 1"
  "weight 40 = 1"
  "weight 41 = 1"
  "weight 42 = 1"
  "weight 43 = 10"
  "weight 44 = 1"
  "weight 45 = 1"
  "weight 46 = 1"
  "weight 47 = 1"
  "weight 48 = 1"
  "weight 49 = 1"
  "weight 50 = 2"
  "weight 51 = 1"
  "weight 52 = 1"
  "weight 53 = 1"
  "weight 54 = 3"
  "weight 55 = 2"
  "weight 56 = 4"
  "weight 57 = 4"
  "weight 58 = 4"
  "weight 59 = 4"
  "weight 60 = 4"
  "weight 61 = 3"
  "weight 62 = 4"
  "weight 63 = 21"
  "weight 64 = 5"
  "weight 65 = 1"
  "weight 66 = 1"
  "weight 67 = 1"
  "weight 68 = 1"
  "weight 69 = 1"
  "weight 70 = 1"
  by (simp_all add: weight_def weight_table_def)

lemma tables_ok: "rows_ok table kernel_table"
  unfolding table_def kernel_table_def
  by (simp add: entry_ok_def item_ok_def rhs_values lhs_values kernel_values entry_target_def del: One_nat_def)

lemma table_weights_ok: "weights_ok table weight_table"
  unfolding table_def weight_table_def
  by (simp add: weight_ok_def rhs_values lhs_values weight_values entry_weights_def del: One_nat_def)

lemma rows_ok_nth: "rows_ok rows itemss \<Longrightarrow>
    length itemss = length rows \<and>
    (\<forall>s < length rows. list_all (entry_ok (itemss ! s) (rows ! s)) (rows ! s))"
  by (induction rows itemss rule: rows_ok.induct) (auto simp: nth_Cons' less_Suc_eq_0_disj)

lemma weights_ok_nth: "weights_ok rows ws \<Longrightarrow>
    length ws = length rows \<and> (\<forall>s < length rows. list_all (weight_ok (ws ! s)) (rows ! s))"
  by (induction rows ws rule: weights_ok.induct) (auto simp: nth_Cons' less_Suc_eq_0_disj)

lemma table_lengths: "length table = 71" "length kernel_table = 71" "length weight_table = 71"
  by (simp_all add: table_def kernel_table_def weight_table_def)

lemma row_entry_ok: "s < length table \<Longrightarrow> xe \<in> set (table ! s) \<Longrightarrow> entry_ok (kernel s) (table ! s) xe"
  using rows_ok_nth [OF tables_ok] by (auto simp: list_all_iff kernel_def)

lemma row_weight_ok: "s < length table \<Longrightarrow> xe \<in> set (table ! s) \<Longrightarrow> weight_ok (weight s) xe"
  using weights_ok_nth [OF table_weights_ok] by (auto simp: list_all_iff weight_def)

lemma target_row:
  "target s x = Some t \<longleftrightarrow> s < length table \<and> Option.bind (map_of (table ! s) x) entry_target = Some t"
  by (simp add: target_def table_get_def)

lemma targetE:
  assumes "target s x = Some t"
  obtains e where "s < length table" "(x, e) \<in> set (table ! s)" "e = Goto t \<or> e = Shift t"
proof -
  from assms obtain e where "s < length table" "map_of (table ! s) x = Some e" "entry_target e = Some t"
    by (auto simp: target_row bind_eq_Some_conv)
  then show ?thesis using that [of e] by (cases e) (auto simp: entry_target_def dest: map_of_SomeD)
qed

interpretation handlebars: lr_automaton target kernel lhs rhs reduces weight 8
proof unfold_locales
  show "kernel 0 = []" by (simp add: kernel_values)
next
  fix s X s' p d
  assume "target s X = Some s'" and item: "(p, d) \<in> set (kernel s')"
  then obtain e where s: "s < length table" "(X, e) \<in> set (table ! s)" and e: "e = Goto s' \<or> e = Shift s'"
    by (elim targetE)
  from row_entry_ok [OF s] e have "list_all (item_ok X (kernel s) (table ! s)) (kernel s')"
    by (auto simp: entry_ok_def)
  with item have "item_ok X (kernel s) (table ! s) (p, d)" by (auto simp: list_all_iff)
  with s show "0 < d \<and> d \<le> length (rhs p) \<and> rhs p ! (d - 1) = X \<and>
      (if d = 1 then target s (lhs p) \<noteq> None else (p, d - 1) \<in> set (kernel s))"
    by (auto simp: item_ok_def target_def table_get_def split: if_splits)
next
  fix s p
  assume "reduces s p"
  then obtain x where s: "s < length table" "(x, Reduce p) \<in> set (table ! s)" by (auto simp: reduces_def)
  from row_entry_ok [OF s] s show
    "if rhs p = [] then target s (lhs p) \<noteq> None else (p, length (rhs p)) \<in> set (kernel s)"
    by (simp add: entry_ok_def target_def table_get_def)
next
  fix s p s0 t
  assume "reduces s p" and "target s0 (lhs p) = Some t"
  then obtain x e where s: "s < length table" "(x, Reduce p) \<in> set (table ! s)"
    and s0: "s0 < length table" "(lhs p, e) \<in> set (table ! s0)" and e: "e = Goto t \<or> e = Shift t"
    by (auto simp: reduces_def elim: targetE)
  have "weight t \<le> entry_weights ! lhs p" using row_weight_ok [OF s0] e by (auto simp: weight_ok_def)
  with row_weight_ok [OF s] show "weight t + 8 < weight s + 8 * length (rhs p)"
    by (simp add: weight_ok_def)
qed

lemma weight_bounds: "weight s \<le> 21"
proof -
  have "list_all (\<lambda>w. w \<le> 21) weight_table" by (simp add: weight_table_def)
  then show ?thesis by (auto simp: weight_def list_all_length)
qed

section \<open>Semantic values fit their symbols\<close>

definition val_ok :: "nat \<Rightarrow> yyval \<Rightarrow> bool" where
  "val_ok x v =
     (case v of
        VText t \<Rightarrow> map_of terminals x \<noteq> None
      | VStatements sts \<Rightarrow> x = 4 \<and> list_all wf_statement sts
      | VStatement st \<Rightarrow> wf_statement st \<and> (x = 8 \<or> x = 13 \<or> x \<in> {9, 11, 12} \<and> (\<exists>m. st = SMustache m))
      | VProgram p \<Rightarrow> (x = 3 \<or> x = 6) \<and> wf_program p
      | VStrip st \<Rightarrow> x = 7
      | VClose c \<Rightarrow> x = 10
      | VInMustache ps h \<Rightarrow> x = 17 \<and> ps \<noteq> [] \<and> is_path (hd ps) \<and> list_all wf_param ps \<and> pred_option wf_hash h
      | VParam p \<Rightarrow> wf_param p \<and> (x = 31 \<or> x \<in> {21, 27} \<and> (\<exists>i. p = PId i) \<or> x = 30 \<and> (\<exists>i. p = PData i))
      | VParams ps \<Rightarrow> x = 28 \<and> list_all wf_param ps
      | VHash h \<Rightarrow> (x = 29 \<or> x = 35) \<and> wf_hash h
      | VPair k p \<Rightarrow> x = 37 \<and> wf_param p
      | VPairs ps \<Rightarrow> x = 36 \<and> wf_hash ps
      | VName n \<Rightarrow> x = 26
      | VSegments ss \<Rightarrow> x = 41 \<and> ss \<noteq> []
      | VUndef \<Rightarrow> x = 27 \<or> x = 29
      | _ \<Rightarrow> False)"

definition outcome_ok :: "nat \<Rightarrow> outcome result \<Rightarrow> bool" where
  "outcome_ok p r =
     (case r of
        Inl e \<Rightarrow> e \<noteq> TypeErr
      | Inr (Assign v) \<Rightarrow> 2 < p \<and> val_ok (lhs p) v
      | Inr (Return v) \<Rightarrow> p \<le> 2 \<and> val_ok (lhs p) v)"

definition action_default :: "nat \<Rightarrow> yyval list \<Rightarrow> yyval" where
  "action_default p vs = (if rhs p = [] then VUndef else arg vs (length (rhs p) - 1))"

lemma terminal_name: "map_of terminals x \<noteq> None \<longleftrightarrow> x \<in> {2, 5, 14, 15, 16, 18, 19, 20, 22, 23, 24, 25, 32, 33, 34, 38, 39, 40, 42}"
  by (simp add: terminals_def)

lemma val_ok_iff [simp]:
  "val_ok 4 v \<longleftrightarrow> (\<exists>sts. v = VStatements sts \<and> list_all wf_statement sts)"
  "val_ok 6 v \<longleftrightarrow> (\<exists>p. v = VProgram p \<and> wf_program p)"
  "val_ok 7 v \<longleftrightarrow> (\<exists>st. v = VStrip st)"
  "val_ok 8 v \<longleftrightarrow> (\<exists>st. v = VStatement st \<and> wf_statement st)"
  "val_ok 13 v \<longleftrightarrow> (\<exists>st. v = VStatement st \<and> wf_statement st)"
  "val_ok 9 v \<longleftrightarrow> (\<exists>m. v = VStatement (SMustache m) \<and> wf_mustache m)"
  "val_ok 11 v \<longleftrightarrow> (\<exists>m. v = VStatement (SMustache m) \<and> wf_mustache m)"
  "val_ok 12 v \<longleftrightarrow> (\<exists>m. v = VStatement (SMustache m) \<and> wf_mustache m)"
  "val_ok 10 v \<longleftrightarrow> (\<exists>c. v = VClose c)"
  "val_ok 17 v \<longleftrightarrow> (\<exists>p ps h. v = VInMustache (p # ps) h \<and> is_path p \<and> wf_param p \<and> list_all wf_param ps \<and> pred_option wf_hash h)"
  "val_ok 21 v \<longleftrightarrow> (\<exists>i. v = VParam (PId i) \<and> wf_id i)"
  "val_ok 27 v \<longleftrightarrow> (v = VUndef \<or> (\<exists>i. v = VParam (PId i) \<and> wf_id i))"
  "val_ok 30 v \<longleftrightarrow> (\<exists>i. v = VParam (PData i) \<and> wf_id i)"
  "val_ok 31 v \<longleftrightarrow> (\<exists>p. v = VParam p \<and> wf_param p)"
  "val_ok 28 v \<longleftrightarrow> (\<exists>ps. v = VParams ps \<and> list_all wf_param ps)"
  "val_ok 29 v \<longleftrightarrow> (v = VUndef \<or> (\<exists>h. v = VHash h \<and> wf_hash h))"
  "val_ok 35 v \<longleftrightarrow> (\<exists>h. v = VHash h \<and> wf_hash h)"
  "val_ok 37 v \<longleftrightarrow> (\<exists>k p. v = VPair k p \<and> wf_param p)"
  "val_ok 36 v \<longleftrightarrow> (\<exists>ps. v = VPairs ps \<and> wf_hash ps)"
  "val_ok 26 v \<longleftrightarrow> (\<exists>n. v = VName n)"
  "val_ok 41 v \<longleftrightarrow> (\<exists>ss. v = VSegments ss \<and> ss \<noteq> [])"
  "val_ok 3 v \<longleftrightarrow> (\<exists>p. v = VProgram p \<and> wf_program p)"
  "val_ok 5 v \<longleftrightarrow> (\<exists>t. v = VText t)"
  "val_ok 14 v \<longleftrightarrow> (\<exists>t. v = VText t)"
  "val_ok 15 v \<longleftrightarrow> (\<exists>t. v = VText t)"
  "val_ok 16 v \<longleftrightarrow> (\<exists>t. v = VText t)"
  "val_ok 18 v \<longleftrightarrow> (\<exists>t. v = VText t)"
  "val_ok 19 v \<longleftrightarrow> (\<exists>t. v = VText t)"
  "val_ok 20 v \<longleftrightarrow> (\<exists>t. v = VText t)"
  "val_ok 22 v \<longleftrightarrow> (\<exists>t. v = VText t)"
  "val_ok 23 v \<longleftrightarrow> (\<exists>t. v = VText t)"
  "val_ok 24 v \<longleftrightarrow> (\<exists>t. v = VText t)"
  "val_ok 25 v \<longleftrightarrow> (\<exists>t. v = VText t)"
  "val_ok 32 v \<longleftrightarrow> (\<exists>t. v = VText t)"
  "val_ok 33 v \<longleftrightarrow> (\<exists>t. v = VText t)"
  "val_ok 34 v \<longleftrightarrow> (\<exists>t. v = VText t)"
  "val_ok 38 v \<longleftrightarrow> (\<exists>t. v = VText t)"
  "val_ok 39 v \<longleftrightarrow> (\<exists>t. v = VText t)"
  "val_ok 40 v \<longleftrightarrow> (\<exists>t. v = VText t)"
  "val_ok 42 v \<longleftrightarrow> (\<exists>t. v = VText t)"
  by (cases v; fastforce simp: val_ok_def terminals_def wf_param_def neq_Nil_conv)+

lemma production_cases:
  assumes "0 < p" and "p < (48 :: nat)"
  shows "p \<in> {1, 2, 3, 4, 5, 6, 7, 8, 9, 10, 11, 12, 13, 14, 15, 16, 17, 18, 19, 20, 21, 22, 23, 24} \<or>
    p \<in> {25, 26, 27, 28, 29, 30, 31, 32, 33, 34, 35, 36, 37, 38, 39, 40, 41, 42, 43, 44, 45, 46, 47}"
  using assms by (simp add: numeral_eq_Suc less_Suc_eq)

lemma arg_append [simp]: "i < length vs \<Longrightarrow> arg (vs @ vs0) i = arg vs i"
  by (simp add: arg_def nth_append)

lemma arg_simps [simp]: "arg (v # vs) 0 = v" "0 < n \<Longrightarrow> arg (v # vs) n = arg vs (n - 1)"
  by (auto simp: arg_def nth_Cons')

lemma mustache_action_ok:
  assumes "val_ok 17 v" and "x \<in> {19, 16, 22, 23}" "val_ok x t" and "y \<in> {18, 24}" "val_ok y u"
  shows "\<exists>m. mustache_action (u # v # t # vs) = Inr (Assign (VStatement (SMustache m))) \<and> wf_mustache m"
proof -
  obtain p ps h where v: "v = VInMustache (p # ps) h" "is_path p" "wf_param p" "list_all wf_param ps" "pred_option wf_hash h"
    using assms(1) by auto
  obtain open' close where "t = VText open'" "u = VText close"
    using assms by auto
  then show ?thesis using v MustacheNode_wf [OF v(2-5)]
    by (fastforce simp: mustache_action_def as_defs bindR_Inr_iff)
qed

lemma block_action_ok:
  assumes "x \<in> {9, 11}" "val_ok x t" and "val_ok 6 v" and "val_ok 10 u"
  shows "outcome_ok 11 (openInverse_block (u # v # t # vs))" and "outcome_ok 12 (openBlock_block (u # v # t # vs))"
proof -
  obtain m p c where v: "t = VStatement (SMustache m)" "wf_mustache m" "v = VProgram p" "wf_program p" "u = VClose c"
    using assms by auto
  note i = wf_p_inverse [OF v(4)]
  from v i BlockNode_wf [of m "p_inverse p" "Some p" c]
  show "outcome_ok 11 (openInverse_block (u # v # t # vs))"
    by (cases "BlockNode m (p_inverse p) (Some p) c")
      (auto simp: openInverse_block_def as_defs outcome_ok_def val_ok_def lhs_values)
  from v i BlockNode_wf [of m "Some p" "p_inverse p" c]
  show "outcome_ok 12 (openBlock_block (u # v # t # vs))"
    by (cases "BlockNode m (Some p) (p_inverse p) c")
      (auto simp: openBlock_block_def as_defs outcome_ok_def val_ok_def lhs_values)
qed

lemma IdNode_no_TypeErr: "IdNode ss \<noteq> Inl TypeErr"
proof -
  have "id_loop ss a b c d \<noteq> Inl TypeErr" for a b c d
    by (induction ss a b c d rule: id_loop.induct) (auto simp: id_loop.simps Let_def)
  then show ?thesis by (auto simp: IdNode_def split: bindR_split)
qed

lemmas action_simps = performAction_def as_defs outcome_ok_def lhs_values
  lhs_values(2) [unfolded One_nat_def] action_default_def

text \<open>On values that fit the right-hand side of a production its action yields a value that fits the left-hand side.\<close>

lemma action_ok1:
  assumes "p \<in> {1, 2, 3, 4, 5, 6, 7, 8, 9, 10}" "list_all2 val_ok (rev (rhs p)) vs"
  shows "outcome_ok p (performAction p (vs @ vs0) (action_default p (vs @ vs0)))"
  using assms(1,2) unfolding insert_iff empty_iff
  by (elim disjE; simp add: rhs_values list_all2_Cons1 del: One_nat_def)
    (auto simp: action_simps ProgramNode_wf)

lemma action_ok2:
  assumes "p \<in> {11, 12, 17, 18, 20, 21}" "list_all2 val_ok (rev (rhs p)) vs"
  shows "outcome_ok p (performAction p (vs @ vs0) (action_default p (vs @ vs0)))"
proof -
  obtain u v t where vs: "vs = [u, v, t]" using assms
    by (auto simp: rhs_values list_all2_Cons1)
  show ?thesis using assms unfolding insert_iff empty_iff
  proof (elim disjE)
    assume "p = 11"
    then show ?thesis using assms(2) block_action_ok(1) [of 9 t v u vs0] unfolding vs
      by (simp add: performAction_def rhs_values)
  next
    assume "p = 12"
    then show ?thesis using assms(2) block_action_ok(2) [of 11 t v u vs0] unfolding vs
      by (simp add: performAction_def rhs_values)
  next
    assume "p = 17"
    then show ?thesis using assms(2) mustache_action_ok [of v 16 t 18 u vs0] unfolding vs
      by (auto simp: performAction_def rhs_values outcome_ok_def lhs_values)
  next
    assume "p = 18"
    then show ?thesis using assms(2) mustache_action_ok [of v 19 t 18 u vs0] unfolding vs
      by (auto simp: performAction_def rhs_values outcome_ok_def lhs_values)
  next
    assume "p = 20"
    then show ?thesis using assms(2) mustache_action_ok [of v 22 t 18 u vs0] unfolding vs
      by (auto simp: performAction_def rhs_values outcome_ok_def lhs_values)
  next
    assume "p = 21"
    then show ?thesis using assms(2) mustache_action_ok [of v 23 t 24 u vs0] unfolding vs
      by (auto simp: performAction_def rhs_values outcome_ok_def lhs_values)
  qed auto
qed

lemma action_ok3:
  assumes "p \<in> {13, 14, 15, 16, 19, 22, 23, 24, 25, 26, 27, 28, 29}" "list_all2 val_ok (rev (rhs p)) vs"
  shows "outcome_ok p (performAction p (vs @ vs0) (action_default p (vs @ vs0)))"
  using assms(1,2) unfolding insert_iff empty_iff
  by (elim disjE; simp add: rhs_values list_all2_Cons1)
    (auto simp: action_simps wf_param_def is_path_def)

lemma action_ok4:
  assumes "p \<in> {30, 31, 32, 33, 34, 35, 36, 38, 39, 40}" "list_all2 val_ok (rev (rhs p)) vs"
  shows "outcome_ok p (performAction p (vs @ vs0) (action_default p (vs @ vs0)))"
  using assms(1,2) unfolding insert_iff empty_iff
  by (elim disjE; simp add: rhs_values list_all2_Cons1)
    (auto simp: action_simps rhs_values wf_param_def wf_hash_def)

lemma action_ok5:
  assumes "p \<in> {41, 42, 43, 44, 45, 46, 47}" "list_all2 val_ok (rev (rhs p)) vs"
  shows "outcome_ok p (performAction p (vs @ vs0) (action_default p (vs @ vs0)))"
  using assms(1,2) unfolding insert_iff empty_iff
  by (elim disjE; simp add: rhs_values list_all2_Cons1)
    (auto simp: action_simps rhs_values wf_param_def wf_hash_def)

lemma action_ok37:
  assumes "list_all2 val_ok (rev (rhs 37)) vs"
  shows "outcome_ok 37 (performAction 37 (vs @ vs0) (action_default 37 (vs @ vs0)))"
proof -
  obtain ss where "vs = [VSegments ss]" "ss \<noteq> []" using assms by (auto simp: rhs_values list_all2_Cons1)
  then show ?thesis using IdNode_wf [of ss] IdNode_no_TypeErr [of ss]
    by (cases "IdNode ss") (auto simp: action_simps)
qed

lemma performAction_ok:
  assumes "0 < p" "p < 48" "list_all2 val_ok (rev (rhs p)) vs"
  shows "outcome_ok p (performAction p (vs @ vs0) (action_default p (vs @ vs0)))"
  using production_cases [OF assms(1,2)] assms(3) action_ok1 [of p vs vs0] action_ok2 [of p vs vs0]
    action_ok3 [of p vs vs0] action_ok4 [of p vs vs0] action_ok5 [of p vs vs0] action_ok37 [of vs vs0]
  by auto

text \<open>An action reads only the values of its right-hand side.\<close>

lemma performAction_local:
  assumes "0 < p" "p < 48" "length vs = length (rhs p)"
  shows "performAction p (vs @ vs0) (action_default p (vs @ vs0)) = performAction p vs (action_default p vs)"
  using production_cases [OF assms(1,2)] assms(3) unfolding insert_iff empty_iff
  by (elim disjE; simp add: rhs_values performAction_def action_default_def mustache_action_def
      openInverse_block_def openBlock_block_def del: One_nat_def)

section \<open>Derivations\<close>

text \<open>
  The attribute grammar: a symbol derives a sequence of tokens (terminal and text) with a semantic
  value.  A terminal derives itself with its text; a left-hand side derives what its right-hand
  side derives, with the value the action of the production computes.
\<close>

inductive derives :: "nat \<Rightarrow> (nat \<times> jstr) list \<Rightarrow> yyval \<Rightarrow> bool" where
  derives_terminal: "map_of terminals t \<noteq> None \<Longrightarrow> derives t [(t, x)] (VText x)"
| derives_node: "0 < p \<Longrightarrow> p < 48 \<Longrightarrow> spell derives (rhs p) u vs \<Longrightarrow>
     performAction p vs (action_default p vs) \<in> {Inr (Assign v), Inr (Return v)} \<Longrightarrow>
     derives (lhs p) u v"

lemma derives_val_ok: "derives x u v \<Longrightarrow> val_ok x v"
proof (induction rule: derives.induct)
  case (derives_terminal t x)
  then show ?case by (simp add: val_ok_def)
next
  case (derives_node p u vs v)
  have "list_all2 val_ok (rev (rhs p)) vs"
    using derives_node.IH by (rule spell_list_all2) simp
  from performAction_ok [OF derives_node.hyps(1,2) this, of "[]"] derives_node.hyps
  show ?case by (auto simp: outcome_ok_def split: sum.splits outcome.splits)
qed

text \<open>The tokens the lexer delivers, with the lexer state after the last of them.\<close>

inductive lexed :: "jstr \<Rightarrow> (nat \<times> jstr) list \<Rightarrow> lexer \<Rightarrow> bool" for input where
  lexed_start: "lexed input [] (setInput input)"
| lexed_step: "lexed input toks lx \<Longrightarrow> lex lx = Inr (Tok t, lx') \<Longrightarrow>
     lexed input (toks @ [(t, yytext lx')]) lx'"

lemma lexed_ok: "lexed input toks lx \<Longrightarrow> lexer_ok lx"
proof (induction rule: lexed.induct)
  case lexed_start
  show ?case by (simp add: lexer_ok_def setInput_def)
qed (rule lex_ok)

section \<open>Facts about single rows\<close>

definition shift_ok :: "nat \<times> entry \<Rightarrow> bool" where
  "shift_ok xe =
     (case xe of
        (x, Shift t) \<Rightarrow>
          x \<in> {2, 5, 14, 15, 16, 18, 19, 20, 22, 23, 24, 25, 32, 33, 34, 38, 39, 40, 42} \<and> t \<notin> {0, 1} \<and> (x = 5 \<longrightarrow> t = 3 \<or> t = 16) \<and> x \<noteq> 1 \<and> x \<noteq> 3
      | (x, Goto t) \<Rightarrow> t \<noteq> 0 \<and> (t = 1 \<longrightarrow> x = 3) \<and> x > 2
      | (x, Reduce p) \<Rightarrow> 0 < p \<and> p < 48
      | (x, Accept) \<Rightarrow> True)"

lemma shifts_ok: "list_all (list_all shift_ok) table"
  unfolding table_def by (simp add: shift_ok_def del: One_nat_def)

lemma row_shift_ok: "s < length table \<Longrightarrow> xe \<in> set (table ! s) \<Longrightarrow> shift_ok xe"
  using shifts_ok by (auto simp: list_all_iff)

lemma only_root_row: "list_all (\<lambda>row. map_of row 3 = None) (tl table)"
  unfolding table_def by simp

lemma accept_row: "list_all (\<lambda>row. list_all (\<lambda>(x, e). e \<noteq> Accept) row) (hd table # tl (tl table))"
  unfolding table_def by simp

lemma target_root: "target s 3 \<noteq> None \<Longrightarrow> s = 0"
proof (rule ccontr)
  assume t: "target s 3 \<noteq> None" and "s \<noteq> 0"
  then have "s < length table" by (auto simp: target_row split: if_splits)
  with \<open>s \<noteq> 0\<close> have "table ! s \<in> set (tl table)"
    by (cases s) (auto simp: nth_tl [symmetric])
  with only_root_row t show False by (auto simp: list_all_iff target_row)
qed

lemma accept_state: "table_get s x = Some Accept \<Longrightarrow> s = 1"
proof (rule ccontr)
  assume t: "table_get s x = Some Accept" and s: "s \<noteq> 1"
  then have l: "s < length table" and a: "(x, Accept) \<in> set (table ! s)"
    by (auto simp: table_get_def dest: map_of_SomeD split: if_splits)
  have "table ! s \<in> set (hd table # tl (tl table))"
  proof (cases s)
    case 0
    with l show ?thesis by (simp add: hd_conv_nth)
  next
    case (Suc n)
    with s obtain m where m: "s = Suc (Suc m)" by (cases n) auto
    with l have "m < length (tl (tl table))" "table ! s = tl (tl table) ! m" by (simp_all add: nth_tl)
    then show ?thesis by auto
  qed
  with accept_row a show False by (auto simp: list_all_iff)
qed

lemma default_action:
  "map_of defaultActions s = Some a \<Longrightarrow> \<exists>p. a = Reduce p \<and> reduces s p \<and> (s \<in> {3, 16} \<longrightarrow> p \<le> 2)"
  by (auto simp: defaultActions_def reduces_def table_lengths table_def split: if_splits)

lemma reduce_entry: "table_get s x = Some (Reduce p) \<Longrightarrow> reduces s p"
  by (force simp: table_get_def reduces_def dest: map_of_SomeD split: if_splits)

lemma reduces_bound: "reduces s p \<Longrightarrow> 0 < p \<and> p < 48"
  by (auto simp: reduces_def shift_ok_def dest: row_shift_ok)

lemma shift_entry:
  "table_get s x = Some (Shift t) \<Longrightarrow>
     target s x = Some t \<and> map_of terminals x \<noteq> None \<and> t \<notin> {0, 1} \<and> (x = 5 \<longrightarrow> t = 3 \<or> t = 16) \<and> x \<noteq> 1 \<and> x \<noteq> 3"
  using row_shift_ok [of s "(x, Shift t)"] terminal_name [of x]
  by (auto simp: table_get_def target_def entry_target_def shift_ok_def dest: map_of_SomeD split: if_splits)

lemma target_states: "target s x = Some t \<Longrightarrow> t \<noteq> 0 \<and> (t = 1 \<longrightarrow> x = 3)"
  by (elim targetE) (auto dest!: row_shift_ok simp: shift_ok_def)

lemma lhs_nonterminal: "0 < p \<Longrightarrow> p < 48 \<Longrightarrow> map_of terminals (lhs p) = None"
proof -
  have "list_all (\<lambda>(x, n). x \<notin> {2, 5, 14, 15, 16, 18, 19, 20, 22, 23, 24, 25, 32, 33, 34, 38, 39, 40, 42}) productions"
    by (simp add: productions_def)
  moreover have "length productions = 48" by (simp add: productions_def)
  moreover assume "p < 48"
  ultimately have "lhs p \<notin> {2, 5, 14, 15, 16, 18, 19, 20, 22, 23, 24, 25, 32, 33, 34, 38, 39, 40, 42}"
    by (simp add: list_all_length lhs_def split_beta)
  then show ?thesis using terminal_name [of "lhs p"] by blast
qed

lemma target_goto:
  assumes "target s x = Some t" "map_of terminals x = None"
  shows "table_get s x = Some (Goto t)"
proof -
  obtain e where e: "table_get s x = Some e" "entry_target e = Some t"
    using assms(1) by (auto simp: target_def bind_eq_Some_conv)
  with shift_entry [of s x t] assms(2) show ?thesis by (cases e) (auto simp: entry_target_def)
qed

section \<open>Every step keeps the invariant and makes progress\<close>

definition sub_derives :: "nat \<Rightarrow> (nat \<times> jstr) list \<Rightarrow> yyval \<Rightarrow> bool" where
  "sub_derives x u v \<longleftrightarrow> derives x u v \<and> x \<noteq> 3"

definition parser_inv :: "jstr \<Rightarrow> parser \<Rightarrow> (nat \<times> jstr) list \<Rightarrow> bool" where
  "parser_inv input ps toks \<longleftrightarrow>
     lr_stack target sub_derives VNull (stack ps) (vstack ps) toks \<and>
     length (lstack ps) = length (vstack ps) \<and>
     (case symbol ps of
        None \<Rightarrow> lexed input toks (lexer_of ps)
      | Some t \<Rightarrow> \<exists>lx. lexed input toks lx \<and> lex lx = Inr (t, lexer_of ps))"

definition tokens_left :: "parser \<Rightarrow> nat" where
  "tokens_left ps = length (lx_input (lexer_of ps)) +
     (case symbol ps of None \<Rightarrow> 0 | Some t \<Rightarrow> if t = Tok 1 \<or> t = Tok 5 then 0 else 1)"

definition parse_measure :: "parser \<Rightarrow> nat" where
  "parse_measure ps =
     (if hd (stack ps) \<in> {3, 16} then 0
      else 1 + 30 * tokens_left ps + handlebars.potential (stack ps))"

definition step_ok :: "jstr \<Rightarrow> parser \<Rightarrow> step result \<Rightarrow> bool" where
  "step_ok input ps r =
     (case r of
        Inl e \<Rightarrow> e \<noteq> TypeErr
      | Inr (Finished v) \<Rightarrow>
          (\<exists>toks lx p. lexed input toks lx \<and> derives 3 toks v \<and> v = VProgram p \<and> wf_program p)
      | Inr (Continue ps') \<Rightarrow>
          (\<exists>toks. parser_inv input ps' toks) \<and> parse_measure ps' < parse_measure ps)"

lemma parser_inv_start: "parser_inv input (parse_start input) []"
  by (simp add: parser_inv_def parse_start_def lr_bottom lexed_start)

lemma bottom_state: "lr_stack target D vbot (0 # rest) vs w \<Longrightarrow> rest = [] \<and> w = []"
  by (erule lr_stack.cases) (auto dest: target_states)

lemma no_root_state: "\<not> lr_stack target sub_derives vbot (1 # rest) vs w"
proof
  assume "lr_stack target sub_derives vbot (1 # rest) vs w"
  then show False by (cases rule: lr_stack.cases) (auto dest: target_states simp: sub_derives_def)
qed

lemma lexed_of_inv:
  "parser_inv input ps toks \<Longrightarrow> \<exists>lx. lexed input toks lx"
  by (auto simp: parser_inv_def split: option.splits)

lemma reduce_loc_ok: "len \<le> length ls \<Longrightarrow> ls \<noteq> [] \<Longrightarrow> \<exists>loc. reduce_loc len ls = Inr loc"
  by (cases ls) (auto simp: reduce_loc_def Let_def)

lemma productions_values: "0 < p \<Longrightarrow> p < 48 \<Longrightarrow> productions ! p = (lhs p, length (rhs p))"
proof -
  assume "0 < p" "p < 48"
  moreover have "map snd productions = map length rhs_table" by (simp add: productions_def rhs_table_def)
  moreover have "length productions = 48" "length rhs_table = 48"
    by (simp_all add: productions_def rhs_table_def)
  ultimately show ?thesis by (metis length_map lhs_def nth_map prod.collapse rhs_def)
qed

lemma reduce_ok:
  assumes inv: "parser_inv input ps toks" and st: "stack ps = s # st" and r: "reduces s p"
    and early: "s \<in> {3, 16} \<Longrightarrow> p \<le> 2"
  shows "step_ok input ps (reduce p ps)"
proof -
  have p: "0 < p" "p < 48" using reduces_bound [OF r] by auto
  from inv st have lr: "lr_stack target sub_derives VNull (s # st) (vstack ps) toks"
    and ls: "length (lstack ps) = length (vstack ps)"
    by (auto simp: parser_inv_def)
  obtain s0 rest vs0 vs1 w0 u t where
    d: "drop (2 * length (rhs p)) (s # st) = s0 # rest" and vs: "vstack ps = vs1 @ vs0"
    and len: "length vs1 = length (rhs p)" and sp: "spell sub_derives (rhs p) u vs1"
    and w: "toks = w0 @ u" and low: "lr_stack target sub_derives VNull (s0 # rest) vs0 w0"
    and t: "target s0 (lhs p) = Some t"
    and pot: "handlebars.potential (t # lhs p # s0 # rest) < handlebars.potential (s # st)"
    by (rule handlebars.lr_stack_reduce [OF lr r])
  obtain loc where loc: "reduce_loc (length (rhs p)) (lstack ps) = Inr loc"
    using reduce_loc_ok [of "length (rhs p)" "lstack ps"] ls len vs lr_stack_values [OF low] by fastforce
  let ?act = "performAction p (vstack ps) (action_default p (vstack ps))"
  have "list_all2 val_ok (rev (rhs p)) vs1"
    using sp by (rule spell_list_all2) (auto simp: sub_derives_def derives_val_ok)
  from performAction_ok [OF p this, of vs0] have ok: "outcome_ok p ?act" by (simp add: vs)
  have dv: "drop (length (rhs p)) (vstack ps) = vs0" using vs len by simp
  have red: "reduce p ps = bindR ?act (\<lambda>r.
      case r of Return v \<Rightarrow> Inr (Finished v)
      | Assign v \<Rightarrow> (case table_get s0 (lhs p) of
          Some (Goto s') \<Rightarrow> Inr (Continue (ps\<lparr>stack := s' # lhs p # s0 # rest,
             vstack := v # drop (length (rhs p)) (vstack ps),
             lstack := loc # drop (length (rhs p)) (lstack ps)\<rparr>))
        | _ \<Rightarrow> Inl TypeErr))"
    using d loc by (simp add: reduce_def productions_values [OF p] st action_default_def)
  have derives: "derives (lhs p) u v" if "?act \<in> {Inr (Assign v), Inr (Return v)}" for v
  proof (rule derives_node [OF p])
    show "spell derives (rhs p) u vs1"
      using sp spell_mono [of sub_derives derives] by (auto simp: sub_derives_def)
    show "performAction p vs1 (action_default p vs1) \<in> {Inr (Assign v), Inr (Return v)}"
      using that performAction_local [OF p len, of vs0] by (simp add: vs)
  qed
  show ?thesis
  proof (cases ?act)
    case (Inl e)
    with ok red show ?thesis by (auto simp: step_ok_def outcome_ok_def)
  next
    case (Inr o')
    show ?thesis
    proof (cases o')
      case (Return v)
      with ok Inr have "p \<le> 2" and v: "val_ok (lhs p) v" by (auto simp: outcome_ok_def)
      with p have "p = 1 \<or> p = 2" by auto
      then have l: "lhs p = 3" by (auto simp: lhs_values simp del: One_nat_def)
      with target_root t bottom_state low w have "toks = u" by (metis append_Nil option.discI)
      moreover have "derives 3 u v" using derives [of v] Inr Return l by simp
      moreover obtain p' where "v = VProgram p'" "wf_program p'" using v l by auto
      ultimately show ?thesis using red Inr Return lexed_of_inv [OF inv]
        by (auto simp: step_ok_def)
    next
      case (Assign v)
      with ok Inr have "2 < p" by (auto simp: outcome_ok_def)
      then have l: "lhs p \<noteq> 3" using production_cases [OF p] by (auto simp: lhs_values)
      have "derives (lhs p) u v" using derives [of v] Inr Assign by simp
      then have push: "lr_stack target sub_derives VNull (t # lhs p # s0 # rest) (v # vs0) toks"
        using lr_push [OF low t] l w by (simp add: sub_derives_def)
      have g: "table_get s0 (lhs p) = Some (Goto t)"
        using target_goto [OF t] lhs_nonterminal [OF p] by simp
      have "parse_measure (ps\<lparr>stack := t # lhs p # s0 # rest, vstack := v # vs0,
          lstack := loc # drop (length (rhs p)) (lstack ps)\<rparr>) < parse_measure ps"
        using early \<open>2 < p\<close> pot by (auto simp: parse_measure_def st tokens_left_def)
      moreover have "parser_inv input (ps\<lparr>stack := t # lhs p # s0 # rest, vstack := v # vs0,
          lstack := loc # drop (length (rhs p)) (lstack ps)\<rparr>) toks"
        using inv push ls len vs by (auto simp: parser_inv_def split: option.splits)
      ultimately show ?thesis using red Inr Assign g dv by (auto simp: step_ok_def)
    qed
  qed
qed


text \<open>Fetching a token keeps the invariant and never enlarges the measure.\<close>

lemma fetch_ok:
  assumes "parser_inv input ps toks"
  shows "fetch ps \<noteq> Inl TypeErr"
    and "fetch ps = Inr (t, ps') \<Longrightarrow>
      parser_inv input ps' toks \<and> symbol ps' = Some t \<and> stack ps' = stack ps \<and> tokens_left ps' \<le> tokens_left ps"
proof -
  show "fetch ps \<noteq> Inl TypeErr"
  proof (cases "symbol ps")
    case None
    with assms have "lexer_ok (lexer_of ps)" by (auto simp: parser_inv_def intro: lexed_ok)
    then show ?thesis using lex_no_TypeErr None by (auto simp: fetch_def split: bindR_split)
  qed (simp add: fetch_def)
next
  assume f: "fetch ps = Inr (t, ps')"
  show "parser_inv input ps' toks \<and> symbol ps' = Some t \<and> stack ps' = stack ps \<and> tokens_left ps' \<le> tokens_left ps"
  proof (cases "symbol ps")
    case None
    with assms have lx: "lexed input toks (lexer_of ps)" by (simp add: parser_inv_def)
    obtain lx' where l: "lex (lexer_of ps) = Inr (t, lx')" and ps': "ps' = ps\<lparr>symbol := Some t, lexer_of := lx'\<rparr>"
      using f None by (auto simp: fetch_def bindR_Inr_iff)
    from lex_progress [OF lexed_ok [OF lx] l] have "tokens_left ps' \<le> tokens_left ps"
      by (auto simp: tokens_left_def ps' None)
    then show ?thesis using assms lx l by (auto simp: ps' parser_inv_def None)
  qed (use f assms in \<open>simp add: fetch_def\<close>)
qed

lemma shift_step_ok:
  assumes inv: "parser_inv input ps toks" and sym: "symbol ps = Some (Tok x)"
    and st: "stack ps = s # st" "s \<notin> {3, 16}" and e: "table_get s x = Some (Shift t)"
  shows "step_ok input ps (bindR (shift t ps) (\<lambda>ps'. Inr (Continue ps')))"
proof -
  let ?ps = "ps\<lparr>stack := t # x # stack ps, vstack := VText (yytext (lexer_of ps)) # vstack ps,
      lstack := yylloc (lexer_of ps) # lstack ps, symbol := None, last_lineno := yylineno (lexer_of ps)\<rparr>"
  note e = shift_entry [OF e]
  obtain lx where lx: "lexed input toks lx" "lex lx = Inr (Tok x, lexer_of ps)"
    using inv sym by (auto simp: parser_inv_def)
  have "lr_stack target sub_derives VNull (t # x # s # st) (VText (yytext (lexer_of ps)) # vstack ps)
      (toks @ [(x, yytext (lexer_of ps))])"
    using inv st e by (intro lr_push) (auto simp: parser_inv_def sub_derives_def intro: derives_terminal)
  then have "parser_inv input ?ps (toks @ [(x, yytext (lexer_of ps))])"
    using inv st lexed_step [OF lx] by (simp add: parser_inv_def)
  moreover have "parse_measure ?ps < parse_measure ps"
    using e st sym weight_bounds [of t]
    by (auto simp: parse_measure_def tokens_left_def handlebars.potential_def)
  ultimately show ?thesis using sym by (auto simp: shift_def step_ok_def)
qed

lemma step_ok_mono: "step_ok input ps' r \<Longrightarrow> stack ps' = stack ps \<Longrightarrow> tokens_left ps' \<le> tokens_left ps \<Longrightarrow> step_ok input ps r"
  by (auto simp: step_ok_def parse_measure_def split: sum.splits step.splits if_splits)

lemma parse_step_ok:
  assumes inv: "parser_inv input ps toks"
  shows "step_ok input ps (parse_step ps)"
proof -
  obtain s st where st: "stack ps = s # st"
    using inv lr_stack_values [of target sub_derives VNull "stack ps"]
    by (cases "stack ps") (auto simp: parser_inv_def)
  show ?thesis
  proof (cases "map_of defaultActions s")
    case (Some a)
    with default_action obtain p where "a = Reduce p" "reduces s p" "s \<in> {3, 16} \<longrightarrow> p \<le> 2" by blast
    with Some st reduce_ok [OF inv st, of p] show ?thesis by (auto simp: parse_step_def)
  next
    case None
    then have s: "s \<notin> {3, 16}" by (auto simp: defaultActions_def)
    show ?thesis
    proof (cases "fetch ps")
      case (Inl e)
      with fetch_ok(1) [OF inv] None st show ?thesis by (auto simp: parse_step_def step_ok_def)
    next
      case (Inr r)
      obtain t ps' where r: "r = (t, ps')" by (cases r)
      from fetch_ok(2) [OF inv] Inr r have inv': "parser_inv input ps' toks" and sym: "symbol ps' = Some t"
        and st': "stack ps' = s # st" and left: "tokens_left ps' \<le> tokens_left ps" by (auto simp: st)
      have "step_ok input ps' (parse_step ps)"
      proof (cases "token_entry s t")
        case (Some e)
        then obtain x where t: "t = Tok x" and e: "table_get s x = Some e"
          by (auto simp: token_entry_def split: token.splits)
        have "s \<noteq> 1" using inv' st' no_root_state by (auto simp: parser_inv_def)
        then have "e \<noteq> Accept" using accept_state e by blast
        then show ?thesis
          using None Inr r st Some sym t e st' s shift_step_ok [OF inv' sym [unfolded t] st' s]
            reduce_ok [OF inv' st' reduce_entry]
          by (cases e) (auto simp: parse_step_def step_ok_def parse_error_def)
      qed (use None Inr r st sym in \<open>auto simp: parse_step_def step_ok_def parse_error_def\<close>)
      then show ?thesis by (rule step_ok_mono) (simp_all add: st st' left)
    qed
  qed
qed

section \<open>The parser returns, and what it returns is a derivation\<close>

lemma parse_loop_ok:
  "parser_inv input ps toks \<Longrightarrow>
     \<exists>r. parse_loop ps = Some r \<and> r \<noteq> Inl TypeErr \<and>
       (\<forall>v. r = Inr v \<longrightarrow> (\<exists>toks lx p. lexed input toks lx \<and> derives 3 toks v \<and> v = VProgram p \<and> wf_program p))"
proof (induction ps arbitrary: toks rule: measure_induct_rule [of parse_measure])
  case (less ps)
  note ok = parse_step_ok [OF less.prems]
  show ?case
  proof (cases "parse_step ps")
    case (Inl e)
    with ok show ?thesis by (subst parse_loop.simps) (simp add: step_ok_def)
  next
    case (Inr r)
    show ?thesis
    proof (cases r)
      case (Continue ps')
      with ok Inr obtain toks' where "parser_inv input ps' toks'" "parse_measure ps' < parse_measure ps"
        by (auto simp: step_ok_def)
      from less.IH [OF this(2,1)] show ?thesis
        by (subst parse_loop.simps) (simp add: Inr Continue)
    next
      case (Finished v)
      with ok Inr show ?thesis by (subst parse_loop.simps) (simp add: step_ok_def)
    qed
  qed
qed

section \<open>Text without mustaches\<close>

lemma lazy_until_None: "(\<And>k. k \<le> length s \<Longrightarrow> \<not> stop (drop k s)) \<Longrightarrow> lazy_until stop ok s = None"
proof (induction s)
  case (Cons c s)
  have "\<not> stop (c # s)" using Cons.prems [of 0] by simp
  moreover have "\<not> stop (drop k s)" if "k \<le> length s" for k
    using Cons.prems [of "Suc k"] that by simp
  ultimately show ?case using Cons.IH by simp
qed simp

text \<open>A non-empty text with no NUL and no opening \<open>{{\<close>.\<close>

definition plain_text :: "jstr \<Rightarrow> bool" where
  "plain_text s \<longleftrightarrow> s \<noteq> [] \<and> list_all nonNul s \<and>
     list_all (\<lambda>k. \<not> starts (js ''{{'') (drop k s)) [0..<length s]"

lemma plain_text_no_open: "plain_text s \<Longrightarrow> lazy_until (starts (js ''{{'')) nonNul s = None"
proof (rule lazy_until_None)
  fix k assume "plain_text s" "k \<le> length s"
  then show "\<not> starts (js ''{{'') (drop k s)"
    by (cases "k = length s") (auto simp: plain_text_def list_all_iff starts_def)
qed

lemma plain_text_match: "plain_text s \<Longrightarrow> first_match [0, 1, 30] s = Some (1, length s)"
  using plain_text_no_open [of s]
  by (simp add: rules_def one_or_more_def plain_text_def list_all_iff takeWhile_eq_all_conv [THEN iffD2])

lemma end_match: "first_match [0, 1, 30] [] = Some (30, 0)"
  by (simp add: rules_def one_or_more_def starts_def)

lemma next_token_initial:
  assumes "\<not> lx_done lx" "conditionStack lx = [INITIAL]" "first_match [0, 1, 30] (lx_input lx) = Some (r, n)"
    "lex_action r (advance n (prepare lx)) = (Some t, lx')" "lx_input lx' = []"
  shows "lex lx = Inr (t, lx')"
proof -
  have "next_token lx = Inr (Some t, lx')"
    using assms by (simp add: next_token_def currentRules_def conditions_def Let_def del: first_match.simps)
  then show ?thesis by (simp add: lex.simps [of lx])
qed

lemma lex_plain:
  assumes "plain_text input"
  obtains lx where "lex (setInput input) = Inr (Tok 14, lx)" "yytext lx = input" "lx_input lx = []"
    "conditionStack lx = [INITIAL]" "\<not> lx_done lx"
proof -
  let ?lx = "advance (length input) (setInput input)"
  have p: "prepare (setInput input) = setInput input"
    using assms by (simp add: prepare_def setInput_def plain_text_def)
  have s: "lx_input (setInput input) = input" "conditionStack (setInput input) = [INITIAL]"
    "\<not> lx_done (setInput input)" "yytext (setInput input) = []" by (simp_all add: setInput_def)
  have d: "\<not> lx_done ?lx" by (simp add: advance_def Let_def s)
  have "lex (setInput input) = Inr (Tok 14, ?lx)"
    by (rule next_token_initial [where r = 1 and n = "length input"])
      (simp_all add: s p plain_text_match [OF assms, unfolded One_nat_def] lex_action_def del: first_match.simps)
  then show thesis by (rule that) (simp_all add: s d)
qed

lemma lex_end:
  assumes "lx_input lx = []" "conditionStack lx = [INITIAL]" "\<not> lx_done lx"
  obtains lx' where "lex lx = Inr (Tok 5, lx')"
  by (rule that [of "advance 0 (prepare lx)"], rule next_token_initial [where r = 30 and n = 0])
    (simp_all add: assms end_match [unfolded One_nat_def] lex_action_def del: first_match.simps)

lemma table_values:
  "table_get 0 14 = Some (Shift 9)" "table_get 9 5 = Some (Reduce 15)" "table_get 0 8 = Some (Goto 4)"
  "table_get 4 5 = Some (Reduce 9)" "table_get 0 4 = Some (Goto 2)" "table_get 2 5 = Some (Shift 16)"
  by (simp_all add: table_get_def table_def)

lemma production_values:
  "productions ! 15 = (8, 1)" "productions ! 9 = (4, 1)" "productions ! 1 = (3, 2)"
  by (simp_all add: productions_def)

lemmas parse_run = parse_step_def fetch_def token_entry_def shift_def reduce_def reduce_loc_def
  performAction_def arg_def as_defs production_values production_values(3) [unfolded One_nat_def]
  defaultActions_def table_values

lemma parse_plain:
  assumes "plain_text input"
  shows "parse input = Some (Inr (VProgram (ProgramNode [SContent input] None None)))"
proof -
  obtain lx where lx: "lex (setInput input) = Inr (Tok 14, lx)" "yytext lx = input" "lx_input lx = []"
    "conditionStack lx = [INITIAL]" "\<not> lx_done lx"
    by (rule lex_plain [OF assms])
  obtain lx' where "lex lx = Inr (Tok 5, lx')" by (rule lex_end [OF lx(3-5)])
  note lexes = lx this
  show ?thesis
    unfolding parse_def parse_start_def
    by (subst parse_loop.simps, simp add: parse_run lexes)+
qed

lemma plain_ab: "plain_text (js ''ab'')"
  by (simp add: plain_text_def nonNul_def starts_def upt_rec)

section \<open>The properties of the parser\<close>

text \<open>
  C6.  The parser returns on every input: with a well-formed program node, or by throwing a parse
  error, a lexical error or a Handlebars exception.  It never fails in the engine: no semantic
  action meets a value of the wrong shape and no table look-up is undefined.
\<close>

theorem parse_returns:
  "\<exists>r. parse input = Some r \<and>
     (case r of Inl e \<Rightarrow> e \<noteq> TypeErr | Inr v \<Rightarrow> (\<exists>p. v = VProgram p \<and> wf_program p))"
  using parse_loop_ok [OF parser_inv_start, of input] by (auto simp: parse_def split: sum.split)

text \<open>
  C7.  Soundness for the grammar: a program node that \<open>parse\<close> returns is the value of the start
  symbol in a derivation of exactly the token sequence that the lexer delivers for the input.
\<close>

theorem parse_sound:
  "parse input = Some (Inr v) \<Longrightarrow> \<exists>toks lx. lexed input toks lx \<and> derives 3 toks v"
  using parse_loop_ok [OF parser_inv_start, of input] by (fastforce simp: parse_def)

theorem parse_sound_witness:
  "parse (js ''ab'') = Some (Inr (VProgram (ProgramNode [SContent (js ''ab'')] None None))) \<and>
   (\<exists>toks lx. lexed (js ''ab'') toks lx \<and>
      derives 3 toks (VProgram (ProgramNode [SContent (js ''ab'')] None None)))"
  using parse_plain [OF plain_ab] parse_sound [OF parse_plain [OF plain_ab]] by blast

text \<open>
  C8.  A template without mustaches is its own content: a non-empty text with no NUL and no
  opening braces parses to the program with that text as its single content statement.
\<close>

theorem parse_plain_text:
  "plain_text input \<Longrightarrow> parse input = Some (Inr (VProgram (ProgramNode [SContent input] None None)))"
  by (rule parse_plain)

theorem parse_plain_text_witness:
  "plain_text (js ''ab'') \<and>
   parse (js ''ab'') = Some (Inr (VProgram (ProgramNode [SContent (js ''ab'')] None None)))"
  using plain_ab parse_plain_text [OF plain_ab] by blast

end
