(* ===== verification/HB_Runtime.thy ===== *)
theory HB_Runtime
  imports HB_Base HB_Parser
begin

text \<open>
  The runtime of \<open>resources/js/handlebars.js\<close>: module \<open>runtime.js\<close> (lines 333 to 477), the functions
  \<open>precompile\<close> and \<open>compile\<close> that chain the parser, the compiler and the generator (lines 2520 to
  2563), and the \<open>parse\<close> of \<open>compiler/base.js\<close>.

  A compiled template is a closure of the state: its input, its options and, after the first call,
  the generated function with its container.  Running generated code is the work of the
  JavaScript engine and is a parameter of the definitions: \<open>runT\<close> runs the body of a template and
  \<open>runP\<close> one of its programs.

  The options of \<open>compile\<close> are taken by value when it is called.  The code keeps the object of the
  caller, sets its \<open>data\<close>, reads it at the first call of the template and writes to it while it compiles.
  So the model is of callers that pass an object of its own to each \<open>compile\<close> and leave it alone
  afterwards; two templates that share one, or a change of it before the first call, are outside it.
\<close>

section \<open>Revision check\<close>

definition COMPILER_REVISION :: int where
  "COMPILER_REVISION = 4"

definition revision_changes :: "int \<Rightarrow> jstr" where
  "revision_changes r =
     (if r = 1 then js ''<= 1.0.rc.2'' else if r = 2 then js ''== 1.0.0-rc.3''
      else if r = 3 then js ''== 1.0.0-rc.4'' else if r = 4 then js ''>= 1.0.0'' else js ''undefined'')"

definition checkRevision :: "(int \<times> jstr) option \<Rightarrow> unit result" where
  "checkRevision info =
     (let compilerRevision = (case info of None \<Rightarrow> 1 | Some (r, _) \<Rightarrow> if r = 0 then 1 else r)
      in if compilerRevision \<noteq> COMPILER_REVISION then
           if compilerRevision < COMPILER_REVISION then
             Inl (Error (js ''Template was precompiled with an older version of Handlebars than the current runtime. '' @
               js ''Please update your precompiler to a newer version ('' @ revision_changes COMPILER_REVISION @
               js '') or downgrade your runtime to an older version ('' @ revision_changes compilerRevision @ js '').''))
           else
             Inl (Error (js ''Template was precompiled with a newer version of Handlebars than the current runtime. '' @
               js ''Please update your runtime to a newer version ('' @
               (case info of None \<Rightarrow> js ''undefined'' | Some (_, v) \<Rightarrow> v) @ js '').''))
         else Inr ())"

section \<open>Programs\<close>

definition program :: "nat \<Rightarrow> nat \<Rightarrow> frame option \<Rightarrow> wrapper" where
  "program i fn dat = \<lparr>w_program = i, w_depth = 0, w_fn = fn, w_data = dat, w_args = []\<rparr>"

definition programWithDepth :: "nat \<Rightarrow> nat \<Rightarrow> frame option \<Rightarrow> jsval list \<Rightarrow> wrapper" where
  "programWithDepth i fn dat args = \<lparr>w_program = i, w_depth = length args, w_fn = fn, w_data = dat, w_args = args\<rparr>"

text \<open>Calling a wrapper: the data of the call, or else the data it was made with.\<close>

definition call_wrapper ::
    "(nat \<Rightarrow> jsval \<Rightarrow> frame option \<Rightarrow> jsval list \<Rightarrow> ('s, jsval) act) \<Rightarrow> wrapper \<Rightarrow> 's block" where
  "call_wrapper runP w context dat =
     runP (w_fn w) context (case dat of Some d \<Rightarrow> Some d | None \<Rightarrow> w_data w) (w_args w)"

definition noop :: jsval where
  "noop = JStr []"

text \<open>\<open>container.program\<close> and \<open>container.merge\<close>.\<close>

definition container_program :: "nat \<Rightarrow> nat \<Rightarrow> frame option \<Rightarrow> compiled \<Rightarrow> wrapper \<times> compiled" where
  "container_program i fn dat c =
     (case dat of
        Some _ \<Rightarrow> (program i fn dat, c)
      | None \<Rightarrow>
          (case arr_get (c_programs c) i of
             Some w \<Rightarrow> (w, c)
           | None \<Rightarrow> let w = program i fn None in (w, c\<lparr>c_programs := arr_set (c_programs c) i w\<rparr>)))"

definition container_merge :: "nat option \<Rightarrow> nat option \<Rightarrow> 'x hb_scheme \<Rightarrow> nat option \<times> 'x hb_scheme" where
  "container_merge param common s =
     (case (param, common) of
        (Some p, Some c) \<Rightarrow>
          if p \<noteq> c then
            let ret = HB_Utils.extend (HB_Utils.extend [] (table_of c s)) (table_of p s)
            in (Some (length (tables s)), s\<lparr>tables := tables s @ [ret]\<rparr>)
          else (param, s)
      | (None, _) \<Rightarrow> (common, s)
      | (Some p, None) \<Rightarrow> (param, s))"

section \<open>Compilation\<close>

text \<open>
  \<open>parse\<close> of \<open>compiler/base.js\<close>: an AST is passed through.  The parser loop returns on every input
  (\<open>parse_returns\<close>); the value for a loop that does not return is never taken.
\<close>

definition parse_input :: "input \<Rightarrow> HB_AST.program result" where
  "parse_input i =
     (case i of
        IAst p \<Rightarrow> Inr p
      | ISource t \<Rightarrow>
          (case parse t of
             Some (Inr (VProgram p)) \<Rightarrow> Inr p
           | Some (Inl e) \<Rightarrow> Inl e
           | _ \<Rightarrow> Inl TypeErr))"

text \<open>What is passed as a template, and the check of it.\<close>

datatype template_input = TValue jsval | TAst HB_AST.program

definition check_input :: "(nat \<Rightarrow> jstr) \<Rightarrow> jstr \<Rightarrow> template_input \<Rightarrow> input result" where
  "check_input sr what i =
     (case i of
        TAst p \<Rightarrow> Inr (IAst p)
      | TValue (JStr t) \<Rightarrow> Inr (ISource t)
      | TValue v \<Rightarrow>
          Inl (HBException (js ''You must pass a string or Handlebars AST to Handlebars.'' @ what @
            js ''. You passed '' @ toStr sr v)))"

text \<open>
  The options: absent, or given with or without a \<open>data\<close> property; \<open>data\<close> defaults to true.  The
  compiler changes its options object on the way, so the generator reads the changed ones; a later
  attempt after a failed compilation reads them too, which changes nothing.
\<close>

record given_options =
  g_options :: options
  g_data :: "bool option"

definition empty_options :: options where
  "empty_options = \<lparr>stringParams = False, data = False, knownHelpersOnly = False, noEscape = False, knownHelpers = []\<rparr>"

definition with_data :: "given_options option \<Rightarrow> options" where
  "with_data g =
     (case g of
        None \<Rightarrow> empty_options\<lparr>data := True\<rparr>
      | Some o' \<Rightarrow> (g_options o')\<lparr>data := (case g_data o' of None \<Rightarrow> True | Some b \<Rightarrow> b)\<rparr>)"

definition precompile :: "(nat \<Rightarrow> jstr) \<Rightarrow> template_input \<Rightarrow> given_options option \<Rightarrow> jstr result" where
  "precompile sr input opts =
     bindR (check_input sr (js ''precompile'') input) (\<lambda>i.
     bindR (parse_input i) (\<lambda>ast.
     bindR (compile ast (with_data opts)) (\<lambda>(environment, opts).
       compile_text environment opts)))"

text \<open>\<open>compileInput\<close>: the parameters and the body of the function.\<close>

definition compileInput :: "input \<Rightarrow> options \<Rightarrow> (jstr list \<times> jstr) result" where
  "compileInput i opts =
     bindR (parse_input i) (\<lambda>ast.
     bindR (compile ast opts) (\<lambda>(environment, opts).
       compile_function environment opts))"

text \<open>
  \<open>compile(input, options, env)\<close> returns a new function value; the work is done on its first call, with the
  options as they are now, because nobody else has their object.
\<close>

definition hb_compile ::
    "'x hb_scheme engine \<Rightarrow> template_input \<Rightarrow> given_options option \<Rightarrow> ('x hb_scheme, nat) act" where
  "hb_compile E input opts s =
     (case check_input (src E) (js ''compile'') input of
        Inl e \<Rightarrow> (Inl e, s)
      | Inr i \<Rightarrow>
          (Inr (next_fun s),
           s\<lparr>closures := (next_fun s, \<lparr>l_input = i, l_options = with_data opts, l_compiled = None\<rparr>) # closures s,
             next_fun := Suc (next_fun s)\<rparr>))"

section \<open>Templates\<close>

text \<open>The options of a call of a template.\<close>

record call_options =
  o_partial :: bool
  o_helpers :: "nat option"
  o_partials :: "nat option"
  o_data :: "frame option"

text \<open>
  \<open>templateSpec.call(container, namespace, context, helpers, partials, data)\<close>: the template is
  named by its closure, and the namespace is given by its two tables.
\<close>

type_synonym 's runT =
  "jstr list \<times> jstr \<Rightarrow> nat \<Rightarrow> nat option \<times> nat option \<Rightarrow> jsval \<Rightarrow> nat option \<Rightarrow> nat option \<Rightarrow> frame option \<Rightarrow> ('s, jsval) act"

definition new_container :: "jstr list \<times> jstr \<Rightarrow> compiled" where
  "new_container code = \<lparr>c_code = code, c_programs = [], c_info = None\<rparr>"

text \<open>\<open>template(templateSpec, env)\<close>\<close>

definition template :: "jstr list \<times> jstr \<Rightarrow> bool \<Rightarrow> compiled result" where
  "template spec env =
     (if \<not> env then Inl (Error (js ''No environment passed to template'')) else Inr (new_container spec))"

definition info_of :: "nat \<Rightarrow> 'x hb_scheme \<Rightarrow> (int \<times> jstr) option" where
  "info_of f s = (case map_of (closures s) f of
                    Some l \<Rightarrow> (case l_compiled l of Some c \<Rightarrow> c_info c | None \<Rightarrow> None)
                  | None \<Rightarrow> None)"

text \<open>The function that \<open>template\<close> returns.\<close>

definition render :: "'x hb_scheme runT \<Rightarrow> nat \<Rightarrow> jstr list \<times> jstr \<Rightarrow> jsval \<Rightarrow> call_options \<Rightarrow> ('x hb_scheme, jsval) act" where
  "render runT f code context opts s =
     (let namespace = (if o_partial opts then (o_helpers opts, o_partials opts) else (Some (helpers_ref s), Some (partials_ref s)));
          (hs, ps) = (if o_partial opts then (None, None) else (o_helpers opts, o_partials opts))
      in bindS (runT code f namespace context hs ps (o_data opts)) (\<lambda>result s.
           if \<not> o_partial opts
           then (bindR (checkRevision (info_of f s)) (\<lambda>_. Inr result), s)
           else (Inr result, s)) s)"

definition set_compiled :: "nat \<Rightarrow> compiled \<Rightarrow> 'x hb_scheme \<Rightarrow> 'x hb_scheme" where
  "set_compiled f c s =
     s\<lparr>closures := map (\<lambda>(g, l). (g, if g = f then l\<lparr>l_compiled := Some c\<rparr> else l)) (closures s)\<rparr>"

text \<open>The function that \<open>compile\<close> returns: compiled on first use and cached after that point.\<close>

definition lazy_call :: "'x hb_scheme runT \<Rightarrow> nat \<Rightarrow> lazy \<Rightarrow> jsval \<Rightarrow> call_options \<Rightarrow> ('x hb_scheme, jsval) act" where
  "lazy_call runT f l context opts =
     (case l_compiled l of
        Some c \<Rightarrow> render runT f (c_code c) context opts
      | None \<Rightarrow>
          bindS (liftR (bindR (compileInput (l_input l) (l_options l)) (\<lambda>spec. template spec True))) (\<lambda>c s.
            render runT f (c_code c) context opts (set_compiled f c s)))"

section \<open>Partials\<close>

text \<open>Calling a function value as a partial: a compiled template, or a function of the host.\<close>

definition call_template ::
    "'x hb_scheme runT \<Rightarrow> (nat \<Rightarrow> jsval \<Rightarrow> call_options \<Rightarrow> ('x hb_scheme, jsval) act) \<Rightarrow> nat \<Rightarrow> jsval \<Rightarrow> call_options \<Rightarrow> ('x hb_scheme, jsval) act" where
  "call_template runT host f context opts s =
     (case map_of (closures s) f of
        Some l \<Rightarrow> lazy_call runT f l context opts s
      | None \<Rightarrow> host f context opts s)"

definition invokePartial ::
    "'x hb_scheme runT \<Rightarrow> (nat \<Rightarrow> jsval \<Rightarrow> call_options \<Rightarrow> ('x hb_scheme, jsval) act) \<Rightarrow>
     jsval \<Rightarrow> jstr \<Rightarrow> jsval \<Rightarrow> nat option \<Rightarrow> nat option \<Rightarrow> frame option \<Rightarrow> ('x hb_scheme, jsval) act" where
  "invokePartial runT host prt name context hs ps dat =
     (case prt of
        JUndefined \<Rightarrow> throwS (HBException (js ''The partial '' @ name @ js '' could not be found''))
      | JFun f \<Rightarrow> call_template runT host f context \<lparr>o_partial = True, o_helpers = hs, o_partials = ps, o_data = dat\<rparr>
      | _ \<Rightarrow> returnS JUndefined)"

text \<open>\<open>canCompile\<close> says whether the environment has \<open>compile\<close>; the runtime-only build has not.\<close>

definition invokePartialWrapper ::
    "bool \<Rightarrow> 'x hb_scheme engine \<Rightarrow> 'x hb_scheme runT \<Rightarrow> (nat \<Rightarrow> jsval \<Rightarrow> call_options \<Rightarrow> ('x hb_scheme, jsval) act) \<Rightarrow>
     jsval \<Rightarrow> jstr \<Rightarrow> jsval \<Rightarrow> nat option \<Rightarrow> nat option \<Rightarrow> frame option \<Rightarrow> ('x hb_scheme, jsval) act" where
  "invokePartialWrapper canCompile E runT host prt name context hs ps dat =
     bindS (invokePartial runT host prt name context hs ps dat) (\<lambda>result.
       if result \<noteq> JNull \<and> result \<noteq> JUndefined then returnS result
       else if \<not> canCompile
       then throwS (HBException (js ''The partial '' @ name @ js '' could not be compiled when running in runtime-only mode''))
       else bindS (hb_compile E (TValue prt) (Some \<lparr>g_options = empty_options, g_data = Some (dat \<noteq> None)\<rparr>)) (\<lambda>f.
         case ps of
           None \<Rightarrow> throwS TypeErr
         | Some r \<Rightarrow> (\<lambda>s. call_template runT host f context
                        \<lparr>o_partial = False, o_helpers = hs, o_partials = ps, o_data = dat\<rparr>
                        (set_table r (assign_prop (table_of r s) name (JFun f)) s))))"

section \<open>The program cache\<close>

text \<open>
  A sequence of calls of \<open>container.program\<close>, each with an index, a function and perhaps data.  Generated
  code makes its functions anew in every call of the template, so the functions of one index differ.
\<close>

fun program_calls :: "(nat \<times> nat \<times> frame option) list \<Rightarrow> compiled \<Rightarrow> wrapper list \<times> compiled" where
  "program_calls [] c = ([], c)"
| "program_calls ((i, fn, dat) # calls) c =
     (let (w, c) = container_program i fn dat c; (ws, c) = program_calls calls c in (w # ws, c))"

text \<open>The function with which an index was first asked for without data.\<close>

definition first_fn :: "nat \<Rightarrow> (nat \<times> nat \<times> frame option) list \<Rightarrow> nat" where
  "first_fn i calls =
     (case find (\<lambda>(i', fn, dat). i' = i \<and> dat = None) calls of Some (i', fn, dat) \<Rightarrow> fn | None \<Rightarrow> 0)"

lemma first_fn_Cons: "first_fn i ((i', fn, dat) # calls) = (if i' = i \<and> dat = None then fn else first_fn i calls)"
  by (simp add: first_fn_def)

lemma container_program_cases:
  "container_program i fn (Some d) c = (program i fn (Some d), c)"
  "arr_get (c_programs c) i = Some w \<Longrightarrow> container_program i fn None c = (w, c)"
  "arr_get (c_programs c) i = None \<Longrightarrow>
   container_program i fn None c = (program i fn None, c\<lparr>c_programs := arr_set (c_programs c) i (program i fn None)\<rparr>)"
  by (simp_all add: container_program_def Let_def)

lemma program_calls_cached:
  "fst (program_calls calls c) =
     map (\<lambda>(i, fn, dat).
       case dat of
         Some d \<Rightarrow> program i fn dat
       | None \<Rightarrow> (case arr_get (c_programs c) i of Some w \<Rightarrow> w | None \<Rightarrow> program i (first_fn i calls) None)) calls"
proof (induction calls arbitrary: c)
  case (Cons a calls)
  obtain i fn dat where a: "a = (i, fn, dat)" by (cases a) auto
  consider d where "dat = Some d" | w where "dat = None" "arr_get (c_programs c) i = Some w"
    | "dat = None" "arr_get (c_programs c) i = None" by (cases dat; cases "arr_get (c_programs c) i") auto
  then show ?case
    by cases (auto simp: a split_beta Let_def container_program_cases Cons.IH first_fn_Cons split: option.split)
qed simp

text \<open>
  C18.  The wrappers of programs are cached by index alone: whatever the sequence of calls of
  \<open>container.program\<close> on a new template, a call with data gets a wrapper for its own function and data, and a
  call without data gets the wrapper for the function of the first call of this index without data.  So
  every call gets a wrapper for its own function exactly when the calls of an index without data all come
  with the same function.  Running a wrapper runs its function, on the data of the call when there is one and
  on the data of the wrapper otherwise.
\<close>

theorem container_program_cache:
  "fst (program_calls calls (new_container code)) =
     map (\<lambda>(i, fn, dat). program i (if dat = None then first_fn i calls else fn) dat) calls \<and>
   (fst (program_calls calls (new_container code)) = map (\<lambda>(i, fn, dat). program i fn dat) calls \<longleftrightarrow>
      (\<forall>(i, fn, dat) \<in> set calls. dat = None \<longrightarrow> fn = first_fn i calls)) \<and>
   call_wrapper runP (program i fn dat) context given = runP fn context (if given = None then dat else given) []"
proof -
  have p: "fst (program_calls calls (new_container code)) =
      map (\<lambda>(i, fn, dat). program i (if dat = None then first_fn i calls else fn) dat) calls"
    unfolding program_calls_cached by (auto simp: new_container_def arr_get_def split: option.split)
  have e: "(program i (if dat = None then first_fn i calls else fn) dat = program i fn dat) = (dat = None \<longrightarrow> fn = first_fn i calls)"
    for i fn dat by (auto simp: program_def)
  have "(map (\<lambda>(i, fn, dat). program i (if dat = None then first_fn i calls else fn) dat) calls =
      map (\<lambda>(i, fn, dat). program i fn dat) calls) \<longleftrightarrow> (\<forall>(i, fn, dat) \<in> set calls. dat = None \<longrightarrow> fn = first_fn i calls)"
    unfolding map_eq_conv case_prod_beta e ..
  with p show ?thesis by (auto simp: call_wrapper_def program_def split: option.splits)
qed

text \<open>Two renderings without data: the second one gets the wrapper with the function of the first.\<close>

theorem container_program_cache_witness:
  "fst (program_calls [(1, 20, None), (1, 30, Some []), (1, 40, None)] (new_container ([], []))) =
     [program 1 20 None, program 1 30 (Some []), program 1 20 None] \<and>
   fst (program_calls [(1, 20, None), (2, 30, None), (1, 20, None)] (new_container ([], []))) =
     [program 1 20 None, program 2 30 None, program 1 20 None]"
proof -
  note c = container_program_cache [where code = "([], [])", THEN conjunct1]
  have 1: "fst (program_calls [(1, 20, None), (1, 30, Some []), (1, 40, None)] (new_container ([], []))) =
     [program 1 20 None, program 1 30 (Some []), program 1 20 None]"
    by (subst c) (simp add: first_fn_def)
  let ?cs = "[(1, 20, None), (2, 30, None), (1, 20, None)] :: (nat \<times> nat \<times> frame option) list"
  have "\<forall>(i, fn, dat) \<in> set ?cs. dat = None \<longrightarrow> fn = first_fn i ?cs" by (simp add: first_fn_def)
  then have "fst (program_calls ?cs (new_container ([], []))) = map (\<lambda>(i, fn, dat). program i fn dat) ?cs"
    by (rule container_program_cache [where calls = ?cs and code = "([], [])", THEN conjunct2, THEN conjunct1, THEN iffD2])
  also have "\<dots> = [program 1 20 None, program 2 30 None, program 1 20 None]" by simp
  finally show ?thesis using 1 by (rule conjI [rotated])
qed

section \<open>Merging tables\<close>

definition tables_wf :: "'x hb_scheme \<Rightarrow> bool" where
  "tables_wf s \<longleftrightarrow> list_all (\<lambda>t. distinct (map fst t)) (tables s)"

lemma table_of_distinct: "tables_wf s \<Longrightarrow> distinct (map fst (table_of r s))"
  by (auto simp: tables_wf_def table_of_def list_all_length)

lemma map_of_rev_distinct: "distinct (map fst t) \<Longrightarrow> map_of (rev t) = map_of t"
proof (induction t)
  case (Cons a t)
  then have "fst a \<notin> dom (map_of t)" by (simp add: dom_map_of_conv_image_fst)
  with Cons show ?case by (auto simp: map_add_def fun_eq_iff split: option.splits)
qed simp

lemma distinct_extend: "distinct (map fst o1) \<Longrightarrow> distinct (map fst (HB_Utils.extend o1 o2))"
  by (induction o1 o2 rule: HB_Utils.extend.induct) (auto simp: distinct_obj_set simp del: map_map)

definition look_ref :: "nat option \<Rightarrow> 'x hb_scheme \<Rightarrow> jstr \<Rightarrow> jsval option" where
  "look_ref r s k = (case r of None \<Rightarrow> None | Some r \<Rightarrow> map_of (table_of r s) k)"

lemma look_ref_simps [simp]: "look_ref None s = Map.empty" "look_ref (Some r) s = map_of (table_of r s)"
  by (simp_all add: look_ref_def fun_eq_iff)

text \<open>
  Merging the tables given to a template with those of the environment: a name is found in
  the given table first and in the common one otherwise, no existing table is changed, and a new
  table is made only when both are given and they are different objects.
\<close>

theorem merge_overrides:
  assumes "tables_wf s" and "container_merge param common s = (r, s')"
  shows "look_ref r s' = look_ref common s ++ look_ref param s \<and>
         (\<forall>q < length (tables s). table_of q s' = table_of q s) \<and> tables_wf s' \<and>
         length (tables s') = length (tables s) + (if param \<noteq> None \<and> common \<noteq> None \<and> param \<noteq> common then 1 else 0)"
proof (cases "param \<noteq> None \<and> common \<noteq> None \<and> param \<noteq> common")
  case True
  then obtain p c where pc: "param = Some p" "common = Some c" "p \<noteq> c" by auto
  let ?t = "HB_Utils.extend (HB_Utils.extend [] (table_of c s)) (table_of p s)"
  from assms(2) pc have r: "r = Some (length (tables s))" "s' = s\<lparr>tables := tables s @ [?t]\<rparr>"
    by (auto simp: container_merge_def Let_def)
  have "map_of ?t = map_of (table_of c s) ++ map_of (table_of p s)"
    by (simp add: map_of_extend map_of_rev_distinct table_of_distinct [OF assms(1)])
  moreover have "table_of (length (tables s)) s' = ?t" by (simp add: r(2) table_of_def)
  moreover have "distinct (map fst ?t)" by (simp add: distinct_extend)
  ultimately have "look_ref r s' = look_ref common s ++ look_ref param s" "tables_wf s'"
    using assms(1) by (simp_all add: r(1) pc) (simp add: tables_wf_def r(2))
  then show ?thesis using True by (simp add: r(2) table_of_def nth_append)
next
  case False
  with assms show ?thesis
    by (auto simp: container_merge_def map_add_def fun_eq_iff split: option.splits if_splits)
qed

theorem merge_overrides_witness:
  "\<exists>r s'. tables_wf (sample_hb\<lparr>tables := [[(js ''a'', JNum 1)], [(js ''a'', JNum 2), (js ''b'', JNum 3)]]\<rparr>) \<and>
     container_merge (Some 0) (Some 1) (sample_hb\<lparr>tables := [[(js ''a'', JNum 1)], [(js ''a'', JNum 2), (js ''b'', JNum 3)]]\<rparr>) = (r, s') \<and>
     look_ref r s' (js ''a'') = Some (JNum 1) \<and> look_ref r s' (js ''b'') = Some (JNum 3)"
proof -
  let ?s = "sample_hb\<lparr>tables := [[(js ''a'', JNum 1)], [(js ''a'', JNum 2), (js ''b'', JNum 3)]]\<rparr>"
  have wf: "tables_wf ?s" by (simp add: tables_wf_def)
  obtain r s' where m: "container_merge (Some 0) (Some 1) ?s = (r, s')" by fastforce
  have l: "look_ref (Some 0) ?s (js ''a'') = Some (JNum 1)" "look_ref (Some 0) ?s (js ''b'') = None"
    "look_ref (Some 1) ?s (js ''b'') = Some (JNum 3)"
    by (simp_all add: table_of_def)
  from merge_overrides [OF wf m] have "look_ref r s' = look_ref (Some 1) ?s ++ look_ref (Some 0) ?s" by simp
  with l have "look_ref r s' (js ''a'') = Some (JNum 1)" "look_ref r s' (js ''b'') = Some (JNum 3)"
    by (simp_all add: map_add_def)
  with wf m show ?thesis by blast
qed

section \<open>Templates are compiled once\<close>

text \<open>
  The steps in which the state of an environment changes.  Generated code and the host reach the
  state through these operations only: registration, compilation of a template, the first use of a
  template, the cache and the revision in its container, merging, storing a compiled partial, logging.
\<close>

inductive hb_step :: "'x hb_scheme engine \<Rightarrow> 'x hb_scheme \<Rightarrow> 'x hb_scheme \<Rightarrow> bool" for E where
  step_helper: "registerHelper E name fn iv s = (r, s') \<Longrightarrow> hb_step E s s'"
| step_partial: "registerPartial E name str s = (r, s') \<Longrightarrow> hb_step E s s'"
| step_compile: "hb_compile E i o' s = (r, s') \<Longrightarrow> hb_step E s s'"
| step_first_use:
    "map_of (closures s) f = Some l \<Longrightarrow> l_compiled l = None \<Longrightarrow> compileInput (l_input l) (l_options l) = Inr code \<Longrightarrow>
     hb_step E s (set_compiled f (new_container code) s)"
| step_program:
    "map_of (closures s) f = Some l \<Longrightarrow> l_compiled l = Some c \<Longrightarrow> container_program i fn dat c = (w, c') \<Longrightarrow>
     hb_step E s (set_compiled f c' s)"
| step_info:
    "map_of (closures s) f = Some l \<Longrightarrow> l_compiled l = Some c \<Longrightarrow> hb_step E s (set_compiled f (c\<lparr>c_info := v\<rparr>) s)"
| step_merge: "container_merge p c s = (r, s') \<Longrightarrow> hb_step E s s'"
| step_store: "hb_step E s (set_table r (assign_prop (table_of r s) name v) s)"
| step_log: "logger_log level v s = (r, s') \<Longrightarrow> hb_step E s s'"

definition closures_ok :: "'x hb_scheme \<Rightarrow> bool" where
  "closures_ok s \<longleftrightarrow>
     (\<forall>f \<in> fst ` set (closures s). f < next_fun s) \<and>
     (\<forall>f l c. map_of (closures s) f = Some l \<longrightarrow> l_compiled l = Some c \<longrightarrow>
        compileInput (l_input l) (l_options l) = Inr (c_code c))"

text \<open>What a closure was made from stays.\<close>

definition source_of :: "'x hb_scheme \<Rightarrow> nat \<Rightarrow> (input \<times> options) option" where
  "source_of s f = map_option (\<lambda>l. (l_input l, l_options l)) (map_of (closures s) f)"

lemma map_of_set_compiled:
  "map_of (closures (set_compiled f c s)) g =
     map_option (\<lambda>l. if g = f then l\<lparr>l_compiled := Some c\<rparr> else l) (map_of (closures s) g)"
proof -
  have "map_of (map (\<lambda>(g, l). (g, if g = f then l\<lparr>l_compiled := Some c\<rparr> else l)) cs) g =
      map_option (\<lambda>l. if g = f then l\<lparr>l_compiled := Some c\<rparr> else l) (map_of cs g)" for cs
    by (induction cs) auto
  then show ?thesis by (simp add: set_compiled_def)
qed

lemma keys_set_compiled [simp]: "fst ` set (closures (set_compiled f c s)) = fst ` set (closures s)"
  by (force simp: set_compiled_def image_iff)

lemma set_compiled_next [simp]: "next_fun (set_compiled f c s) = next_fun s"
  by (simp add: set_compiled_def)

lemma source_set_compiled [simp]: "source_of (set_compiled f c s) g = source_of s g"
  by (cases "map_of (closures s) g") (auto simp: source_of_def map_of_set_compiled)

lemma closures_ok_set_compiled:
  assumes "closures_ok s" and "map_of (closures s) f = Some l" and "compileInput (l_input l) (l_options l) = Inr (c_code c)"
  shows "closures_ok (set_compiled f c s)"
  using assms unfolding closures_ok_def by (auto simp: map_of_set_compiled split: if_splits)

lemma same_closures:
  "closures s' = closures s \<Longrightarrow> next_fun s' = next_fun s \<Longrightarrow> closures_ok s' = closures_ok s \<and> source_of s' f = source_of s f"
  by (simp add: closures_ok_def source_of_def)

lemma set_not_closures: "set_not fn iv s = (r, s') \<Longrightarrow> closures s' = closures s \<and> next_fun s' = next_fun s"
  by (auto simp: set_not_def split: jsval.splits)

lemma register_closures:
  "registerHelper E name fn iv s = (r, s') \<Longrightarrow> closures s' = closures s \<and> next_fun s' = next_fun s"
  "registerPartial E name str s = (r, s') \<Longrightarrow> closures s' = closures s \<and> next_fun s' = next_fun s"
  using set_not_closures [of fn iv s]
  by (auto simp: registerHelper_def registerPartial_def bindS_def split: option.splits if_splits prod.splits sum.splits)

lemma hb_step_closures:
  assumes "hb_step E s s'" and "closures_ok s"
  shows "closures_ok s' \<and> (\<forall>f x. source_of s f = Some x \<longrightarrow> source_of s' f = Some x)"
  using assms
proof (induction rule: hb_step.induct)
  case (step_helper name fn iv s r s')
  with register_closures(1) [OF step_helper.hyps] same_closures [of s' s] show ?case by simp
next
  case (step_partial name str s r s')
  with register_closures(2) [OF step_partial.hyps] same_closures [of s' s] show ?case by simp
next
  case (step_compile i o' s r s')
  show ?case
  proof (cases "check_input (src E) (js ''compile'') i")
    case (Inr x)
    have "map_of (closures s) (next_fun s) = None"
      using step_compile.prems by (force simp: closures_ok_def map_of_eq_None_iff)
    with step_compile Inr show ?thesis
      by (fastforce simp: hb_compile_def closures_ok_def source_of_def less_Suc_eq split: if_splits)
  qed (use step_compile in \<open>simp add: hb_compile_def\<close>)
next
  case (step_first_use s f l code)
  then show ?case by (simp add: closures_ok_set_compiled new_container_def)
next
  case (step_program s f l c i fn dat w c')
  then have "c_code c' = c_code c" by (auto simp: container_program_def Let_def split: option.splits)
  with step_program show ?case
    by (metis closures_ok_set_compiled closures_ok_def source_set_compiled)
next
  case (step_info s f l c v)
  then have "compileInput (l_input l) (l_options l) = Inr (c_code (c\<lparr>c_info := v\<rparr>))" by (simp add: closures_ok_def)
  with step_info show ?case by (metis closures_ok_set_compiled source_set_compiled)
next
  case (step_merge p c s r s')
  then have "closures s' = closures s" "next_fun s' = next_fun s"
    by (auto simp: container_merge_def Let_def split: option.splits if_splits)
  with step_merge same_closures [of s' s] show ?case by simp
next
  case (step_store s r name v)
  with same_closures [of "set_table r (assign_prop (table_of r s) name v) s" s] show ?case by simp
next
  case (step_log level v s r s')
  then have "closures s' = closures s" "next_fun s' = next_fun s" by (auto simp: logger_log_def split: option.splits)
  with step_log same_closures [of s' s] show ?case by simp
qed

lemma hb_steps_closures:
  assumes "(hb_step E)\<^sup>*\<^sup>* s s'" and "closures_ok s"
  shows "closures_ok s' \<and> (\<forall>f x. source_of s f = Some x \<longrightarrow> source_of s' f = Some x)"
  using assms by (induction rule: rtranclp_induct) (auto dest: hb_step_closures)

lemma call_template_source:
  assumes "closures_ok s" and "source_of s f = Some (i, o')"
  shows "call_template runT host f context opts s =
    (case compileInput i o' of
       Inl e \<Rightarrow> (Inl e, s)
     | Inr code \<Rightarrow> render runT f code context opts
                    (if \<exists>l. map_of (closures s) f = Some l \<and> l_compiled l \<noteq> None then s
                     else set_compiled f (new_container code) s))"
proof -
  from assms(2) obtain l where l: "map_of (closures s) f = Some l" "l_input l = i" "l_options l = o'"
    by (auto simp: source_of_def)
  show ?thesis
  proof (cases "l_compiled l")
    case None
    with l show ?thesis
      by (auto simp: call_template_def lazy_call_def template_def new_container_def split: sum.split)
  next
    case (Some c)
    with assms(1) l have "compileInput i o' = Inr (c_code c)" by (auto simp: closures_ok_def)
    with Some l show ?thesis by (simp add: call_template_def lazy_call_def)
  qed
qed

text \<open>
  C20.  A template compiled from a text, with options that nobody else uses, keeps meaning that text: after any sequence of operations on
  the environment, calling it throws exactly the error that compiling the text gives, with the state
  unchanged, or it runs exactly the generated code of the text, which is generated at the first
  call and only stored code is run from then on.
\<close>

theorem template_keeps_source:
  assumes "closures_ok s" and "hb_compile E (TValue (JStr tpl)) o' s = (Inr f, s1)" and "(hb_step E)\<^sup>*\<^sup>* s1 s2"
  shows "call_template runT host f context opts s2 =
    (case compileInput (ISource tpl) (with_data o') of
       Inl e \<Rightarrow> (Inl e, s2)
     | Inr code \<Rightarrow> render runT f code context opts
                    (if \<exists>l. map_of (closures s2) f = Some l \<and> l_compiled l \<noteq> None then s2
                     else set_compiled f (new_container code) s2))"
proof (rule call_template_source)
  have "source_of s1 f = Some (ISource tpl, with_data o')"
    using assms(2) by (auto simp: hb_compile_def check_input_def source_of_def)
  moreover have "closures_ok s1"
    using hb_step_closures [OF step_compile [OF assms(2)] assms(1)] by simp
  ultimately show "closures_ok s2" "source_of s2 f = Some (ISource tpl, with_data o')"
    using hb_steps_closures [OF assms(3)] by blast+
qed

definition sample_runT :: "hb runT" where
  "sample_runT code f ns context hs ps dat s =
     (Inr (JStr (js ''ab'')), set_compiled f ((new_container code)\<lparr>c_info := Some (4, js ''>= 1.0.0'')\<rparr>) s)"

lemma puts_fields:
  "closures (fold (\<lambda>(k, v). put_helper E k v) kvs s) = closures s"
  "next_fun (fold (\<lambda>(k, v). put_helper E k v) kvs s) = next_fun s"
  "console (fold (\<lambda>(k, v). put_helper E k v) kvs s) = console s"
  "log_level (fold (\<lambda>(k, v). put_helper E k v) kvs s) = log_level s"
  "console_methods (fold (\<lambda>(k, v). put_helper E k v) kvs s) = console_methods s"
  by (induction kvs arbitrary: s) (auto simp: put_helper_def registerHelper_string set_table_def)

theorem template_keeps_source_witness:
  "\<exists>s1 s2. closures_ok sample_hb \<and> hb_compile sample_engine (TValue (JStr (js ''ab''))) None sample_hb = (Inr 19, s1) \<and>
     (hb_step sample_engine)\<^sup>*\<^sup>* s1 s2 \<and> s1 \<noteq> s2 \<and>
     call_template sample_runT (\<lambda>_ _ _. returnS JNull) 19 JNull \<lparr>o_partial = False, o_helpers = None, o_partials = None, o_data = None\<rparr> s2 =
    (case compileInput (ISource (js ''ab'')) (with_data None) of
       Inl e \<Rightarrow> (Inl e, s2)
     | Inr code \<Rightarrow> render sample_runT 19 code JNull \<lparr>o_partial = False, o_helpers = None, o_partials = None, o_data = None\<rparr>
                    (if \<exists>l. map_of (closures s2) 19 = Some l \<and> l_compiled l \<noteq> None then s2
                     else set_compiled 19 (new_container code) s2))"
proof -
  have c: "closures sample_hb = []" "next_fun sample_hb = 19" "console sample_hb = []" "log_level sample_hb = 3" "console_methods sample_hb = [js ''error'']"
    unfolding sample_hb_def new_environment registerDefaultHelpers_def register_all_fold snd_conv puts_fields by simp_all
  have ok: "closures_ok sample_hb" by (simp add: closures_ok_def c)
  let ?s1 = "sample_hb\<lparr>closures := [(19, \<lparr>l_input = ISource (js ''ab''), l_options = with_data None, l_compiled = None\<rparr>)], next_fun := 20\<rparr>"
  have h: "hb_compile sample_engine (TValue (JStr (js ''ab''))) None sample_hb = (Inr 19, ?s1)"
    by (simp add: hb_compile_def check_input_def c)
  let ?s2 = "?s1\<lparr>console := [(js ''error'', JNull)]\<rparr>"
  have "logger_log (Some 3) JNull ?s1 = (Inr (), ?s2)" by (simp add: logger_log_def c method_map_def)
  then have st: "(hb_step sample_engine)\<^sup>*\<^sup>* ?s1 ?s2" by (blast intro: step_log)
  have "console ?s1 \<noteq> console ?s2" by (simp add: c)
  then have ne: "?s1 \<noteq> ?s2" by metis
  from ok h st ne template_keeps_source [OF ok h st] show ?thesis by blast
qed

section \<open>Compilation as a whole\<close>

lemma parse_input_ok:
  "case parse_input (ISource tpl) of Inl e \<Rightarrow> e \<noteq> TypeErr | Inr p \<Rightarrow> wf_program p"
proof -
  obtain r where "parse tpl = Some r" "r \<noteq> Inl TypeErr" "\<And>v. r = Inr v \<Longrightarrow> \<exists>p. v = VProgram p \<and> wf_program p"
    using parse_loop_ok [OF parser_inv_start, of tpl] unfolding parse_def by blast
  then show ?thesis by (cases r) (force simp: parse_input_def)+
qed

lemma compile_text_total: "env_ok (stringParams opts) env \<Longrightarrow> \<exists>t. compile_text env opts = Inr t"
  using js_compile_total(1) [of opts env False new_context]
  by (auto simp: compile_text_def compile_function_def)

lemma compile_text_headed:
  assumes "wf_program p" and "headed_program p"
  shows "case bindR (compile p opts) (\<lambda>(e, o'). compile_text e o') of Inl e \<Rightarrow> e \<noteq> TypeErr | Inr t \<Rightarrow> True"
proof (cases "compile p opts")
  case (Inl e)
  with compile_all_ok(1) [OF assms refl, of opts] show ?thesis by (simp add: program_result_def)
next
  case (Inr r)
  obtain e o' where r: "r = (e, o')" by fastforce
  with Inr compile_all_ok(1) [OF assms refl, of opts] have "env_ok (stringParams o') e"
    by (simp add: program_result_def)
  from compile_text_total [OF this] Inr r show ?thesis by auto
qed

text \<open>
  C21.  Precompiling a text never fails inside the compiler: a syntax error is reported as such and
  as the only error, and a text in which no parameter or hash value is a path of several names that
  begins with the empty name \<open>[]\<close> gives generated code or an error that the compiler throws on purpose,
  for every combination of options.
\<close>

theorem precompile_errors:
  "case parse_input (ISource tpl) of
     Inl e \<Rightarrow> e \<noteq> TypeErr \<and> precompile sr (TValue (JStr tpl)) opts = Inl e
   | Inr p \<Rightarrow> wf_program p \<and>
       (headed_program p \<longrightarrow> (case precompile sr (TValue (JStr tpl)) opts of Inl e \<Rightarrow> e \<noteq> TypeErr | Inr code \<Rightarrow> True))"
  using parse_input_ok [of tpl] compile_text_headed [of _ "with_data opts"]
  by (auto simp: precompile_def check_input_def split: sum.split_asm sum.split)

lemma parse_input_ab: "parse_input (ISource (js ''ab'')) = Inr (ProgramNode [SContent (js ''ab'')] None None)"
  using parse_plain [OF plain_ab] by (simp add: parse_input_def)

theorem precompile_errors_witness:
  "headed_program (ProgramNode [SContent (js ''ab'')] None None) \<and>
   (case precompile (\<lambda>_. []) (TValue (JStr (js ''ab''))) None of Inl e \<Rightarrow> e \<noteq> TypeErr | Inr code \<Rightarrow> True)"
proof -
  have h: "headed_program (ProgramNode [SContent (js ''ab'')] None None)" by (simp add: ProgramNode_def)
  with precompile_errors [where tpl = "js ''ab''" and sr = "\<lambda>_. []" and opts = None] parse_input_ab show ?thesis by simp
qed

section \<open>Partials\<close>

text \<open>
  A partial that is a function must return something other than \<open>undefined\<close>: otherwise the wrapper
  takes it for a source text, and rendering stops with a message about \<open>Handlebars.compile\<close>.  The
  generated function of a template that is only a comment returns \<open>undefined\<close>.
\<close>

lemma partial_returning_undefined:
  assumes "call_template runT host f context \<lparr>o_partial = True, o_helpers = hs, o_partials = ps, o_data = dat\<rparr> s = (Inr JUndefined, s')"
  shows "invokePartialWrapper True E runT host (JFun f) name context hs ps dat s =
    (Inl (HBException (js ''You must pass a string or Handlebars AST to Handlebars.'' @ js ''compile'' @
       js ''. You passed '' @ src E f)), s')"
  using assms by (simp add: invokePartialWrapper_def invokePartial_def bindS_def hb_compile_def check_input_def)

lemma partial_not_found:
  "invokePartialWrapper c E runT host JUndefined name context hs ps dat s =
     (Inl (HBException (js ''The partial '' @ name @ js '' could not be found'')), s)"
  by (simp add: invokePartialWrapper_def invokePartial_def bindS_def)

end
