(* ===== verification/Base64.thy ===== *)
theory Base64
  imports JS_Prelude
begin

unbundle bit_operations_syntax

text \<open>
  \<open>resources/plugins/oss/lib/base64.js\<close>: the Base64 codec that the uploader uses for its policy.

  Character codes are 32-bit patterns once a bitwise operator has touched them; \<open>charCodeAt\<close> past
  the end is NaN, which the operators read as 0; \<open>charAt\<close> past the end is the empty string, whose
  \<open>indexOf\<close> is 0.
\<close>

section \<open>Strings and codes\<close>

definition charCodeAt :: "jstr \<Rightarrow> nat \<Rightarrow> int32 option" where
  "charCodeAt s i = (if i < length s then Some (ucast (s ! i)) else None)"

definition fromCharCode :: "int32 \<Rightarrow> jstr" where
  "fromCharCode c = [ucast c]"

definition js_shr :: "int32 \<Rightarrow> nat \<Rightarrow> int32" where
  "js_shr v n = signed_drop_bit (n mod 32) v"

definition keyStr :: jstr where
  "keyStr = js ''ABCDEFGHIJKLMNOPQRSTUVWXYZabcdefghijklmnopqrstuvwxyz0123456789+/=''"

text \<open>\<open>keyStr.indexOf(t)\<close> for a string of at most one character.\<close>

fun position :: "jchar \<Rightarrow> jstr \<Rightarrow> int" where
  "position c [] = -1"
| "position c (d # ds) = (if d = c then 0 else let p = position c ds in if p < 0 then p else p + 1)"

definition indexOfKey :: "jstr \<Rightarrow> int32" where
  "indexOfKey t = (case t of [] \<Rightarrow> 0 | c # _ \<Rightarrow> word_of_int (position c keyStr))"

section \<open>UTF-8\<close>

fun replace_crlf :: "jstr \<Rightarrow> jstr" where
  "replace_crlf (c # d # cs) = (if c = 13 \<and> d = 10 then 10 # replace_crlf cs else c # replace_crlf (d # cs))"
| "replace_crlf cs = cs"

definition utf8_char :: "int32 \<Rightarrow> jstr" where
  "utf8_char c =
     (if c < 128 then fromCharCode c
      else if c > 127 \<and> c < 2048
      then fromCharCode (js_shr c 6 OR 192) @ fromCharCode ((c AND 63) OR 128)
      else fromCharCode (js_shr c 12 OR 224) @ fromCharCode ((js_shr c 6 AND 63) OR 128) @
           fromCharCode ((c AND 63) OR 128))"

function utf8_encode_loop :: "jstr \<Rightarrow> nat \<Rightarrow> jstr \<Rightarrow> jstr" where
  "utf8_encode_loop s n utftext =
     (if n < length s then utf8_encode_loop s (n + 1) (utftext @ utf8_char (toInt32 (charCodeAt s n))) else utftext)"
  by auto
termination by (relation "measure (\<lambda>(s, n, _). length s - n)") auto

declare utf8_encode_loop.simps [simp del]

definition utf8_encode :: "jstr \<Rightarrow> jstr" where
  "utf8_encode s = utf8_encode_loop (replace_crlf s) 0 []"

function utf8_decode_loop :: "jstr \<Rightarrow> nat \<Rightarrow> jstr \<Rightarrow> jstr" where
  "utf8_decode_loop utftext i s =
     (if i < length utftext then
        let c = toInt32 (charCodeAt utftext i) in
        if c < 128 then utf8_decode_loop utftext (i + 1) (s @ fromCharCode c)
        else if c > 191 \<and> c < 224 then
          let c2 = toInt32 (charCodeAt utftext (i + 1))
          in utf8_decode_loop utftext (i + 2) (s @ fromCharCode (js_shl (c AND 31) 6 OR (c2 AND 63)))
        else
          let c2 = toInt32 (charCodeAt utftext (i + 1)); c3 = toInt32 (charCodeAt utftext (i + 2))
          in utf8_decode_loop utftext (i + 3)
               (s @ fromCharCode (js_shl (c AND 15) 12 OR js_shl (c2 AND 63) 6 OR (c3 AND 63)))
      else s)"
  by auto
termination by (relation "measure (\<lambda>(s, n, _). length s - n)") (auto simp: Let_def)

declare utf8_decode_loop.simps [simp del]

definition utf8_decode :: "jstr \<Rightarrow> jstr" where
  "utf8_decode utftext = utf8_decode_loop utftext 0 []"

section \<open>Base64\<close>

definition encode_group :: "int32 option \<Rightarrow> int32 option \<Rightarrow> int32 option \<Rightarrow> jstr" where
  "encode_group chr1 chr2 chr3 =
     (let enc1 = js_shr (toInt32 chr1) 2;
          enc2 = js_shl (toInt32 chr1 AND 3) 4 OR js_shr (toInt32 chr2) 4;
          enc3 = js_shl (toInt32 chr2 AND 15) 2 OR js_shr (toInt32 chr3) 6;
          enc4 = toInt32 chr3 AND 63;
          (enc3, enc4) = (if chr2 = None then (64, 64) else if chr3 = None then (enc3, 64) else (enc3, enc4))
      in charAt keyStr (unat enc1) @ charAt keyStr (unat enc2) @ charAt keyStr (unat enc3) @ charAt keyStr (unat enc4))"

function encode_loop :: "jstr \<Rightarrow> nat \<Rightarrow> jstr \<Rightarrow> jstr" where
  "encode_loop input i output =
     (if i < length input then
        encode_loop input (i + 3)
          (output @ encode_group (charCodeAt input i) (charCodeAt input (i + 1)) (charCodeAt input (i + 2)))
      else output)"
  by auto
termination by (relation "measure (\<lambda>(s, n, _). length s - n)") auto

declare encode_loop.simps [simp del]

definition encode :: "jstr \<Rightarrow> jstr" where
  "encode input = encode_loop (utf8_encode input) 0 []"

definition decode_group :: "jstr \<Rightarrow> jstr \<Rightarrow> jstr \<Rightarrow> jstr \<Rightarrow> jstr" where
  "decode_group k1 k2 k3 k4 =
     (let enc1 = indexOfKey k1; enc2 = indexOfKey k2; enc3 = indexOfKey k3; enc4 = indexOfKey k4;
          chr1 = js_shl enc1 2 OR js_shr enc2 4;
          chr2 = js_shl (enc2 AND 15) 4 OR js_shr enc3 2;
          chr3 = js_shl (enc3 AND 3) 6 OR enc4
      in fromCharCode chr1 @ (if enc3 \<noteq> 64 then fromCharCode chr2 else []) @
         (if enc4 \<noteq> 64 then fromCharCode chr3 else []))"

function decode_loop :: "jstr \<Rightarrow> nat \<Rightarrow> jstr \<Rightarrow> jstr" where
  "decode_loop input i output =
     (if i < length input then
        decode_loop input (i + 4)
          (output @ decode_group (charAt input i) (charAt input (i + 1)) (charAt input (i + 2)) (charAt input (i + 3)))
      else output)"
  by auto
termination by (relation "measure (\<lambda>(s, n, _). length s - n)") auto

declare decode_loop.simps [simp del]

definition decode :: "jstr \<Rightarrow> jstr" where
  "decode input = utf8_decode (decode_loop (filter (\<lambda>c. c \<in> set keyStr) input) 0 [])"

section \<open>Bits\<close>

lemma word16_eqI:
  fixes a b :: jchar
  assumes "list_all (\<lambda>n. bit a (nat n) = bit b (nat n)) [0..15]"
  shows "a = b"
proof (rule bit_word_eqI)
  fix n :: nat assume "n < LENGTH(16)"
  then have "int n \<in> set [0..15]" unfolding set_upto by simp
  with assms have "bit a (nat (int n)) = bit b (nat (int n))" unfolding list_all_iff by blast
  then show "bit a n = bit b n" by simp
qed

lemmas shift_simps = js_shr_def js_shl_def bit_simps bit_signed_drop_bit_iff

lemma unat_ucast16 [simp]: "unat (ucast (c::jchar) :: int32) = unat c"
proof -
  have "unat c < 2 ^ LENGTH(16)" by (rule unsigned_less)
  then have "unat c < 2 ^ 32" by simp
  then show ?thesis by (simp add: unsigned_ucast_eq take_bit_nat_eq_self)
qed

lemma ucast16_less_iff [simp]: "(ucast (c::jchar) :: int32) < numeral k \<longleftrightarrow> unat c < unat (numeral k :: int32)"
  by (simp add: word_less_nat_alt)

text \<open>The three forms of an encoded character and what the decoder makes of them.\<close>

lemma high_bits: "unat (c::jchar) < 2 ^ k \<Longrightarrow> k \<le> n \<Longrightarrow> \<not> bit c n"
proof -
  assume "unat c < 2 ^ k" "k \<le> n"
  then have "take_bit k (unat c) = unat c" by (simp add: take_bit_nat_eq_self_iff)
  with \<open>k \<le> n\<close> have "\<not> bit (unat c) n" by (metis bit_take_bit_iff linorder_not_le)
  then show ?thesis by (simp add: bit_unsigned_iff bit_imp_le_length)
qed

lemma utf8_two:
  fixes c :: jchar
  assumes "unat c < 2048"
  shows "ucast (js_shl (ucast (ucast (js_shr (ucast c) 6 OR 192) :: jchar) AND 31) 6 OR
                (ucast (ucast ((ucast c AND 63) OR 128 :: int32) :: jchar) AND 63) :: int32) = c"
proof -
  have h: "\<not> bit c 11" "\<not> bit c 12" "\<not> bit c 13" "\<not> bit c 14" "\<not> bit c 15"
    using high_bits [of c 11] assms by simp_all
  show ?thesis
    by (rule word16_eqI) (simp add: upto.simps shift_simps h)
qed

lemma utf8_three:
  fixes c :: jchar
  shows "ucast (js_shl (ucast (ucast (js_shr (ucast c) 12 OR 224) :: jchar) AND 15) 12 OR
                js_shl (ucast (ucast ((js_shr (ucast c) 6 AND 63) OR 128 :: int32) :: jchar) AND 63) 6 OR
                (ucast (ucast ((ucast c AND 63) OR 128 :: int32) :: jchar) AND 63) :: int32) = c"
  by (rule word16_eqI) (simp add: upto.simps shift_simps)

section \<open>Sextets\<close>

lemma key_positions: "list_all (\<lambda>n. position (keyStr ! n) keyStr = int n) [0..<65]"
  by code_simp

lemma length_keyStr: "length keyStr = 65"
  by (simp add: keyStr_def)

lemma index_key [simp]: "unat e \<le> 64 \<Longrightarrow> indexOfKey (charAt keyStr (unat e)) = e"
proof -
  assume e: "unat e \<le> 64"
  then have "position (keyStr ! unat e) keyStr = int (unat e)"
    using key_positions by (simp add: list_all_iff)
  with e show ?thesis by (simp add: indexOfKey_def charAt_def length_keyStr)
qed

lemma bounded_bits_exp: "list_all (\<lambda>n. \<not> bit (e::int32) n) [k..<32] \<Longrightarrow> unat e < 2 ^ k"
proof -
  assume "list_all (\<lambda>n. \<not> bit e n) [k..<32]"
  then have h: "\<forall>n \<in> {k..<32}. \<not> bit e n" by (simp only: list_all_iff set_upt)
  have "take_bit k e = e"
  proof (rule bit_word_eqI)
    fix n :: nat assume "n < LENGTH(32)"
    then show "bit (take_bit k e) n = bit e n" using h by (cases "n < k") (auto simp: bit_take_bit_iff)
  qed
  then have "unat e = take_bit k (unat e)" by (metis unsigned_take_bit_eq)
  then show ?thesis using take_bit_nat_less_exp [of k "unat e"] by simp
qed

lemma bounded_bits: "list_all (\<lambda>n. \<not> bit (e::int32) n) [6..<32] \<Longrightarrow> unat e < 64"
  using bounded_bits_exp [of e 6] by simp

definition byte :: "jchar \<Rightarrow> bool" where
  "byte c \<longleftrightarrow> unat c < 256"

lemma byte_bits: "byte c \<Longrightarrow> 8 \<le> n \<Longrightarrow> \<not> bit c n"
  using high_bits [of c 8] by (simp add: byte_def)

lemma sextets:
  assumes "byte a" "byte b" "byte c"
  shows "unat (js_shr (ucast a) 2) < 64"
    "unat (js_shl (ucast a AND 3) 4 OR js_shr (ucast b) 4) < 64"
    "unat (js_shl (ucast b AND 15) 2 OR js_shr (ucast c) 6) < 64"
    "unat (ucast c AND 63 :: int32) < 64"
  by (rule bounded_bits, simp add: upt_rec shift_simps byte_bits assms)+

text \<open>Decoding an encoded group of three, two or one bytes.\<close>

lemma regroup:
  assumes "byte a" "byte b" "byte c"
  shows "ucast (js_shl (js_shr (ucast a) 2) 2 OR js_shr (js_shl (ucast a AND 3) 4 OR js_shr (ucast b) 4) 4 :: int32) = a"
    "ucast (js_shl ((js_shl (ucast a AND 3) 4 OR js_shr (ucast b) 4) AND 15) 4 OR js_shr (js_shl (ucast b AND 15) 2 OR js_shr (ucast c) 6) 2 :: int32) = b"
    "ucast (js_shl ((js_shl (ucast b AND 15) 2 OR js_shr (ucast c) 6) AND 3) 6 OR (ucast c AND 63) :: int32) = c"
  by (rule word16_eqI, simp add: upto.simps shift_simps byte_bits assms)+

lemma charAt_key: "unat e \<le> 64 \<Longrightarrow> charAt keyStr (unat e) = [keyStr ! unat e]"
  by (simp add: charAt_def length_keyStr)

lemma index_key_nth [simp]: "unat e \<le> 64 \<Longrightarrow> indexOfKey [keyStr ! unat e] = e"
  using index_key by (simp add: charAt_key)

lemma charAt_64 [simp]: "charAt keyStr 64 = [keyStr ! 64]"
  by (simp add: charAt_def length_keyStr)

lemma unat_ne_64: "unat e < 64 \<Longrightarrow> (e::int32) \<noteq> 64"
  by auto

lemma byte_0: "byte 0"
  by (simp add: byte_def)

lemma group3:
  assumes "byte a" "byte b" "byte c"
  shows "\<exists>k1 k2 k3 k4. encode_group (Some (ucast a)) (Some (ucast b)) (Some (ucast c)) = [k1, k2, k3, k4] \<and>
           decode_group [k1] [k2] [k3] [k4] = [a, b, c]"
  using sextets [OF assms] regroup [OF assms]
  by (simp add: encode_group_def decode_group_def charAt_key fromCharCode_def unat_ne_64 Let_def)

lemma group2:
  assumes "byte a" "byte b"
  shows "\<exists>k1 k2 k3 k4. encode_group (Some (ucast a)) (Some (ucast b)) None = [k1, k2, k3, k4] \<and>
           decode_group [k1] [k2] [k3] [k4] = [a, b]"
  using sextets [OF assms byte_0] regroup [OF assms byte_0] index_key_nth [of 64]
  by (simp add: encode_group_def decode_group_def charAt_key fromCharCode_def unat_ne_64 Let_def js_shr_def)

lemma group1:
  assumes "byte a"
  shows "\<exists>k1 k2 k3 k4. encode_group (Some (ucast a)) None None = [k1, k2, k3, k4] \<and>
           decode_group [k1] [k2] [k3] [k4] = [a]"
  using sextets [OF assms byte_0 byte_0] regroup [OF assms byte_0 byte_0] index_key_nth [of 64]
  by (simp add: encode_group_def decode_group_def charAt_key fromCharCode_def unat_ne_64 Let_def js_shr_def)

fun enc_list :: "jstr \<Rightarrow> jstr" where
  "enc_list [] = []"
| "enc_list [a] = encode_group (Some (ucast a)) None None"
| "enc_list [a, b] = encode_group (Some (ucast a)) (Some (ucast b)) None"
| "enc_list (a # b # c # cs) = encode_group (Some (ucast a)) (Some (ucast b)) (Some (ucast c)) @ enc_list cs"

lemma encode_loop_list: "encode_loop (pre @ cs) (length pre) out = out @ enc_list cs"
proof (induction cs arbitrary: pre out rule: enc_list.induct)
  case (4 a b c cs)
  from 4 [of "pre @ [a, b, c]"] show ?case
    by (subst encode_loop.simps) (simp add: charCodeAt_def nth_append eval_nat_numeral)
qed (subst encode_loop.simps, simp add: charCodeAt_def nth_append; subst encode_loop.simps; simp)+

lemma decode_loop_list:
  "list_all byte cs \<Longrightarrow> decode_loop (pre @ enc_list cs) (length pre) out = out @ cs"
proof (induction cs arbitrary: pre out rule: enc_list.induct)
  case 1
  show ?case by (subst decode_loop.simps) simp
next
  case (2 a)
  then obtain k1 k2 k3 k4 where k: "enc_list [a] = [k1, k2, k3, k4]" "decode_group [k1] [k2] [k3] [k4] = [a]"
    using group1 [of a] by auto
  have "decode_loop (pre @ [k1, k2, k3, k4]) (length pre) out = out @ [a]"
    by (subst decode_loop.simps, subst decode_loop.simps) (simp add: charAt_def nth_append k)
  with k show ?case by simp
next
  case (3 a b)
  then obtain k1 k2 k3 k4 where k: "enc_list [a, b] = [k1, k2, k3, k4]" "decode_group [k1] [k2] [k3] [k4] = [a, b]"
    using group2 [of a b] by auto
  have "decode_loop (pre @ [k1, k2, k3, k4]) (length pre) out = out @ [a, b]"
    by (subst decode_loop.simps, subst decode_loop.simps) (simp add: charAt_def nth_append k)
  with k show ?case by simp
next
  case (4 a b c cs)
  then obtain k1 k2 k3 k4 where k: "encode_group (Some (ucast a)) (Some (ucast b)) (Some (ucast c)) = [k1, k2, k3, k4]"
      "decode_group [k1] [k2] [k3] [k4] = [a, b, c]"
    using group3 [of a b c] by auto
  from 4(1) [of "pre @ [k1, k2, k3, k4]" "out @ [a, b, c]"] 4(2) show ?case
    by (subst decode_loop.simps) (simp add: charAt_def nth_append k eval_nat_numeral)
qed

lemma set_encode_group: "set (encode_group x y z) \<subseteq> set keyStr"
  by (auto simp: encode_group_def Let_def charAt_def split: if_splits)

lemma set_enc_list: "set (enc_list cs) \<subseteq> set keyStr"
  by (induction cs rule: enc_list.induct) (use set_encode_group in auto)

section \<open>UTF-8 round trip\<close>

lemma lead_two: "unat (t::int32) < 32 \<Longrightarrow> 191 < t OR 192 \<and> t OR 192 < 224"
proof -
  assume t: "unat t < 32"
  have "list_all (\<lambda>n. 191 < (of_nat n OR 192 :: int32) \<and> (of_nat n OR 192 :: int32) < 224) [0..<32]" by code_simp
  with t have "191 < (of_nat (unat t) OR 192 :: int32) \<and> (of_nat (unat t) OR 192 :: int32) < 224"
    unfolding list_all_iff set_upt by (metis atLeastLessThan_iff le0)
  then show ?thesis by simp
qed

lemma lead_three: "unat (t::int32) < 16 \<Longrightarrow> 223 < t OR 224 \<and> t OR 224 < 256"
proof -
  assume t: "unat t < 16"
  have "list_all (\<lambda>n. 223 < (of_nat n OR 224 :: int32) \<and> (of_nat n OR 224 :: int32) < 256) [0..<16]" by code_simp
  with t have "223 < (of_nat (unat t) OR 224 :: int32) \<and> (of_nat (unat t) OR 224 :: int32) < 256"
    unfolding list_all_iff set_upt by (metis atLeastLessThan_iff le0)
  then show ?thesis by simp
qed

lemma follow: "unat (t::int32) < 64 \<Longrightarrow> t OR 128 < 256"
proof -
  assume t: "unat t < 64"
  have "list_all (\<lambda>n. (of_nat n OR 128 :: int32) < 256) [0..<64]" by code_simp
  with t have "(of_nat (unat t) OR 128 :: int32) < 256"
    unfolding list_all_iff set_upt by (metis atLeastLessThan_iff le0)
  then show ?thesis by simp
qed

lemma shr_bounds:
  "unat (c::jchar) < 2048 \<Longrightarrow> unat (js_shr (ucast c) 6) < 32" "unat (js_shr (ucast (c::jchar)) 12) < 16"
  "unat (js_shr (ucast (c::jchar)) 6 AND 63) < 64" "unat (ucast (c::jchar) AND 63 :: int32) < 64"
proof -
  assume "unat c < 2048"
  then have "\<not> bit c 11" "\<not> bit c 12" "\<not> bit c 13" "\<not> bit c 14" "\<not> bit c 15" using high_bits [of c 11] by simp_all
  moreover have "\<not> bit c n" if "16 \<le> n" for n using that bit_imp_le_length [of c n] by auto
  ultimately show "unat (js_shr (ucast c) 6) < 32"
    using bounded_bits_exp [of "js_shr (ucast c) 6" 5] by (simp add: upt_rec shift_simps)
next
  have "\<not> bit c n" if "16 \<le> n" for n using that bit_imp_le_length [of c n] by auto
  then show "unat (js_shr (ucast c) 12) < 16"
    using bounded_bits_exp [of "js_shr (ucast c) 12" 4] by (simp add: upt_rec shift_simps)
  show "unat (js_shr (ucast c) 6 AND 63) < 64" "unat (ucast c AND 63 :: int32) < 64"
    by (rule bounded_bits, simp add: upt_rec shift_simps)+
qed

lemma ucast_back [simp]: "ucast (ucast (c::jchar) :: int32) = c"
  by (rule bit_word_eqI) (simp add: bit_simps)

lemma ucast_small:
  fixes w :: int32
  assumes "w < 256"
  shows "byte (ucast w)" and "ucast (ucast w :: jchar) = w"
proof -
  from assms have "unat w < 256" by (simp add: word_less_nat_alt)
  then have "unat (ucast w :: jchar) = unat w" by (simp add: unsigned_ucast_eq take_bit_nat_eq_self)
  with \<open>unat w < 256\<close> show "byte (ucast w)" "ucast (ucast w :: jchar) = w"
    by (simp_all add: byte_def word_unat_eq_iff)
qed

lemma utf8_lead:
  "unat (c::jchar) < 2048 \<Longrightarrow> js_shr (ucast c) 6 OR 192 < 256" "js_shr (ucast (c::jchar)) 12 OR 224 < 256"
  using lead_two [OF shr_bounds(1), of c] lead_three [OF shr_bounds(2), of c]
  by (auto intro: order.strict_trans [of _ "224::int32" 256])

lemma utf8_char_bytes: "list_all byte (utf8_char (ucast (c::jchar)))"
  using utf8_lead [of c] follow [OF shr_bounds(3), of c] follow [OF shr_bounds(4), of c]
  by (auto simp: utf8_char_def fromCharCode_def byte_def intro: ucast_small(1) [unfolded byte_def])

lemma utf8_encode_list: "utf8_encode_loop (pre @ cs) (length pre) acc = acc @ concat (map (\<lambda>c. utf8_char (ucast c)) cs)"
proof (induction cs arbitrary: pre acc)
  case (Cons c cs)
  from Cons.IH [of "pre @ [c]"] show ?case
    by (subst utf8_encode_loop.simps) (simp add: charCodeAt_def nth_append)
qed (simp add: utf8_encode_loop.simps)

lemma utf8_decode_list:
  "utf8_decode_loop (pre @ concat (map (\<lambda>c. utf8_char (ucast c)) cs)) (length pre) acc = acc @ cs"
proof (induction cs arbitrary: pre acc)
  case (Cons c cs)
  let ?r = "concat (map (\<lambda>c. utf8_char (ucast c)) cs)"
  have step: "utf8_decode_loop (pre @ utf8_char (ucast c) @ ?r) (length pre) acc =
      utf8_decode_loop (pre @ utf8_char (ucast c) @ ?r) (length (pre @ utf8_char (ucast c))) (acc @ [c])"
  proof -
    consider "unat c < 128" | "128 \<le> unat c" "unat c < 2048" | "2048 \<le> unat c" by linarith
    then show ?thesis
    proof cases
      case 1
      then have u: "utf8_char (ucast c) = [c]" by (simp add: utf8_char_def fromCharCode_def)
      show ?thesis unfolding u
        by (subst utf8_decode_loop.simps) (use 1 in \<open>simp add: charCodeAt_def nth_append fromCharCode_def Let_def\<close>)
    next
      case 2
      let ?b1 = "js_shr (ucast c) 6 OR 192 :: int32" and ?b2 = "(ucast c AND 63) OR 128 :: int32"
      have u: "utf8_char (ucast c) = [ucast ?b1, ucast ?b2]"
        using 2 by (simp add: utf8_char_def fromCharCode_def word_less_nat_alt)
      have l: "191 < ?b1" "?b1 < 224" using lead_two [OF shr_bounds(1) [OF 2(2)]] by simp_all
      then have "\<not> ?b1 < 128" by (auto dest: order.strict_trans [of _ 128 191])
      then show ?thesis unfolding u
        by (subst utf8_decode_loop.simps)
          (use l ucast_small(2) [OF utf8_lead(1) [OF 2(2)]] utf8_two [OF 2(2)] in
            \<open>simp add: charCodeAt_def nth_append fromCharCode_def Let_def\<close>)
    next
      case 3
      let ?b1 = "js_shr (ucast c) 12 OR 224 :: int32" and ?b2 = "(js_shr (ucast c) 6 AND 63) OR 128 :: int32"
        and ?b3 = "(ucast c AND 63) OR 128 :: int32"
      have u: "utf8_char (ucast c) = [ucast ?b1, ucast ?b2, ucast ?b3]"
        using 3 by (simp add: utf8_char_def fromCharCode_def word_less_nat_alt)
      have l: "223 < ?b1" using lead_three [OF shr_bounds(2)] by simp
      then have "\<not> ?b1 < 128" "\<not> ?b1 < 224"
        by (auto dest: order.strict_trans [of _ 128 223]) (auto simp: word_less_nat_alt)
      then show ?thesis unfolding u
        by (subst utf8_decode_loop.simps)
          (use ucast_small(2) [OF utf8_lead(2) [of c]] utf8_three [of c] in
            \<open>simp add: charCodeAt_def nth_append fromCharCode_def Let_def eval_nat_numeral\<close>)
    qed
  qed
  from Cons.IH [of "pre @ utf8_char (ucast c)" "acc @ [c]"] step show ?case by simp
qed (simp add: utf8_decode_loop.simps)

lemma utf8_encode_chars:
  "utf8_encode s = concat (map (\<lambda>c. utf8_char (ucast c)) (replace_crlf s))" "list_all byte (utf8_encode s)"
proof -
  show "utf8_encode s = concat (map (\<lambda>c. utf8_char (ucast c)) (replace_crlf s))"
    using utf8_encode_list [of "[]"] by (simp add: utf8_encode_def)
  then show "list_all byte (utf8_encode s)" using utf8_char_bytes by (auto simp: list_all_iff)
qed

lemma encode_enc_list: "encode s = enc_list (utf8_encode s)"
  using encode_loop_list [of "[]"] by (simp add: encode_def)

text \<open>
  C22.  Decoding what was encoded gives the text back, for every string of 16-bit units, except that
  each carriage return followed by a line feed has become a line feed.
\<close>

theorem decode_encode: "decode (encode s) = replace_crlf s"
proof -
  let ?u = "utf8_encode s"
  note u = utf8_encode_chars(1) [of s] and e = encode_enc_list [of s]
  have "decode_loop (encode s) 0 [] = ?u" using decode_loop_list [OF utf8_encode_chars(2), of "[]"] by (simp add: e)
  moreover have "filter (\<lambda>c. c \<in> set keyStr) (encode s) = encode s"
    using set_enc_list by (auto simp: filter_id_conv e)
  ultimately show ?thesis using utf8_decode_list [of "[]"] u by (simp add: decode_def utf8_decode_def)
qed

lemma length_enc_list: "list_all byte cs \<Longrightarrow> length (enc_list cs) = 4 * ((length cs + 2) div 3)"
proof (induction cs rule: enc_list.induct)
  case (2 a) then show ?case using group1 [of a] by auto
next
  case (3 a b) then show ?case using group2 [of a b] by auto
next
  case (4 a b c cs)
  have "(length (a # b # c # cs) + 2) div 3 = Suc ((length cs + 2) div 3)" by simp
  with 4 group3 [of a b c] show ?case by auto
qed simp

text \<open>
  C23.  The encoded text has only characters of the Base64 alphabet, and its length is four characters
  for every started group of three bytes of the UTF-8 form.
\<close>

theorem encode_shape:
  "set (encode s) \<subseteq> set keyStr \<and> length (encode s) = 4 * ((length (utf8_encode s) + 2) div 3)"
  using set_enc_list length_enc_list [OF utf8_encode_chars(2)] by (simp add: encode_enc_list)

text \<open>
  A character outside the basic plane is encoded as its two surrogates of three bytes each, which
  is not its UTF-8 form: here U+10000 becomes six bytes.
\<close>

lemma surrogates_not_utf8: "map unat (utf8_encode [0xD800, 0xDC00]) = [0xED, 0xA0, 0x80, 0xED, 0xB0, 0x80]"
  by code_simp

end
