(* ===== verification/Uploader.thy ===== *)
theory Uploader
  imports JS_Prelude
begin

text \<open>
  The upload queue of \<open>resources/plugins/oss/lib/plupload-2.1.2/js/plupload.dev.js\<close>.

  An uploader has a queue of files, a state (started or stopped) and the running requests.  File
  objects are shared between the queue, the events and the closures of running uploads, so the
  state keeps them in a store \<open>fobj\<close> and names them by their id.  The private variable \<open>files\<close> and
  the public property \<open>this.files\<close> are the same array until the \<open>Destroy\<close> event replaces the
  private one: \<open>stale\<close> keeps the array that the property still names then.

  Calls through \<open>setTimeout\<close> are the list \<open>timers\<close>; a closure of \<open>onUploadFile\<close> is a \<open>job\<close> with its
  own offset and retry counter; a request keeps the values that its callbacks close over.  The
  listeners of the page are reduced to what the queue sees of them: whether they veto
  \<open>BeforeUpload\<close>.  The ratios shown to the user (percent, loaded, bytes per second) are floating
  point and not modelled; sizes and offsets are natural numbers.
\<close>

section \<open>Data\<close>

datatype ustate = STOPPED | STARTED

datatype fstatus = QUEUED | UPLOADING | FAILED | DONE

record pfile =
  fid :: nat
  fname :: jstr
  fsize :: "nat option"
  origSize :: "nat option"
  loaded :: "nat option"
  status :: fstatus
  target_name :: "jstr option"
  source :: "nat option"

record settings =
  chunk_size :: nat
  max_retries :: nat
  unique_names :: bool
  send_file_name :: bool
  send_chunk_number :: bool
  resize_enabled :: bool
  mime_types :: "jstr list"
  prevent_duplicates :: bool
  max_file_size :: nat

text \<open>\<open>total.size\<close> is a number, \<open>undefined\<close>, or NaN after adding to \<open>undefined\<close>.\<close>

datatype tsize = SNum nat | SUndef | SNaN

record progress =
  p_size :: tsize
  p_uploaded :: nat
  p_failed :: nat
  p_queued :: nat

record job =
  j_file :: nat
  j_chunk :: nat
  j_offset :: nat
  j_retries :: nat
  j_blob :: nat

record request =
  r_job :: nat
  r_from :: nat
  r_cur :: nat
  r_name :: "jstr option"
  r_chunk :: "(nat \<times> nat) option"
  r_range :: "(nat \<times> nat) option"

datatype rstate = ROpen | RAnswered | RClosed

datatype task =
    TNext
  | TChunk nat
  | TAdd "nat list" "nat list"

datatype ecode = HTTP_ERROR | INIT_ERROR | FILE_SIZE_ERROR | FILE_EXTENSION_ERROR | FILE_DUPLICATE_ERROR

datatype event =
    EStateChanged
  | EUploadFile nat
  | EUploadComplete "nat list"
  | EChunkUploaded nat nat nat
  | EFileUploaded nat
  | EUploadProgress nat
  | ECancelUpload
  | EFileFiltered nat
  | EFilesAdded "nat list"
  | EFilesRemoved "nat list"
  | EQueueChanged
  | ERefresh
  | EError ecode "nat option"
  | EInit
  | EDestroy

record uploader =
  state :: ustate
  files :: "nat list"
  stale :: "nat list option"
  fobj :: "nat \<Rightarrow> pfile"
  next_id :: nat
  sett :: settings
  can_chunk :: bool
  can_resize :: "nat \<Rightarrow> bool"
  has_runtime :: bool
  total :: progress
  jobs :: "job list"
  requests :: "(request \<times> rstate) list"
  xhr :: "nat option"
  timers :: "task list"
  destroyed :: bool
  events :: "event list"

text \<open>The listeners of the page on \<open>BeforeUpload\<close>, bound before and after the uploader's own.\<close>

record hooks =
  pre_ok :: "nat \<Rightarrow> bool"
  post_ok :: "nat \<Rightarrow> bool"

definition emit :: "event \<Rightarrow> uploader \<Rightarrow> uploader" where
  "emit e u = u\<lparr>events := events u @ [e]\<rparr>"

definition upd_file :: "nat \<Rightarrow> (pfile \<Rightarrow> pfile) \<Rightarrow> uploader \<Rightarrow> uploader" where
  "upd_file f g u = u\<lparr>fobj := (fobj u)(f := g (fobj u f))\<rparr>"

definition set_status :: "fstatus \<Rightarrow> nat \<Rightarrow> uploader \<Rightarrow> uploader" where
  "set_status st f u = upd_file f (status_update (\<lambda>_. st)) u"

definition add_timer :: "task \<Rightarrow> uploader \<Rightarrow> uploader" where
  "add_timer t u = u\<lparr>timers := timers u @ [t]\<rparr>"

definition up_files :: "uploader \<Rightarrow> nat list" where
  "up_files u = (case stale u of None \<Rightarrow> files u | Some l \<Rightarrow> l)"

section \<open>Progress of the queue\<close>

definition reset_progress :: progress where
  "reset_progress = \<lparr>p_size = SNum 0, p_uploaded = 0, p_failed = 0, p_queued = 0\<rparr>"

definition count_size :: "pfile \<Rightarrow> tsize \<Rightarrow> tsize" where
  "count_size f s =
     (case fsize f of
        None \<Rightarrow> SUndef
      | Some _ \<Rightarrow> (case (s, origSize f) of (SNum n, Some k) \<Rightarrow> SNum (n + k) | _ \<Rightarrow> SNaN))"

definition count_file :: "pfile \<Rightarrow> progress \<Rightarrow> progress" where
  "count_file f p =
     (let p = p\<lparr>p_size := count_size f (p_size p)\<rparr>
      in case status f of
           DONE \<Rightarrow> p\<lparr>p_uploaded := p_uploaded p + 1\<rparr>
         | FAILED \<Rightarrow> p\<lparr>p_failed := p_failed p + 1\<rparr>
         | _ \<Rightarrow> p\<lparr>p_queued := p_queued p + 1\<rparr>)"

definition calc :: "uploader \<Rightarrow> uploader" where
  "calc u = u\<lparr>total := fold (\<lambda>f p. count_file (fobj u f) p) (files u) reset_progress\<rparr>"

text \<open>\<open>calcFile\<close> sets the percent of the file and recalculates; \<open>onUploadProgress\<close> calls it.\<close>

definition upload_progress :: "nat \<Rightarrow> uploader \<Rightarrow> uploader" where
  "upload_progress f u = calc (emit (EUploadProgress f) u)"

section \<open>Sending a file\<close>

definition ceil_div :: "nat \<Rightarrow> nat \<Rightarrow> nat" where
  "ceil_div a c = (a + c - 1) div c"

text \<open>\<open>uploadNextChunk\<close> of job \<open>j\<close>.\<close>

definition chunked :: "uploader \<Rightarrow> job \<Rightarrow> bool" where
  "chunked u jb \<longleftrightarrow> j_chunk jb \<noteq> 0 \<and> can_chunk u"

definition make_request :: "uploader \<Rightarrow> nat \<Rightarrow> request" where
  "make_request u j =
     (let jb = jobs u ! j; f = fobj u (j_file jb);
          cur = (if chunked u jb \<and> j_blob jb > j_chunk jb then min (j_chunk jb) (j_blob jb - j_offset jb) else j_blob jb)
      in \<lparr>r_job = j, r_from = (if chunked u jb \<and> j_blob jb > j_chunk jb then j_offset jb else 0), r_cur = cur,
          r_name = (if send_file_name (sett u) then Some (case target_name f of Some t \<Rightarrow> t | None \<Rightarrow> fname f) else None),
          r_chunk = (if chunked u jb \<and> send_chunk_number (sett u)
                     then Some (ceil_div (j_offset jb) (j_chunk jb), ceil_div (j_blob jb) (j_chunk jb)) else None),
          r_range = (if chunked u jb \<and> \<not> send_chunk_number (sett u) then Some (j_offset jb, j_blob jb) else None)\<rparr>)"

definition uploadNextChunk :: "nat \<Rightarrow> uploader \<Rightarrow> uploader" where
  "uploadNextChunk j u =
     (if status (fobj u (j_file (jobs u ! j))) \<noteq> UPLOADING \<or> state u = STOPPED then u
      else u\<lparr>requests := requests u @ [(make_request u j, ROpen)], xhr := Some (length (requests u))\<rparr>)"

text \<open>
  \<open>onUploadFile\<close>: the start offset, the source of the file and the first chunk.  When the file is an
  image to be resized the first chunk waits for the resized copy (\<open>resized\<close>).
\<close>

definition start_offset :: "nat \<Rightarrow> nat option \<Rightarrow> nat" where
  "start_offset chunkSize ld =
     (case ld of None \<Rightarrow> 0 | Some n \<Rightarrow> if n = 0 then 0 else if chunkSize \<noteq> 0 then chunkSize * (n div chunkSize) else 0)"

definition resume_file :: "nat \<Rightarrow> nat \<Rightarrow> uploader \<Rightarrow> uploader" where
  "resume_file f off u =
     (case loaded (fobj u f) of
        None \<Rightarrow> u
      | Some n \<Rightarrow> if n = 0 then u else upd_file f (loaded_update (\<lambda>_. Some off)) u)"

definition add_job :: "job \<Rightarrow> uploader \<Rightarrow> uploader" where
  "add_job jb u = u\<lparr>jobs := jobs u @ [jb]\<rparr>"

text \<open>A file whose source was destroyed has no blob: reading its size throws, and nothing is sent.\<close>

definition onUploadFile :: "nat \<Rightarrow> uploader \<Rightarrow> uploader" where
  "onUploadFile f u =
     (let c = chunk_size (sett u); off = start_offset c (loaded (fobj u f)); u = resume_file f off u
      in case source (fobj u f) of
           None \<Rightarrow> u
         | Some blob \<Rightarrow>
             let j = length (jobs u);
                 u = add_job \<lparr>j_file = f, j_chunk = c, j_offset = off, j_retries = max_retries (sett u), j_blob = blob\<rparr> u
             in if resize_enabled (sett u) \<and> can_resize u f then u else uploadNextChunk j u)"

definition upd_job :: "nat \<Rightarrow> (job \<Rightarrow> job) \<Rightarrow> uploader \<Rightarrow> uploader" where
  "upd_job j g u = u\<lparr>jobs := (jobs u)[j := g (jobs u ! j)]\<rparr>"

text \<open>The callback of \<open>resizeImage\<close>.\<close>

definition resized :: "nat \<Rightarrow> nat \<Rightarrow> uploader \<Rightarrow> uploader" where
  "resized j n u =
     uploadNextChunk j (upd_file (j_file (jobs u ! j)) (fsize_update (\<lambda>_. Some n)) (upd_job j (j_blob_update (\<lambda>_. n)) u))"

section \<open>The queue\<close>

text \<open>\<open>onBeforeUpload\<close>: the extension of the name, or \<open>part\<close>.\<close>

definition extension :: "jstr \<Rightarrow> jstr option" where
  "extension name =
     (let r = takeWhile (\<lambda>c. c \<noteq> 46) (rev name)
      in if r \<noteq> [] \<and> length r < length name then Some (rev r) else None)"

definition onBeforeUpload :: "(nat \<Rightarrow> jstr) \<Rightarrow> nat \<Rightarrow> uploader \<Rightarrow> uploader" where
  "onBeforeUpload id_str f u =
     (if unique_names (sett u) then
        upd_file f (target_name_update (\<lambda>_. Some (id_str f @ [46] @
          (case extension (fname (fobj u f)) of Some e \<Rightarrow> e | None \<Rightarrow> js ''part'')))) u
      else u)"

definition beforeUpload :: "(nat \<Rightarrow> jstr) \<Rightarrow> hooks \<Rightarrow> nat \<Rightarrow> uploader \<Rightarrow> bool \<times> uploader" where
  "beforeUpload id_str h f u = (if pre_ok h f then (post_ok h f, onBeforeUpload id_str f u) else (False, u))"

text \<open>The loop of \<open>uploadNext\<close>: the first queued file is started, the others are counted.\<close>

fun next_loop :: "(nat \<Rightarrow> jstr) \<Rightarrow> hooks \<Rightarrow> nat list \<Rightarrow> bool \<Rightarrow> nat \<Rightarrow> uploader \<Rightarrow> nat \<times> uploader" where
  "next_loop id_str h [] found count u = (count, u)"
| "next_loop id_str h (f # fs) found count u =
     (if \<not> found \<and> status (fobj u f) = QUEUED then
        let (ok, u) = beforeUpload id_str h f u;
            u = (if ok then onUploadFile f (emit (EUploadFile f) (set_status UPLOADING f u)) else u)
        in next_loop id_str h fs True count u
      else next_loop id_str h fs found (count + 1) u)"

text \<open>\<open>onStateChanged\<close> when the state is \<open>STOPPED\<close>: from the last file to the first.\<close>

definition requeue :: "nat list \<Rightarrow> uploader \<Rightarrow> uploader" where
  "requeue fs u = fold (\<lambda>f u. if status (fobj u f) = UPLOADING then calc (set_status QUEUED f u) else u) (rev fs) u"

definition stateChanged :: "uploader \<Rightarrow> uploader" where
  "stateChanged u =
     (let u = emit EStateChanged u in if state u = STOPPED then requeue (up_files u) u else u)"

definition uploadNext :: "(nat \<Rightarrow> jstr) \<Rightarrow> hooks \<Rightarrow> uploader \<Rightarrow> uploader" where
  "uploadNext id_str h u =
     (if state u = STARTED then
        let (count, u) = next_loop id_str h (files u) False 0 u
        in if count = length (files u) then
             let u = (if state u \<noteq> STOPPED then stateChanged (u\<lparr>state := STOPPED\<rparr>) else u)
             in emit (EUploadComplete (files u)) u
           else u
      else u)"

text \<open>\<open>onCancelUpload\<close>: what \<open>abort\<close> does to a running request is up to the browser.\<close>

definition cancelUpload :: "uploader \<Rightarrow> uploader" where
  "cancelUpload u = emit ECancelUpload u"

definition start :: "(nat \<Rightarrow> jstr) \<Rightarrow> hooks \<Rightarrow> uploader \<Rightarrow> uploader" where
  "start id_str h u =
     (if state u \<noteq> STARTED then uploadNext id_str h (stateChanged (u\<lparr>state := STARTED\<rparr>)) else u)"

definition stop :: "uploader \<Rightarrow> uploader" where
  "stop u = (if state u \<noteq> STOPPED then cancelUpload (stateChanged (u\<lparr>state := STOPPED\<rparr>)) else u)"

section \<open>Destruction and errors\<close>

definition destroy_file :: "nat \<Rightarrow> uploader \<Rightarrow> uploader" where
  "destroy_file f u = upd_file f (source_update (\<lambda>_. None)) u"

definition onDestroy :: "uploader \<Rightarrow> uploader" where
  "onDestroy u =
     (let u = stop u; u = fold destroy_file (files u) u
      in u\<lparr>files := [], stale := Some (up_files u), has_runtime := False, xhr := None, total := reset_progress\<rparr>)"

definition destroy :: "uploader \<Rightarrow> uploader" where
  "destroy u = (onDestroy (emit EDestroy u))\<lparr>destroyed := True\<rparr>"

definition onError :: "ecode \<Rightarrow> nat option \<Rightarrow> uploader \<Rightarrow> uploader" where
  "onError code file u =
     (let u = emit (EError code file) u
      in if code = INIT_ERROR then destroy u
         else case file of
                None \<Rightarrow> u
              | Some f \<Rightarrow>
                  let u = calc (set_status FAILED f u)
                  in if state u = STARTED then add_timer TNext (cancelUpload u) else u)"

section \<open>Callbacks of a request\<close>

definition handleError :: "nat \<Rightarrow> uploader \<Rightarrow> uploader" where
  "handleError j u =
     (let jb = jobs u ! j; u = upd_job j (j_retries_update (\<lambda>r. r - 1)) u
      in if j_retries jb > 0 then add_timer (TChunk j) u
         else onError HTTP_ERROR (Some (j_file jb))
                (upd_file (j_file jb) (loaded_update (\<lambda>_. Some (j_offset jb))) u))"

definition on_progress :: "request \<Rightarrow> nat \<Rightarrow> uploader \<Rightarrow> uploader" where
  "on_progress rq n u =
     (let jb = jobs u ! r_job rq; f = j_file jb
      in upload_progress f
           (upd_file f (\<lambda>pf. pf\<lparr>loaded := map_option (\<lambda>s. min s (j_offset jb + n)) (fsize pf)\<rparr>) u))"

definition chunk_done :: "request \<Rightarrow> uploader \<Rightarrow> uploader" where
  "chunk_done rq u =
     (let j = r_job rq; u = upd_job j (\<lambda>jb. jb\<lparr>j_offset := j_offset jb + r_cur rq\<rparr>) u; jb = jobs u ! j; f = j_file jb;
          u = upd_file f (loaded_update (\<lambda>_. Some (min (j_offset jb) (j_blob jb)))) u
      in emit (EChunkUploaded f (min (j_offset jb) (j_blob jb)) (j_blob jb)) u)"

definition fileUploaded :: "nat \<Rightarrow> uploader \<Rightarrow> uploader" where
  "fileUploaded f u = add_timer TNext (calc (emit (EFileUploaded f) u))"

definition on_load :: "request \<Rightarrow> nat \<Rightarrow> uploader \<Rightarrow> uploader" where
  "on_load rq st u =
     (let j = r_job rq
      in if st \<ge> 400 then handleError j u
         else
           let u = upd_job j (j_retries_update (\<lambda>_. max_retries (sett u))) u;
               f = j_file (jobs u ! j);
               u = (if r_cur rq < j_blob (jobs u ! j) then chunk_done rq u
                    else upd_file f (\<lambda>pf. pf\<lparr>loaded := fsize pf\<rparr>) u);
               jb = jobs u ! j
           in if j_offset jb = 0 \<or> j_offset jb \<ge> j_blob jb
              then fileUploaded f (set_status DONE f (upload_progress f u))
              else add_timer (TChunk j) u)"

definition set_rstate :: "nat \<Rightarrow> rstate \<Rightarrow> uploader \<Rightarrow> uploader" where
  "set_rstate r st u = u\<lparr>requests := (requests u)[r := (fst (requests u ! r), st)]\<rparr>"

definition on_loadend :: "nat \<Rightarrow> uploader \<Rightarrow> uploader" where
  "on_loadend r u = (set_rstate r RClosed u)\<lparr>xhr := None\<rparr>"

section \<open>Adding files\<close>

text \<open>\<open>new plupload.File(file)\<close>: a size of 0 is falsy and becomes \<open>undefined\<close>.\<close>

definition new_file :: "nat \<Rightarrow> jstr \<Rightarrow> nat \<Rightarrow> pfile" where
  "new_file i name n =
     (let sz = (if n = 0 then None else Some n)
      in \<lparr>fid = i, fname = name, fsize = sz, origSize = sz, loaded = Some 0, status = QUEUED, target_name = None, source = Some n\<rparr>)"

definition alloc_file :: "jstr \<Rightarrow> nat \<Rightarrow> uploader \<Rightarrow> nat \<times> uploader" where
  "alloc_file name n u =
     (next_id u, u\<lparr>fobj := (fobj u)(next_id u := new_file (next_id u) name n), next_id := Suc (next_id u)\<rparr>)"

text \<open>
  What \<open>addFile\<close> accepts: a moxie file (with or without a runtime or detached data), a blob wrapping
  another source, a file of this queue, a native file, a file input or an array of these.
\<close>

datatype raw =
    MFile bool jstr nat
  | MBlob raw
  | PFile nat
  | Native jstr nat
  | FileInput "raw list"
  | RawArray "raw list"
  | Unsupported

text \<open>
  \<open>resolveFile\<close>: the resolved files in order, the file name (which an array clears) and whether the
  iteration that calls it goes on; a moxie file that belongs to no runtime returns \<open>false\<close>, which
  ends it.
\<close>

definition set_name :: "jstr option \<Rightarrow> nat \<Rightarrow> uploader \<Rightarrow> uploader" where
  "set_name fileName f u =
     (case fileName of Some n \<Rightarrow> if n = [] then u else upd_file f (fname_update (\<lambda>_. n)) u | None \<Rightarrow> u)"

fun resolveFile :: "raw \<Rightarrow> jstr option \<Rightarrow> uploader \<Rightarrow> (nat list \<times> jstr option \<times> bool) \<times> uploader"
  and resolve_each :: "raw list \<Rightarrow> jstr option \<Rightarrow> uploader \<Rightarrow> (nat list \<times> jstr option) \<times> uploader" where
  "resolveFile (MFile attached name n) fileName u =
     (if \<not> attached \<and> \<not> has_runtime u then (([], fileName, False), u)
      else let (f, u) = alloc_file name n u in (([f], fileName, True), set_name fileName f u))"
| "resolveFile (MBlob r) fileName u =
     (let ((fs, fileName, _), u) = resolveFile r fileName u in ((fs, fileName, True), u))"
| "resolveFile (PFile f) fileName u = (([f], fileName, True), set_name fileName f u)"
| "resolveFile (Native name n) fileName u =
     (if \<not> has_runtime u then (([], fileName, True), u)
      else let (f, u) = alloc_file name n u in (([f], fileName, True), set_name fileName f u))"
| "resolveFile (FileInput rs) fileName u =
     (let ((fs, fileName), u) = resolve_each rs fileName u in ((fs, fileName, True), u))"
| "resolveFile (RawArray rs) fileName u =
     (let ((fs, fileName), u) = resolve_each rs None u in ((fs, fileName, True), u))"
| "resolveFile Unsupported fileName u = (([], fileName, True), u)"
| "resolve_each [] fileName u = (([], fileName), u)"
| "resolve_each (r # rs) fileName u =
     (let ((fs, fileName, go), u) = resolveFile r fileName u
      in if go then let ((gs, fileName), u) = resolve_each rs fileName u in ((fs @ gs, fileName), u)
         else ((fs, fileName), u))"

text \<open>
  The filters, in the order of \<open>settings.filters\<close>.  The expression built for \<open>mime_types\<close> matches a
  name that ends in a dot and one of the extensions, ignoring case; an extension that is only a star
  matches every name.
\<close>

definition ends_with :: "jstr \<Rightarrow> jstr \<Rightarrow> bool" where
  "ends_with name s \<longleftrightarrow> length s \<le> length name \<and> drop (length name - length s) name = s"

definition ext_matches :: "jstr \<Rightarrow> jstr \<Rightarrow> bool" where
  "ext_matches name ext \<longleftrightarrow>
     filter (\<lambda>c. \<not> js_space c) ext = [42] \<or>
     ends_with (map toLower name) (map toLower (46 # ext))"

definition filter_errors :: "nat \<Rightarrow> uploader \<Rightarrow> ecode option" where
  "filter_errors f u =
     (let pf = fobj u f; s = sett u
      in if mime_types s \<noteq> [] \<and> \<not> list_ex (ext_matches (fname pf)) (mime_types s) then Some FILE_EXTENSION_ERROR
         else if prevent_duplicates s \<and> list_ex (\<lambda>g. fname (fobj u g) = fname pf \<and> fsize (fobj u g) = fsize pf) (up_files u)
         then Some FILE_DUPLICATE_ERROR
         else if (case fsize pf of Some n \<Rightarrow> max_file_size s \<noteq> 0 \<and> n > max_file_size s | None \<Rightarrow> False)
         then Some FILE_SIZE_ERROR
         else None)"

text \<open>One file of the series: filtered, pushed on the private array (which \<open>this.files\<close> may not be), and the rest detached.\<close>

definition push_file :: "nat \<Rightarrow> uploader \<Rightarrow> uploader" where
  "push_file f u = u\<lparr>files := files u @ [f]\<rparr>"

definition queueChanged :: "uploader \<Rightarrow> uploader" where
  "queueChanged u = emit ERefresh (calc (emit EQueueChanged u))"

definition add_next :: "nat list \<Rightarrow> nat list \<Rightarrow> uploader \<Rightarrow> uploader" where
  "add_next queue added u =
     (case queue of
        [] \<Rightarrow> if added \<noteq> [] then queueChanged (emit (EFilesAdded added) u) else u
      | f # fs \<Rightarrow>
          (case filter_errors f u of
             Some e \<Rightarrow> add_timer (TAdd fs added) (onError e (Some f) u)
           | None \<Rightarrow> add_timer (TAdd fs (added @ [f])) (emit (EFileFiltered f) (push_file f u))))"

definition addFile :: "raw \<Rightarrow> jstr option \<Rightarrow> uploader \<Rightarrow> uploader" where
  "addFile r fileName u =
     (let ((queue, _, _), u) = resolveFile r fileName u
      in if queue \<noteq> [] then add_next queue [] u else u)"

section \<open>Removing files\<close>

definition getFile :: "nat \<Rightarrow> uploader \<Rightarrow> nat option" where
  "getFile i u = find (\<lambda>f. f = i) (rev (files u))"

text \<open>\<open>Array.splice(start, n)\<close>: the removed part and the rest.\<close>

definition splice_at :: "int \<Rightarrow> int \<Rightarrow> 'a list \<Rightarrow> 'a list \<times> 'a list" where
  "splice_at i n xs =
     (let k = nat (if i < 0 then max 0 (int (length xs) + i) else min i (int (length xs))); m = nat n
      in (take m (drop k xs), take k xs @ drop (k + m) xs))"

definition splice :: "(nat \<Rightarrow> jstr) \<Rightarrow> hooks \<Rightarrow> int option \<Rightarrow> int option \<Rightarrow> uploader \<Rightarrow> nat list \<times> uploader" where
  "splice id_str h st len u =
     (let (removed, rest) = splice_at (case st of None \<Rightarrow> 0 | Some i \<Rightarrow> i)
                              (case len of None \<Rightarrow> int (length (files u)) | Some n \<Rightarrow> n) (files u);
          u = u\<lparr>files := rest\<rparr>;
          restart = (state u = STARTED \<and> list_ex (\<lambda>f. status (fobj u f) = UPLOADING) removed);
          u = (if restart then stop u else u);
          u = queueChanged (emit (EFilesRemoved removed) u);
          u = fold destroy_file removed u
      in (removed, if restart then start id_str h u else u))"

fun last_index :: "nat \<Rightarrow> nat list \<Rightarrow> nat option" where
  "last_index x [] = None"
| "last_index x (y # ys) = (case last_index x ys of Some i \<Rightarrow> Some (Suc i) | None \<Rightarrow> if y = x then Some 0 else None)"

definition removeFile :: "(nat \<Rightarrow> jstr) \<Rightarrow> hooks \<Rightarrow> nat \<Rightarrow> uploader \<Rightarrow> nat option \<times> uploader" where
  "removeFile id_str h f u =
     (case last_index f (files u) of
        None \<Rightarrow> (None, u)
      | Some i \<Rightarrow> let (removed, u) = splice id_str h (Some (int i)) (Some 1) u in (Some (hd removed), u))"

section \<open>Initialisation\<close>

definition new_uploader :: "settings \<Rightarrow> bool \<Rightarrow> (nat \<Rightarrow> bool) \<Rightarrow> uploader" where
  "new_uploader s chunks resizable =
     \<lparr>state = STOPPED, files = [], stale = None, fobj = (\<lambda>i. new_file i [] 0), next_id = 0, sett = s, can_chunk = chunks,
      can_resize = resizable, has_runtime = False, total = reset_progress, jobs = [], requests = [], xhr = None,
      timers = [], destroyed = False, events = []\<rparr>"

text \<open>The end of \<open>initControls\<close>: at least one control was set up, or none.\<close>

definition inited :: "bool \<Rightarrow> uploader \<Rightarrow> uploader" where
  "inited ok u = (if ok then emit EInit (u\<lparr>has_runtime := True\<rparr>) else onError INIT_ERROR None u)"

text \<open>\<open>init\<close>: the required options are given, and how the controls end up.\<close>

definition init :: "bool \<Rightarrow> bool \<Rightarrow> uploader \<Rightarrow> uploader" where
  "init required ok u = (if \<not> required then onError INIT_ERROR None u else inited ok u)"

text \<open>The part of \<open>setOption\<close> that needs new controls: the queue is destroyed and the controls set up again.\<close>

definition reinit :: "bool \<Rightarrow> uploader \<Rightarrow> uploader" where
  "reinit ok u = inited ok (onDestroy (emit EDestroy u))"

section \<open>Steps\<close>

definition run_task :: "(nat \<Rightarrow> jstr) \<Rightarrow> hooks \<Rightarrow> task \<Rightarrow> uploader \<Rightarrow> uploader" where
  "run_task id_str h t u =
     (case t of TNext \<Rightarrow> uploadNext id_str h u | TChunk j \<Rightarrow> uploadNextChunk j u | TAdd q a \<Rightarrow> add_next q a u)"

text \<open>The file objects that the page passes back were made before.\<close>

fun raw_known :: "nat \<Rightarrow> raw \<Rightarrow> bool" where
  "raw_known n (MBlob r) = raw_known n r"
| "raw_known n (PFile f) = (f < n)"
| "raw_known n (FileInput rs) = list_all (raw_known n) rs"
| "raw_known n (RawArray rs) = list_all (raw_known n) rs"
| "raw_known n _ = True"

text \<open>
  What can happen next: a call from the page, a timer, an event of a request or of the image resizer,
  in any order.
\<close>

inductive step :: "(nat \<Rightarrow> jstr) \<Rightarrow> hooks \<Rightarrow> uploader \<Rightarrow> uploader \<Rightarrow> bool" for id_str h where
  s_start: "\<not> destroyed u \<Longrightarrow> step id_str h u (start id_str h u)"
| s_stop: "\<not> destroyed u \<Longrightarrow> step id_str h u (stop u)"
| s_add: "\<not> destroyed u \<Longrightarrow> raw_known (next_id u) r \<Longrightarrow> step id_str h u (addFile r fileName u)"
| s_splice: "\<not> destroyed u \<Longrightarrow> step id_str h u (snd (splice id_str h st len u))"
| s_remove: "\<not> destroyed u \<Longrightarrow> step id_str h u (snd (removeFile id_str h f u))"
| s_reinit: "\<not> destroyed u \<Longrightarrow> step id_str h u (reinit ok u)"
| s_destroy: "\<not> destroyed u \<Longrightarrow> step id_str h u (destroy u)"
| s_timer: "\<not> destroyed u \<Longrightarrow> timers u = ts @ t # ts' \<Longrightarrow> step id_str h u (run_task id_str h t (u\<lparr>timers := ts @ ts'\<rparr>))"
| s_progress: "\<not> destroyed u \<Longrightarrow> r < length (requests u) \<Longrightarrow> requests u ! r = (rq, ROpen) \<Longrightarrow> step id_str h u (on_progress rq n u)"
| s_load: "\<not> destroyed u \<Longrightarrow> r < length (requests u) \<Longrightarrow> requests u ! r = (rq, ROpen) \<Longrightarrow>
    step id_str h u (on_load rq st (set_rstate r RAnswered u))"
| s_error: "\<not> destroyed u \<Longrightarrow> r < length (requests u) \<Longrightarrow> requests u ! r = (rq, ROpen) \<Longrightarrow>
    step id_str h u (handleError (r_job rq) (set_rstate r RAnswered u))"
| s_loadend: "\<not> destroyed u \<Longrightarrow> r < length (requests u) \<Longrightarrow> step id_str h u (on_loadend r u)"
| s_resized: "\<not> destroyed u \<Longrightarrow> j < length (jobs u) \<Longrightarrow> step id_str h u (resized j n u)"

section \<open>The counters\<close>

text \<open>The counters of \<open>total\<close> say how many files of the queue are in which state.\<close>

definition counts_match :: "uploader \<Rightarrow> bool" where
  "counts_match u \<longleftrightarrow>
     p_uploaded (total u) = length (filter (\<lambda>f. status (fobj u f) = DONE) (files u)) \<and>
     p_failed (total u) = length (filter (\<lambda>f. status (fobj u f) = FAILED) (files u)) \<and>
     p_queued (total u) = length (filter (\<lambda>f. status (fobj u f) \<in> {QUEUED, UPLOADING}) (files u))"

text \<open>A batch of additions that has changed the queue and has not reported it yet.\<close>

definition adding :: "uploader \<Rightarrow> bool" where
  "adding u \<longleftrightarrow> (\<exists>q a. TAdd q a \<in> set (timers u) \<and> a \<noteq> [])"

lemma fold_counts:
  "p_uploaded (fold (\<lambda>f p. count_file (g f) p) fs p) = p_uploaded p + length (filter (\<lambda>f. status (g f) = DONE) fs)"
  "p_failed (fold (\<lambda>f p. count_file (g f) p) fs p) = p_failed p + length (filter (\<lambda>f. status (g f) = FAILED) fs)"
  "p_queued (fold (\<lambda>f p. count_file (g f) p) fs p) = p_queued p + length (filter (\<lambda>f. status (g f) \<in> {QUEUED, UPLOADING}) fs)"
  by (induction fs arbitrary: p) (auto simp: count_file_def Let_def split: fstatus.splits)

lemma counts_calc [simp]: "counts_match (calc u)"
  by (simp add: counts_match_def calc_def fold_counts reset_progress_def)

text \<open>
  An operation keeps the counters right, the queue, and the additions that are under way.
\<close>

definition steady :: "uploader \<Rightarrow> uploader \<Rightarrow> bool" where
  "steady u v \<longleftrightarrow>
     files v = files u \<and> next_id v = next_id u \<and>
     (\<forall>q a. TAdd q a \<in> set (timers v) \<longleftrightarrow> TAdd q a \<in> set (timers u)) \<and> (counts_match u \<longrightarrow> counts_match v)"

lemma steady_refl: "steady u u"
  by (simp add: steady_def)

lemma steady_trans: "steady u v \<Longrightarrow> steady v w \<Longrightarrow> steady u w"
  by (auto simp: steady_def)

lemma steady_same:
  "timers v = timers u \<Longrightarrow> files v = files u \<Longrightarrow> next_id v = next_id u \<Longrightarrow> total v = total u \<Longrightarrow> fobj v = fobj u \<Longrightarrow> steady u v"
  by (simp add: steady_def counts_match_def)

lemma steady_emit: "steady u (emit e u)"
  by (rule steady_same) (simp_all add: emit_def)

lemma steady_calc: "steady u (calc u)"
  by (simp add: steady_def) (simp add: calc_def)

lemma steady_add_timer: "(\<And>q a. t \<noteq> TAdd q a) \<Longrightarrow> steady u (add_timer t u)"
  by (auto simp: steady_def counts_match_def add_timer_def)

lemma steady_upd_job: "steady u (upd_job j g u)"
  by (rule steady_same) (simp_all add: upd_job_def)

lemma steady_upd_file: "(\<And>pf. status (g pf) = status pf) \<Longrightarrow> steady u (upd_file f g u)"
proof -
  assume "\<And>pf. status (g pf) = status pf"
  then have "\<And>x. status (fobj (upd_file f g u) x) = status (fobj u x)" by (simp add: upd_file_def)
  then show ?thesis by (simp add: steady_def counts_match_def) (simp add: upd_file_def)
qed

text \<open>Starting or queueing a file that is started or queued.\<close>

lemma filter_status_upd:
  assumes "st \<in> {QUEUED, UPLOADING}" and "status (fobj u f) \<in> {QUEUED, UPLOADING}"
  shows "counts_match (set_status st f u) = counts_match u"
proof -
  have *: "(status (fobj (set_status st f u) x) = DONE) = (status (fobj u x) = DONE)"
    "(status (fobj (set_status st f u) x) = FAILED) = (status (fobj u x) = FAILED)"
    "(status (fobj (set_status st f u) x) \<in> {QUEUED, UPLOADING}) = (status (fobj u x) \<in> {QUEUED, UPLOADING})" for x
    using assms by (auto simp: set_status_def upd_file_def)
  show ?thesis unfolding counts_match_def * by (simp add: set_status_def upd_file_def)
qed

lemma steady_set_status:
  "st \<in> {QUEUED, UPLOADING} \<Longrightarrow> status (fobj u f) \<in> {QUEUED, UPLOADING} \<Longrightarrow> steady u (set_status st f u)"
  using filter_status_upd [of st u f] unfolding steady_def by (auto simp: set_status_def upd_file_def)

lemma steady_uploadNextChunk: "steady u (uploadNextChunk j u)"
  by (rule steady_same) (simp_all add: uploadNextChunk_def)

lemma steady_resume_file: "steady u (resume_file f off u)"
  by (simp add: resume_file_def steady_upd_file steady_refl split: option.split)

lemma steady_add_job: "steady u (add_job jb u)"
  by (rule steady_same) (simp_all add: add_job_def)

lemma steady_onUploadFile: "steady u (onUploadFile f u)"
  unfolding onUploadFile_def Let_def
  by (auto intro: steady_resume_file steady_trans [OF steady_resume_file steady_add_job]
    steady_trans [OF steady_trans [OF steady_resume_file steady_add_job] steady_uploadNextChunk] split: option.split)

lemma steady_beforeUpload: "beforeUpload id_str h f u = (ok, v) \<Longrightarrow> steady u v"
  by (auto simp: beforeUpload_def onBeforeUpload_def steady_upd_file steady_refl split: if_splits)

lemma status_beforeUpload: "beforeUpload id_str h f u = (ok, v) \<Longrightarrow> status (fobj v g) = status (fobj u g)"
  by (auto simp: beforeUpload_def onBeforeUpload_def upd_file_def split: if_splits)

lemma steady_next_loop: "next_loop id_str h fs found count u = (n, v) \<Longrightarrow> steady u v"
proof (induction fs arbitrary: found count u)
  case (Cons f fs)
  show ?case
  proof (cases "\<not> found \<and> status (fobj u f) = QUEUED")
    case True
    obtain ok w where w: "beforeUpload id_str h f u = (ok, w)" by fastforce
    let ?x = "if ok then onUploadFile f (emit (EUploadFile f) (set_status UPLOADING f w)) else w"
    have "steady w ?x"
    proof (cases ok)
      case True
      have "steady w (set_status UPLOADING f w)"
        by (rule steady_set_status) (simp_all add: status_beforeUpload [OF w] \<open>\<not> found \<and> status (fobj u f) = QUEUED\<close>)
      then have "steady w (onUploadFile f (emit (EUploadFile f) (set_status UPLOADING f w)))"
        using steady_emit steady_onUploadFile steady_trans by blast
      with True show ?thesis by simp
    qed (simp add: steady_refl)
    moreover have "next_loop id_str h fs True count ?x = (n, v)" using Cons.prems True w by simp
    ultimately show ?thesis using Cons.IH steady_beforeUpload [OF w] steady_trans by blast
  next
    case False
    then show ?thesis using Cons.IH Cons.prems by (auto split: if_splits)
  qed
qed (simp add: steady_refl)

lemma steady_requeue: "steady u (requeue fs u)"
proof -
  have "steady u (fold (\<lambda>f u. if status (fobj u f) = UPLOADING then calc (set_status QUEUED f u) else u) fs u)" for fs
  proof (induction fs arbitrary: u)
    case (Cons f fs)
    have "steady u (if status (fobj u f) = UPLOADING then calc (set_status QUEUED f u) else u)"
      by (auto intro: steady_trans [OF steady_set_status steady_calc] steady_refl)
    from steady_trans [OF this Cons.IH] show ?case by (simp only: fold_simps comp_apply)
  qed (simp add: steady_refl)
  then show ?thesis by (simp add: requeue_def)
qed

lemma steady_stateChanged: "steady u (stateChanged u)"
  unfolding stateChanged_def Let_def by (auto intro: steady_emit steady_trans [OF steady_emit steady_requeue])

lemma steady_set_state: "steady u (u\<lparr>state := s\<rparr>)"
  by (rule steady_same) simp_all

lemma steady_uploadNext: "steady u (uploadNext id_str h u)"
proof -
  obtain n v where v: "next_loop id_str h (files u) False 0 u = (n, v)" by fastforce
  have "steady v (stateChanged (v\<lparr>state := STOPPED\<rparr>))" using steady_set_state steady_stateChanged steady_trans by blast
  then have "steady u (emit e (stateChanged (v\<lparr>state := STOPPED\<rparr>)))" "steady u (emit e v)" for e
    using steady_next_loop [OF v] steady_emit steady_trans by blast+
  with steady_next_loop [OF v] show ?thesis by (simp add: uploadNext_def v Let_def steady_refl)
qed

lemma steady_start: "steady u (start id_str h u)"
  unfolding start_def
  by (auto intro: steady_refl steady_trans [OF steady_trans [OF steady_set_state steady_stateChanged] steady_uploadNext])

lemma steady_stop: "steady u (stop u)"
  unfolding stop_def cancelUpload_def
  by (auto intro: steady_refl steady_trans [OF steady_trans [OF steady_set_state steady_stateChanged] steady_emit])

lemma steady_into_calc: "steady u v \<Longrightarrow> steady u (calc (set_status st f v))"
  by (simp add: steady_def) (simp add: calc_def set_status_def upd_file_def)

lemma steady_onError: "code \<noteq> INIT_ERROR \<Longrightarrow> steady u (onError code file u)"
proof -
  assume c: "code \<noteq> INIT_ERROR"
  have a: "steady u (calc (set_status FAILED f (emit e u)))" for f e
    by (rule steady_into_calc [OF steady_emit])
  moreover have "steady u (add_timer TNext (emit ECancelUpload (calc (set_status FAILED f (emit e u)))))" for f e
    by (rule steady_trans [OF a steady_trans [OF steady_emit steady_add_timer]]) simp
  ultimately show ?thesis
    using c by (simp add: onError_def cancelUpload_def Let_def steady_emit split: option.split)
qed

lemma steady_handleError: "steady u (handleError j u)"
proof -
  let ?v = "upd_job j (j_retries_update (\<lambda>r. r - 1)) u"
  have "steady u (add_timer (TChunk j) ?v)" by (rule steady_trans [OF steady_upd_job steady_add_timer]) simp
  moreover have "steady u (upd_file f (loaded_update (\<lambda>_. x)) ?v)" for f x
    by (rule steady_trans [OF steady_upd_job steady_upd_file]) simp
  then have "steady u (onError HTTP_ERROR e (upd_file f (loaded_update (\<lambda>_. x)) ?v))" for e f x
    using steady_onError [of HTTP_ERROR] steady_trans by blast
  ultimately show ?thesis by (simp add: handleError_def Let_def)
qed

lemma steady_upload_progress: "steady u (upload_progress f u)"
  unfolding upload_progress_def by (rule steady_trans [OF steady_emit steady_calc])

lemma steady_on_progress: "steady u (on_progress rq n u)"
  unfolding on_progress_def Let_def by (rule steady_trans [OF steady_upd_file steady_upload_progress]) simp

lemma steady_chunk_done: "steady u (chunk_done rq u)"
  unfolding chunk_done_def Let_def
  by (rule steady_trans [OF steady_trans [OF steady_upd_job steady_upd_file] steady_emit]) simp

lemma steady_fileUploaded: "steady u v \<Longrightarrow> steady u (fileUploaded g (set_status DONE f v))"
  by (simp add: steady_def fileUploaded_def)
    (simp add: steady_def counts_match_def fileUploaded_def add_timer_def calc_def fold_counts reset_progress_def emit_def set_status_def upd_file_def)

lemma steady_on_load: "steady u (on_load rq st u)"
proof -
  let ?v = "upd_job (r_job rq) (j_retries_update (\<lambda>_. max_retries (sett u))) u"
  let ?f = "j_file (jobs ?v ! r_job rq)"
  let ?w = "if r_cur rq < j_blob (jobs ?v ! r_job rq) then chunk_done rq ?v else upd_file ?f (\<lambda>pf. pf\<lparr>loaded := fsize pf\<rparr>) ?v"
  have w: "steady u ?w"
    by (rule steady_trans [OF steady_upd_job [of u "r_job rq" "j_retries_update (\<lambda>_. max_retries (sett u))"]])
      (simp add: steady_chunk_done steady_upd_file)
  have "steady u (fileUploaded ?f (set_status DONE ?f (upload_progress ?f ?w)))"
    by (rule steady_fileUploaded [OF steady_trans [OF w steady_upload_progress]])
  moreover have "steady u (add_timer (TChunk (r_job rq)) ?w)" by (rule steady_trans [OF w steady_add_timer]) simp
  ultimately show ?thesis unfolding on_load_def Let_def by (simp only: steady_handleError split: if_split) simp
qed

lemma steady_set_rstate: "steady u (set_rstate r st u)"
  by (rule steady_same) (simp_all add: set_rstate_def)

lemma steady_on_loadend: "steady u (on_loadend r u)"
  by (rule steady_same) (simp_all add: on_loadend_def set_rstate_def)

lemma steady_resized: "steady u (resized j n u)"
  unfolding resized_def
  by (rule steady_trans [OF steady_trans [OF steady_upd_job steady_upd_file] steady_uploadNextChunk]) simp

text \<open>The ids in the queue and in the additions under way are those of existing files.\<close>

definition ids_ok :: "uploader \<Rightarrow> bool" where
  "ids_ok u \<longleftrightarrow> (\<forall>f \<in> set (files u). f < next_id u) \<and> (\<forall>q a. TAdd q a \<in> set (timers u) \<longrightarrow> (\<forall>f \<in> set q. f < next_id u))"

definition uinv :: "uploader \<Rightarrow> bool" where
  "uinv u \<longleftrightarrow> ids_ok u \<and> (counts_match u \<or> adding u)"

lemma steady_uinv: "steady u v \<Longrightarrow> uinv u \<Longrightarrow> uinv v"
  unfolding steady_def uinv_def ids_ok_def adding_def by auto

lemma steady_ids: "steady u v \<Longrightarrow> ids_ok u \<Longrightarrow> ids_ok v"
  unfolding steady_def ids_ok_def by auto

lemma fold_destroy_file:
  "files (fold destroy_file fs u) = files u" "timers (fold destroy_file fs u) = timers u"
  "next_id (fold destroy_file fs u) = next_id u" "counts_match (fold destroy_file fs u) = counts_match u"
proof -
  have d: "files (destroy_file f u) = files u" "timers (destroy_file f u) = timers u" "next_id (destroy_file f u) = next_id u"
    "total (destroy_file f u) = total u" "status (fobj (destroy_file f u) x) = status (fobj u x)" for f u x
    by (simp_all add: destroy_file_def upd_file_def)
  show "files (fold destroy_file fs u) = files u" "timers (fold destroy_file fs u) = timers u"
    "next_id (fold destroy_file fs u) = next_id u" "counts_match (fold destroy_file fs u) = counts_match u"
    by (induction fs arbitrary: u) (simp_all add: d, simp add: counts_match_def d)
qed

lemma onDestroy_uinv: "ids_ok u \<Longrightarrow> uinv (onDestroy u)"
  using steady_ids [OF steady_stop, of u]
  by (simp add: uinv_def onDestroy_def Let_def counts_match_def reset_progress_def ids_ok_def fold_destroy_file)

lemma destroy_uinv: "ids_ok u \<Longrightarrow> uinv (destroy u)"
  using onDestroy_uinv [OF steady_ids [OF steady_emit], of u EDestroy]
  by (simp add: destroy_def uinv_def counts_match_def ids_ok_def adding_def)

lemma onError_uinv: "uinv u \<Longrightarrow> uinv (onError code file u)"
proof (cases "code = INIT_ERROR")
  case True
  assume "uinv u"
  then have "ids_ok (emit (EError code file) u)" by (simp add: uinv_def emit_def ids_ok_def)
  with True show ?thesis using destroy_uinv by (simp add: onError_def)
qed (use steady_uinv steady_onError in blast)

lemma inited_uinv: "uinv u \<Longrightarrow> uinv (inited ok u)"
proof -
  assume u: "uinv u"
  have "steady u (emit EInit (u\<lparr>has_runtime := True\<rparr>))" by (rule steady_same) (simp_all add: emit_def)
  with u show ?thesis using steady_uinv onError_uinv by (simp add: inited_def)
qed

lemma steady_set_name: "steady u (set_name n f u)"
  by (simp add: set_name_def steady_refl steady_upd_file split: option.split)

text \<open>Resolving the arguments of \<open>addFile\<close> makes new files and changes no old one but for its name.\<close>

definition grows :: "uploader \<Rightarrow> uploader \<Rightarrow> bool" where
  "grows u v \<longleftrightarrow> files v = files u \<and> timers v = timers u \<and> next_id u \<le> next_id v \<and> (ids_ok u \<longrightarrow> counts_match u \<longrightarrow> counts_match v)"

lemma grows_refl: "grows u u"
  by (simp add: grows_def)

lemma grows_trans: "grows u v \<Longrightarrow> grows v w \<Longrightarrow> grows u w"
  unfolding grows_def ids_ok_def by (auto intro: order.trans order.strict_trans2)

lemma grows_uinv: "grows u v \<Longrightarrow> uinv u \<Longrightarrow> uinv v"
  unfolding grows_def uinv_def ids_ok_def adding_def by (auto intro: order.strict_trans2)

lemma grows_alloc: "grows u (snd (alloc_file name n u))"
proof -
  have "filter (\<lambda>f. P (status (((fobj u)(next_id u := pf)) f))) (files u) = filter (\<lambda>f. P (status (fobj u f))) (files u)"
    if "ids_ok u" for P pf
    using that by (intro filter_cong) (auto simp: ids_ok_def)
  from this [of "\<lambda>s. s = DONE"] this [of "\<lambda>s. s = FAILED"] this [of "\<lambda>s. s \<in> {QUEUED, UPLOADING}"]
  show ?thesis by (simp add: grows_def alloc_file_def counts_match_def)
qed

lemma grows_set_name: "grows u (set_name n f u)"
  using steady_set_name [of u n f] by (simp add: grows_def steady_def set_name_def upd_file_def split: option.split)

lemma raw_known_mono: "raw_known n r \<Longrightarrow> n \<le> m \<Longrightarrow> raw_known m r"
proof (induction n r rule: raw_known.induct)
  case (3 n rs) then show ?case by (auto simp: list_all_iff)
next
  case (4 n rs) then show ?case by (auto simp: list_all_iff)
qed auto

lemma resolve_file_new:
  assumes "alloc_file name n u = (f, v)"
  shows "grows u (set_name nm f v)" "f < next_id (set_name nm f v)"
proof -
  from assms have v: "v = snd (alloc_file name n u)" "f < next_id v" by (auto simp: alloc_file_def)
  then show "grows u (set_name nm f v)" using grows_alloc grows_set_name grows_trans by blast
  from v(2) grows_set_name [of v nm f] show "f < next_id (set_name nm f v)" by (simp add: grows_def)
qed

lemma resolve_grows:
  "resolveFile r nm u = ((fs, nm', go), v) \<Longrightarrow> raw_known (next_id u) r \<Longrightarrow> grows u v \<and> (\<forall>f \<in> set fs. f < next_id v)"
  "resolve_each rs nm u = ((fs, nm'), v) \<Longrightarrow> list_all (raw_known (next_id u)) rs \<Longrightarrow> grows u v \<and> (\<forall>f \<in> set fs. f < next_id v)"
proof (induction r nm u and rs nm u arbitrary: fs nm' go v and fs nm' v rule: resolveFile_resolve_each.induct)
  case (1 attached name n nm u)
  obtain f w where f: "alloc_file name n u = (f, w)" by fastforce
  with 1 resolve_file_new [OF f, of nm] show ?case by (auto simp: grows_refl split: if_splits)
next
  case (2 r nm u)
  obtain gs nm1 go1 w where w: "resolveFile r nm u = ((gs, nm1, go1), w)" by (metis prod.exhaust)
  with 2(2) have "fs = gs" "v = w" by auto
  with 2(1) [OF w] 2(3) show ?case by simp
next
  case (3 f nm u)
  then show ?case using grows_set_name [of u nm f] by (auto simp: grows_def)
next
  case (4 name n nm u)
  obtain f w where f: "alloc_file name n u = (f, w)" by fastforce
  with 4 resolve_file_new [OF f, of nm] show ?case by (auto simp: grows_refl split: if_splits)
next
  case (5 rs nm u)
  obtain gs nm1 w where w: "resolve_each rs nm u = ((gs, nm1), w)" by (metis prod.exhaust)
  with 5(2) have "fs = gs" "v = w" by auto
  with 5(1) [OF w] 5(3) show ?case by simp
next
  case (6 rs nm u)
  obtain gs nm1 w where w: "resolve_each rs None u = ((gs, nm1), w)" by (metis prod.exhaust)
  with 6(2) have "fs = gs" "v = w" by auto
  with 6(1) [OF w] 6(3) show ?case by simp
next
  case (7 nm u)
  then show ?case by (simp add: grows_refl)
next
  case (8 nm u)
  then show ?case by (simp add: grows_refl)
next
  case (9 r rs nm u)
  obtain gs nm1 go w where w: "resolveFile r nm u = ((gs, nm1, go), w)" by (metis prod.exhaust)
  have g: "grows u w" "\<forall>f \<in> set gs. f < next_id w" using 9(1) [OF w] 9(4) by simp_all
  show ?case
  proof (cases go)
    case False
    with 9(3) w g show ?thesis by auto
  next
    case True
    obtain hs nm2 x where x: "resolve_each rs nm1 w = ((hs, nm2), x)" by (metis prod.exhaust)
    have "list_all (raw_known (next_id w)) rs"
      using 9(4) g(1) raw_known_mono by (auto simp: list_all_iff grows_def)
    from 9(2) [OF w [symmetric] refl refl refl True x this] have "grows w x" "\<forall>f \<in> set hs. f < next_id x" by auto
    moreover have "fs = gs @ hs" "v = x" using 9(3) w x True by auto
    moreover have "next_id w \<le> next_id x" using \<open>grows w x\<close> by (simp add: grows_def)
    then have "\<forall>f \<in> set gs. f < next_id x" using g(2) order.strict_trans2 by blast
    ultimately show ?thesis using grows_trans [OF g(1)] by auto
  qed
qed

lemma ids_ok_add_timer: "ids_ok u \<Longrightarrow> \<forall>f \<in> set q. f < next_id u \<Longrightarrow> ids_ok (add_timer (TAdd q a) u)"
  by (auto simp: ids_ok_def add_timer_def)

lemma add_next_uinv:
  assumes i: "ids_ok u" and q: "\<forall>f \<in> set q. f < next_id u" and c: "a \<noteq> [] \<or> counts_match u \<or> adding u"
  shows "uinv (add_next q a u)"
proof (cases q)
  case Nil
  have k: "ids_ok (queueChanged (emit e u))" for e
    using steady_ids [OF _ i] steady_trans steady_emit steady_calc unfolding queueChanged_def by metis
  have "counts_match (queueChanged w)" for w
    using steady_emit [of "calc (emit EQueueChanged w)" ERefresh] by (simp add: queueChanged_def steady_def)
  with Nil k c i show ?thesis by (auto simp: add_next_def uinv_def)
next
  case (Cons f fs)
  show ?thesis
  proof (cases "filter_errors f u")
    case None
    have "ids_ok (emit (EFileFiltered f) (push_file f u))" using i q Cons by (auto simp: ids_ok_def push_file_def emit_def)
    then have "ids_ok (add_next q a u)"
      using q Cons None by (simp add: add_next_def ids_ok_add_timer emit_def push_file_def)
    moreover have "adding (add_next q a u)" using Cons None by (auto simp: add_next_def adding_def add_timer_def)
    ultimately show ?thesis by (simp add: uinv_def)
  next
    case (Some e)
    then have e: "e \<noteq> INIT_ERROR" by (auto simp: filter_errors_def Let_def split: if_splits)
    note k = steady_onError [OF e, of u "Some f"]
    have "ids_ok (add_next q a u)"
      using q Cons Some k steady_ids [OF k i] by (auto simp: add_next_def steady_def intro!: ids_ok_add_timer)
    moreover have "counts_match (add_next q a u) \<or> adding (add_next q a u)"
      using c Some Cons k by (auto simp: add_next_def adding_def steady_def add_timer_def counts_match_def)
    ultimately show ?thesis by (simp add: uinv_def)
  qed
qed

lemma addFile_uinv: "uinv u \<Longrightarrow> raw_known (next_id u) r \<Longrightarrow> uinv (addFile r nm u)"
proof -
  assume u: "uinv u" "raw_known (next_id u) r"
  obtain q nm' go v where v: "resolveFile r nm u = ((q, nm', go), v)" by (metis prod.exhaust)
  from resolve_grows(1) [OF v u(2)] have g: "grows u v" "\<forall>f \<in> set q. f < next_id v" by auto
  then have "uinv v" using u grows_uinv by blast
  with g show ?thesis using add_next_uinv [of v q "[]"] by (auto simp: addFile_def v uinv_def)
qed

lemma splice_uinv: "uinv u \<Longrightarrow> uinv (snd (splice id_str h st len u))"
proof -
  assume u: "uinv u"
  obtain removed rest where s: "splice_at (case st of None \<Rightarrow> 0 | Some i \<Rightarrow> i)
      (case len of None \<Rightarrow> int (length (files u)) | Some n \<Rightarrow> n) (files u) = (removed, rest)" by fastforce
  have sub: "set rest \<subseteq> set (files u)"
    using s by (auto simp: splice_at_def Let_def dest: in_set_takeD in_set_dropD)
  let ?v = "u\<lparr>files := rest\<rparr>"
  let ?r = "state ?v = STARTED \<and> list_ex (\<lambda>f. status (fobj ?v f) = UPLOADING) removed"
  let ?w = "queueChanged (emit (EFilesRemoved removed) (if ?r then stop ?v else ?v))"
  have "ids_ok ?v" using u sub by (auto simp: uinv_def ids_ok_def)
  then have "ids_ok (if ?r then stop ?v else ?v)" using steady_ids [OF steady_stop] by simp
  then have "ids_ok ?w" unfolding queueChanged_def using steady_ids steady_emit steady_calc by blast
  moreover have "counts_match ?w"
    unfolding queueChanged_def using steady_emit [of "calc x" for x] by (simp add: steady_def)
  ultimately have "uinv (fold destroy_file removed ?w)"
    by (simp add: uinv_def fold_destroy_file ids_ok_def)
  then have "uinv (if ?r then start id_str h (fold destroy_file removed ?w) else fold destroy_file removed ?w)"
    using steady_uinv [OF steady_start] by (simp only: split: if_split) simp
  then show ?thesis by (simp add: splice_def s Let_def)
qed

lemma removeFile_uinv: "uinv u \<Longrightarrow> uinv (snd (removeFile id_str h f u))"
  using splice_uinv [of u id_str h] by (simp add: removeFile_def split_beta split: option.split)

lemma timer_uinv:
  assumes u: "uinv u" and t: "timers u = ts @ t # ts'"
  shows "uinv (run_task id_str h t (u\<lparr>timers := ts @ ts'\<rparr>))"
proof -
  let ?v = "u\<lparr>timers := ts @ ts'\<rparr>"
  have i: "ids_ok ?v" using u t by (auto simp: uinv_def ids_ok_def)
  have c: "counts_match ?v = counts_match u" by (simp add: counts_match_def)
  have v: "uinv ?v" if "\<And>q a. t \<noteq> TAdd q a"
    using u i that by (auto simp: uinv_def c adding_def t)
  show ?thesis
  proof (cases t)
    case TNext
    with v steady_uinv [OF steady_uploadNext] show ?thesis by (simp add: run_task_def)
  next
    case (TChunk j)
    with v steady_uinv [OF steady_uploadNextChunk] show ?thesis by (simp add: run_task_def)
  next
    case (TAdd q a)
    have "\<forall>f \<in> set q. f < next_id ?v" using u t TAdd by (auto simp: uinv_def ids_ok_def)
    moreover have "a \<noteq> [] \<or> counts_match ?v \<or> adding ?v" using u TAdd by (auto simp: uinv_def adding_def t c)
    ultimately show ?thesis using add_next_uinv [OF i] TAdd by (simp add: run_task_def)
  qed
qed

lemma step_uinv: "step id_str h u v \<Longrightarrow> uinv u \<Longrightarrow> uinv v"
proof (induction rule: step.induct)
  case (s_add u r nm) then show ?case by (simp add: addFile_uinv)
next
  case (s_splice u st len) then show ?case by (simp add: splice_uinv)
next
  case (s_remove u f) then show ?case by (simp add: removeFile_uinv)
next
  case (s_reinit u ok)
  then have "ids_ok (emit EDestroy u)" by (simp add: uinv_def emit_def ids_ok_def)
  then show ?case by (simp add: reinit_def inited_uinv onDestroy_uinv)
next
  case (s_destroy u) then show ?case using destroy_uinv by (simp add: uinv_def)
next
  case (s_timer u ts t ts') then show ?case using timer_uinv by blast
next
  case (s_load u r rq st) then show ?case using steady_uinv steady_trans steady_set_rstate steady_on_load by blast
next
  case (s_error u r rq) then show ?case using steady_uinv steady_trans steady_set_rstate steady_handleError by blast
qed (use steady_uinv steady_start steady_stop steady_on_progress steady_on_loadend steady_resized in blast)+

lemma steps_uinv: "(step id_str h)\<^sup>*\<^sup>* u v \<Longrightarrow> uinv u \<Longrightarrow> uinv v"
  by (induction rule: rtranclp_induct) (auto intro: step_uinv)

lemma new_uploader_uinv: "uinv (new_uploader s chunks resizable)"
  by (simp add: new_uploader_def uinv_def ids_ok_def counts_match_def reset_progress_def)

section \<open>An undisturbed upload\<close>

text \<open>
  The page makes no call, every request is answered, with a status that \<open>resp\<close> gives by the number
  of the request, and otherwise the oldest timer runs.
\<close>

definition tick :: "(nat \<Rightarrow> jstr) \<Rightarrow> hooks \<Rightarrow> (nat \<Rightarrow> nat) \<Rightarrow> uploader \<Rightarrow> uploader" where
  "tick id_str h resp u =
     (case xhr u of
        Some r \<Rightarrow> on_loadend r (on_load (fst (requests u ! r)) (resp r) (set_rstate r RAnswered u))
      | None \<Rightarrow> (case timers u of [] \<Rightarrow> u | t # ts \<Rightarrow> run_task id_str h t (u\<lparr>timers := ts\<rparr>)))"

text \<open>The bytes of the requests that were accepted, in the order of the requests from number \<open>k\<close> on.\<close>

fun accepted :: "(nat \<Rightarrow> nat) \<Rightarrow> nat \<Rightarrow> (request \<times> rstate) list \<Rightarrow> nat list" where
  "accepted resp k [] = []"
| "accepted resp k ((rq, _) # rqs) =
     (if resp k < 400 then [r_from rq..<r_from rq + r_cur rq] else []) @ accepted resp (Suc k) rqs"

text \<open>The state just before a chunk of job \<open>j\<close> is sent.\<close>

definition sending :: "nat \<Rightarrow> nat \<Rightarrow> uploader \<Rightarrow> bool" where
  "sending f j u \<longleftrightarrow>
     state u = STARTED \<and> status (fobj u f) = UPLOADING \<and> j < length (jobs u) \<and> j_file (jobs u ! j) = f \<and>
     timers u = [] \<and> xhr u = None \<and>
     j_offset (jobs u ! j) \<le> j_blob (jobs u ! j) \<and>
     (chunked u (jobs u ! j) \<and> j_blob (jobs u ! j) > j_chunk (jobs u ! j) \<or> j_offset (jobs u ! j) = 0)"

text \<open>What stays while one file is sent.\<close>

definition same_queue :: "nat \<Rightarrow> uploader \<Rightarrow> uploader \<Rightarrow> bool" where
  "same_queue f u v \<longleftrightarrow>
     state v = state u \<and> files v = files u \<and> stale v = stale u \<and> sett v = sett u \<and> can_chunk v = can_chunk u \<and>
     can_resize v = can_resize u \<and> (\<forall>g. g \<noteq> f \<longrightarrow> fobj v g = fobj u g)"

lemma same_queue_trans: "same_queue f u v \<Longrightarrow> same_queue f v w \<Longrightarrow> same_queue f u w"
  by (simp add: same_queue_def)

lemmas uploader_ops = emit_def upd_file_def upd_job_def set_status_def add_timer_def set_rstate_def calc_def
  on_loadend_def upload_progress_def fileUploaded_def cancelUpload_def chunk_done_def

lemma sent_chunk:
  assumes "sending f j u"
  shows "uploadNextChunk j u = u\<lparr>requests := requests u @ [(make_request u j, ROpen)], xhr := Some (length (requests u))\<rparr>"
  using assms by (simp add: sending_def uploadNextChunk_def)

lemma tick_timer: "xhr w = None \<Longrightarrow> timers w = [t] \<Longrightarrow> tick id_str h resp w = run_task id_str h t (w\<lparr>timers := []\<rparr>)"
  by (simp add: tick_def)

text \<open>A refused request with retries left: the chunk is sent again.\<close>

lemma tick_retry:
  assumes s: "sending f j u" and st: "resp (length (requests u)) \<ge> 400" and r: "j_retries (jobs u ! j) > 0"
  shows "\<exists>v. (tick id_str h resp ^^ 2) (uploadNextChunk j u) = uploadNextChunk j v \<and> sending f j v \<and> same_queue f u v \<and>
     jobs v = (jobs u)[j := j_retries_update (\<lambda>r. r - 1) (jobs u ! j)] \<and>
     requests v = requests u @ [(make_request u j, RClosed)]"
proof -
  let ?w = "tick id_str h resp (uploadNextChunk j u)"
  let ?v = "?w\<lparr>timers := []\<rparr>"
  have j: "r_job (make_request u j) = j" by (simp add: make_request_def Let_def)
  have w: "?w = on_loadend (length (requests u)) (handleError j (set_rstate (length (requests u)) RAnswered (uploadNextChunk j u)))"
    using st by (simp add: sent_chunk [OF s] tick_def on_load_def j Let_def)
  have h: "timers ?w = [TChunk j]" "xhr ?w = None" "state ?w = STARTED" "fobj ?w = fobj u" "files ?w = files u"
    "stale ?w = stale u" "sett ?w = sett u" "can_chunk ?w = can_chunk u" "can_resize ?w = can_resize u"
    "jobs ?w = (jobs u)[j := j_retries_update (\<lambda>r. r - 1) (jobs u ! j)]"
    "requests ?w = requests u @ [(make_request u j, RClosed)]"
    unfolding w using s r by (simp_all add: sent_chunk [OF s] handleError_def uploader_ops Let_def sending_def)
  have "tick id_str h resp ?w = uploadNextChunk j ?v" by (simp add: tick_timer [OF h(2,1)] run_task_def)
  moreover have "sending f j ?v" using s h by (simp add: sending_def chunked_def)
  moreover have "state u = STARTED" using s by (simp add: sending_def)
  ultimately show ?thesis using h by (intro exI [of _ ?v]) (simp add: numeral_2_eq_2 same_queue_def)
qed

text \<open>A refused request without retries left: the file has failed.\<close>

lemma tick_fail:
  assumes s: "sending f j u" and st: "resp (length (requests u)) \<ge> 400" and r: "j_retries (jobs u ! j) = 0"
  shows "\<exists>v. tick id_str h resp (uploadNextChunk j u) = v \<and> same_queue f u v \<and> timers v = [TNext] \<and> xhr v = None \<and>
     status (fobj v f) = FAILED \<and> requests v = requests u @ [(make_request u j, RClosed)]"
proof -
  have j: "r_job (make_request u j) = j" by (simp add: make_request_def Let_def)
  have w: "tick id_str h resp (uploadNextChunk j u) =
      on_loadend (length (requests u)) (handleError j (set_rstate (length (requests u)) RAnswered (uploadNextChunk j u)))"
    using st by (simp add: sent_chunk [OF s] tick_def on_load_def j Let_def)
  show ?thesis
    unfolding w using s r by (simp add: sent_chunk [OF s] handleError_def onError_def uploader_ops Let_def sending_def same_queue_def)
qed

text \<open>What \<open>onload\<close> does with an accepted request.\<close>

lemma tick_accepted:
  assumes s: "sending f j u"
  shows "tick id_str h resp (uploadNextChunk j u) =
    on_loadend (length (requests u)) (on_load (make_request u j) (resp (length (requests u))) (set_rstate (length (requests u)) RAnswered (uploadNextChunk j u)))"
  by (simp add: sent_chunk [OF s] tick_def)

lemma request_job [simp]: "r_job (make_request u j) = j"
  by (simp add: make_request_def Let_def)

lemma whole_or_chunk:
  assumes "sending f j u" and "jb = jobs u ! j"
  shows "chunked u jb \<and> j_blob jb > j_chunk jb \<and> j_chunk jb > 0 \<and> r_from (make_request u j) = j_offset jb \<and>
           r_cur (make_request u j) = min (j_chunk jb) (j_blob jb - j_offset jb) \<and> r_cur (make_request u j) < j_blob jb
       \<or> j_offset jb = 0 \<and> r_from (make_request u j) = 0 \<and> r_cur (make_request u j) = j_blob jb"
  using assms by (auto simp: make_request_def Let_def sending_def chunked_def)

text \<open>An accepted request: the file is done, or the next chunk is sent.\<close>

lemma tick_last:
  assumes s: "sending f j u" and st: "resp (length (requests u)) < 400"
    and last: "j_offset (jobs u ! j) + r_cur (make_request u j) \<ge> j_blob (jobs u ! j)"
  shows "\<exists>v. tick id_str h resp (uploadNextChunk j u) = v \<and> same_queue f u v \<and> timers v = [TNext] \<and> xhr v = None \<and>
     status (fobj v f) = DONE \<and> requests v = requests u @ [(make_request u j, RClosed)]"
proof (cases "r_cur (make_request u j) < j_blob (jobs u ! j)")
  case True
  then show ?thesis unfolding tick_accepted [OF s] using s st last
    by (simp add: sent_chunk [OF s] on_load_def uploader_ops Let_def sending_def same_queue_def)
next
  case False
  then have "j_offset (jobs u ! j) = 0" using whole_or_chunk [OF s refl] by auto
  then show ?thesis unfolding tick_accepted [OF s] using s st False
    by (simp add: sent_chunk [OF s] on_load_def uploader_ops Let_def sending_def same_queue_def)
qed

lemma tick_more:
  assumes s: "sending f j u" and st: "resp (length (requests u)) < 400"
    and more: "j_offset (jobs u ! j) + r_cur (make_request u j) < j_blob (jobs u ! j)"
  shows "\<exists>v. (tick id_str h resp ^^ 2) (uploadNextChunk j u) = uploadNextChunk j v \<and> sending f j v \<and> same_queue f u v \<and>
     j_offset (jobs v ! j) = j_offset (jobs u ! j) + r_cur (make_request u j) \<and> j_blob (jobs v ! j) = j_blob (jobs u ! j) \<and>
     requests v = requests u @ [(make_request u j, RClosed)] \<and> r_cur (make_request u j) > 0 \<and>
     r_from (make_request u j) = j_offset (jobs u ! j)"
proof -
  let ?w = "tick id_str h resp (uploadNextChunk j u)"
  let ?v = "?w\<lparr>timers := []\<rparr>"
  have c: "chunked u (jobs u ! j)" "j_blob (jobs u ! j) > j_chunk (jobs u ! j)" "r_cur (make_request u j) > 0"
    "r_cur (make_request u j) < j_blob (jobs u ! j)" "r_from (make_request u j) = j_offset (jobs u ! j)"
    using whole_or_chunk [OF s refl] more by auto
  have h: "timers ?w = [TChunk j]" "xhr ?w = None" "state ?w = STARTED" "\<forall>g. g \<noteq> f \<longrightarrow> fobj ?w g = fobj u g"
    "status (fobj ?w f) = UPLOADING" "files ?w = files u"
    "stale ?w = stale u" "sett ?w = sett u" "can_chunk ?w = can_chunk u" "can_resize ?w = can_resize u"
    "j_offset (jobs ?w ! j) = j_offset (jobs u ! j) + r_cur (make_request u j)" "length (jobs ?w) = length (jobs u)"
    "j_blob (jobs ?w ! j) = j_blob (jobs u ! j)" "j_chunk (jobs ?w ! j) = j_chunk (jobs u ! j)"
    "j_file (jobs ?w ! j) = j_file (jobs u ! j)"
    "requests ?w = requests u @ [(make_request u j, RClosed)]"
    unfolding tick_accepted [OF s] using s st more c
    by (simp_all add: sent_chunk [OF s] on_load_def uploader_ops Let_def sending_def)
  have "tick id_str h resp ?w = uploadNextChunk j ?v" by (simp add: tick_timer [OF h(2,1)] run_task_def)
  moreover have "sending f j ?v" using s h c more by (simp add: sending_def chunked_def)
  moreover have "state u = STARTED" using s by (simp add: sending_def)
  ultimately show ?thesis using h c by (intro exI [of _ ?v]) (simp add: numeral_2_eq_2 same_queue_def)
qed

lemma accepted_append: "accepted resp k (xs @ ys) = accepted resp k xs @ accepted resp (k + length xs) ys"
  by (induction xs arbitrary: k) auto

lemma funpow_chain: "(f ^^ m) x = y \<Longrightarrow> (f ^^ n) y = w \<Longrightarrow> \<exists>k. (f ^^ k) x = w"
  by (metis funpow_add o_apply)

text \<open>
  One file: after finitely many steps it is done or failed, the rest of the queue is as before, the
  next file is about to be looked for, and when the file is done the accepted requests have
  carried each of its bytes from the offset on exactly once and in order.
\<close>

lemma file_finishes:
  "sending f j u \<Longrightarrow>
   \<exists>n v rs. (tick id_str h resp ^^ n) (uploadNextChunk j u) = v \<and> same_queue f u v \<and> timers v = [TNext] \<and> xhr v = None \<and>
     requests v = requests u @ rs \<and>
     (status (fobj v f) = FAILED \<or>
      status (fobj v f) = DONE \<and> accepted resp (length (requests u)) rs = [j_offset (jobs u ! j)..<j_blob (jobs u ! j)])"
proof (induction "j_blob (jobs u ! j) - j_offset (jobs u ! j)" arbitrary: u rule: less_induct)
  case less
  note outer = less.hyps and s = less.prems
  from s outer show ?case
  proof (induction "j_retries (jobs u ! j)" arbitrary: u rule: less_induct)
    case (less u)
    note s = less.prems(1)
    let ?k = "length (requests u)"
    consider "resp ?k \<ge> 400" "j_retries (jobs u ! j) > 0" | "resp ?k \<ge> 400" "j_retries (jobs u ! j) = 0"
      | "resp ?k < 400" "j_offset (jobs u ! j) + r_cur (make_request u j) \<ge> j_blob (jobs u ! j)"
      | "resp ?k < 400" "j_offset (jobs u ! j) + r_cur (make_request u j) < j_blob (jobs u ! j)" by linarith
    then show ?case
    proof cases
      case 1
      from tick_retry [where resp = resp and id_str = id_str and h = h, OF s 1] obtain v where v: "(tick id_str h resp ^^ 2) (uploadNextChunk j u) = uploadNextChunk j v"
        "sending f j v" "same_queue f u v" "requests v = requests u @ [(make_request u j, RClosed)]"
        and jv: "jobs v ! j = j_retries_update (\<lambda>r. r - 1) (jobs u ! j)"
        using s by (auto simp: sending_def)
      then obtain n w rs where w: "(tick id_str h resp ^^ n) (uploadNextChunk j v) = w" "same_queue f v w" "timers w = [TNext]" "xhr w = None"
        "requests w = requests v @ rs" "status (fobj w f) = FAILED \<or>
          status (fobj w f) = DONE \<and> accepted resp (length (requests v)) rs = [j_offset (jobs v ! j)..<j_blob (jobs v ! j)]"
        using less.hyps [of v] less.prems(2) 1(2) by auto
      from funpow_chain [OF v(1) w(1)] obtain m where "(tick id_str h resp ^^ m) (uploadNextChunk j u) = w" by blast
      then show ?thesis
        using v w jv 1 same_queue_trans [OF v(3) w(2)]
        by (intro exI [of _ m] exI [of _ w] exI [of _ "(make_request u j, RClosed) # rs"]) simp
    next
      case 2
      from tick_fail [where resp = resp and id_str = id_str and h = h, OF s 2] show ?thesis by (intro exI [of _ 1]) simp
    next
      case 3
      have "[r_from (make_request u j)..<r_from (make_request u j) + r_cur (make_request u j)] = [j_offset (jobs u ! j)..<j_blob (jobs u ! j)]"
        using whole_or_chunk [OF s refl] 3(2) s by (auto simp: sending_def)
      with tick_last [where resp = resp and id_str = id_str and h = h, OF s 3] 3(1) show ?thesis by (intro exI [of _ 1]) auto
    next
      case 4
      from tick_more [where resp = resp and id_str = id_str and h = h, OF s 4] obtain v where v: "(tick id_str h resp ^^ 2) (uploadNextChunk j u) = uploadNextChunk j v"
        "sending f j v" "same_queue f u v" "requests v = requests u @ [(make_request u j, RClosed)]"
        and jv: "j_offset (jobs v ! j) = j_offset (jobs u ! j) + r_cur (make_request u j)" "j_blob (jobs v ! j) = j_blob (jobs u ! j)"
        "r_cur (make_request u j) > 0" "r_from (make_request u j) = j_offset (jobs u ! j)" by blast
      have "j_blob (jobs v ! j) - j_offset (jobs v ! j) < j_blob (jobs u ! j) - j_offset (jobs u ! j)" using jv 4(2) by simp
      from less.prems(2) [OF this v(2)] obtain n w rs where w: "(tick id_str h resp ^^ n) (uploadNextChunk j v) = w" "same_queue f v w"
        "timers w = [TNext]" "xhr w = None" "requests w = requests v @ rs" "status (fobj w f) = FAILED \<or>
          status (fobj w f) = DONE \<and> accepted resp (length (requests v)) rs = [j_offset (jobs v ! j)..<j_blob (jobs v ! j)]"
        by blast
      have "[j_offset (jobs u ! j)..<j_blob (jobs u ! j)] =
          [j_offset (jobs u ! j)..<j_offset (jobs v ! j)] @ [j_offset (jobs v ! j)..<j_blob (jobs v ! j)]"
        using jv 4(2) upt_add_eq_append [of "j_offset (jobs u ! j)" "j_offset (jobs v ! j)" "j_blob (jobs v ! j) - j_offset (jobs v ! j)"]
        by simp
      moreover from funpow_chain [OF v(1) w(1)] obtain m where "(tick id_str h resp ^^ m) (uploadNextChunk j u) = w" by blast
      ultimately show ?thesis
        using v w jv 4(1) same_queue_trans [OF v(3) w(2)]
        by (intro exI [of _ m] exI [of _ w] exI [of _ "(make_request u j, RClosed) # rs"]) simp
    qed
  qed
qed

definition file_ready :: "pfile \<Rightarrow> bool" where
  "file_ready pf \<longleftrightarrow> status pf \<noteq> UPLOADING \<and> (status pf = QUEUED \<longrightarrow> loaded pf \<in> {None, Some 0} \<and> source pf \<noteq> None)"

text \<open>A queue that nothing is happening to, with files that were not sent yet.\<close>

definition idle_queue :: "uploader \<Rightarrow> bool" where
  "idle_queue u \<longleftrightarrow>
     xhr u = None \<and> timers u = [] \<and> stale u = None \<and> \<not> resize_enabled (sett u) \<and>
     list_all (\<lambda>f. file_ready (fobj u f)) (files u)"

definition open_files :: "uploader \<Rightarrow> nat set" where
  "open_files u = {f \<in> set (files u). status (fobj u f) = QUEUED}"

definition accepts_all :: "hooks \<Rightarrow> bool" where
  "accepts_all h \<longleftrightarrow> (\<forall>f. pre_ok h f \<and> post_ok h f)"

lemma next_loop_found: "next_loop id_str h fs True c u = (c + length fs, u)"
  by (induction fs arbitrary: c) auto

lemma next_loop_none: "\<forall>f \<in> set fs. status (fobj u f) \<noteq> QUEUED \<Longrightarrow> next_loop id_str h fs False c u = (c + length fs, u)"
  by (induction fs arbitrary: c) auto

lemma next_loop_first:
  assumes "\<forall>g \<in> set pre. status (fobj u g) \<noteq> QUEUED" and "status (fobj u f) = QUEUED" and "accepts_all h"
  shows "next_loop id_str h (pre @ f # post) False c u =
    (c + length pre + length post, onUploadFile f (emit (EUploadFile f) (set_status UPLOADING f (onBeforeUpload id_str f u))))"
  using assms(1)
proof (induction pre arbitrary: c)
  case Nil
  then show ?case using assms(2,3) by (simp add: beforeUpload_def accepts_all_def next_loop_found Let_def)
next
  case (Cons g pre)
  then show ?case by simp
qed

lemma requeue_none: "\<forall>f \<in> set fs. status (fobj u f) \<noteq> UPLOADING \<Longrightarrow> requeue fs u = u"
proof -
  assume *: "\<forall>f \<in> set fs. status (fobj u f) \<noteq> UPLOADING"
  have "\<forall>f \<in> set gs. status (fobj u f) \<noteq> UPLOADING \<Longrightarrow>
      fold (\<lambda>f u. if status (fobj u f) = UPLOADING then calc (set_status QUEUED f u) else u) gs u = u" for gs
    by (induction gs) auto
  with * show ?thesis by (simp add: requeue_def)
qed

text \<open>No file is left: the queue stops and reports completion.\<close>

lemma uploadNext_complete:
  assumes "idle_queue u" and "state u = STARTED" and "open_files u = {}"
  shows "\<exists>v. uploadNext id_str h u = v \<and> state v = STOPPED \<and> timers v = [] \<and> xhr v = None \<and> files v = files u \<and> fobj v = fobj u \<and>
           (\<exists>es. events v = es @ [EUploadComplete (files u)])"
proof -
  from assms(3) have q: "\<forall>f \<in> set (files u). status (fobj u f) \<noteq> QUEUED" by (auto simp: open_files_def)
  let ?w = "emit EStateChanged (u\<lparr>state := STOPPED\<rparr>)"
  have "requeue (files u) ?w = ?w" using assms(1) by (intro requeue_none) (simp add: idle_queue_def emit_def list_all_iff file_ready_def)
  then have "stateChanged (u\<lparr>state := STOPPED\<rparr>) = ?w"
    using assms(1) by (simp add: stateChanged_def Let_def emit_def up_files_def idle_queue_def)
  then show ?thesis using assms(1,2) next_loop_none [OF q]
    by (simp add: uploadNext_def Let_def idle_queue_def emit_def)
qed

text \<open>A file is left: the first one is started.\<close>

lemma uploadNext_sends:
  assumes q: "idle_queue u" and "state u = STARTED" and "open_files u \<noteq> {}" and h: "accepts_all h"
  shows "\<exists>f j v. uploadNext id_str h u = uploadNextChunk j v \<and> sending f j v \<and> f \<in> open_files u \<and> same_queue f u v"
proof -
  from assms(3) obtain pre f post where f: "files u = pre @ f # post" "status (fobj u f) = QUEUED" "\<forall>g \<in> set pre. status (fobj u g) \<noteq> QUEUED"
    using split_list_first_prop [of "files u" "\<lambda>f. status (fobj u f) = QUEUED"] by (auto simp: open_files_def)
  let ?u1 = "emit (EUploadFile f) (set_status UPLOADING f (onBeforeUpload id_str f u))"
  from q f obtain blob where b: "source (fobj u f) = Some blob" and ld: "loaded (fobj u f) \<in> {None, Some 0}"
    by (auto simp: idle_queue_def file_ready_def)
  have u1: "source (fobj ?u1 f) = Some blob" "loaded (fobj ?u1 f) = loaded (fobj u f)" "sett ?u1 = sett u" "jobs ?u1 = jobs u"
    "status (fobj ?u1 f) = UPLOADING" "state ?u1 = state u" "files ?u1 = files u" "stale ?u1 = stale u" "can_chunk ?u1 = can_chunk u"
    "can_resize ?u1 = can_resize u" "timers ?u1 = timers u" "xhr ?u1 = xhr u" "\<forall>g. g \<noteq> f \<longrightarrow> fobj ?u1 g = fobj u g"
    using b by (auto simp: emit_def set_status_def onBeforeUpload_def upd_file_def)
  let ?v = "add_job \<lparr>j_file = f, j_chunk = chunk_size (sett u), j_offset = 0, j_retries = max_retries (sett u), j_blob = blob\<rparr> ?u1"
  have "resume_file f off ?u1 = ?u1" for off using ld u1(2) by (auto simp: resume_file_def)
  moreover have "start_offset c (loaded (fobj ?u1 f)) = 0" for c using ld u1(2) by (auto simp: start_offset_def)
  ultimately have "onUploadFile f ?u1 = uploadNextChunk (length (jobs u)) ?v"
    using q by (simp add: onUploadFile_def Let_def u1 add_job_def idle_queue_def del: fun_upd_apply)
  then have "uploadNext id_str h u = uploadNextChunk (length (jobs u)) ?v"
    using assms(2) next_loop_first [OF f(3,2) h] f(1) by (simp add: uploadNext_def uploadNextChunk_def add_job_def u1)
  moreover have "sending f (length (jobs u)) ?v"
    using q u1 assms(2) by (simp add: sending_def add_job_def idle_queue_def)
  moreover have "same_queue f u ?v" using u1 by (simp add: same_queue_def add_job_def)
  ultimately show ?thesis using f by (auto simp: open_files_def)
qed

lemma queue_finishes:
  "idle_queue u \<Longrightarrow> state u = STARTED \<Longrightarrow> accepts_all h \<Longrightarrow>
   \<exists>n v. (tick id_str h resp ^^ n) (uploadNext id_str h u) = v \<and> state v = STOPPED \<and> timers v = [] \<and> xhr v = None \<and> files v = files u \<and>
     (\<forall>f \<in> set (files u). status (fobj v f) \<in> {DONE, FAILED}) \<and> (\<exists>es. events v = es @ [EUploadComplete (files u)])"
proof (induction "card (open_files u)" arbitrary: u rule: less_induct)
  case less
  show ?case
  proof (cases "open_files u = {}")
    case True
    have "status (fobj u f) \<in> {DONE, FAILED}" if "f \<in> set (files u)" for f
      using that True less.prems(1) by (cases "status (fobj u f)") (auto simp: open_files_def idle_queue_def list_all_iff file_ready_def)
    with uploadNext_complete [OF less.prems(1,2) True, of id_str h] show ?thesis by (intro exI [of _ 0]) auto
  next
    case False
    from uploadNext_sends [OF less.prems(1,2) False less.prems(3)] obtain f j v where
      v: "uploadNext id_str h u = uploadNextChunk j v" "sending f j v" "f \<in> open_files u" "same_queue f u v" by blast
    from file_finishes [OF v(2), of id_str h resp] obtain n w where
      w: "(tick id_str h resp ^^ n) (uploadNextChunk j v) = w" "same_queue f v w" "timers w = [TNext]" "xhr w = None"
        "status (fobj w f) \<in> {DONE, FAILED}" by blast
    let ?w = "w\<lparr>timers := []\<rparr>"
    note sq = same_queue_trans [OF v(4) w(2)]
    have "file_ready (fobj w g)" if "g \<in> set (files u)" for g
      using that less.prems(1) sq w(5)
      by (cases "g = f") (auto simp: idle_queue_def same_queue_def list_all_iff file_ready_def)
    then have iq: "idle_queue ?w" using less.prems(1) sq w(4) by (simp add: idle_queue_def same_queue_def list_all_iff)
    have "g \<in> open_files ?w \<longleftrightarrow> g \<in> open_files u \<and> g \<noteq> f" for g
      using sq w(5) by (cases "g = f") (auto simp: open_files_def same_queue_def)
    then have "open_files ?w \<subset> open_files u" using v(3) by blast
    then have "card (open_files ?w) < card (open_files u)" by (intro psubset_card_mono) (simp add: open_files_def)
    moreover have "state ?w = STARTED" "files ?w = files u" using sq less.prems(2) by (simp_all add: same_queue_def)
    ultimately obtain m x where x: "(tick id_str h resp ^^ m) (uploadNext id_str h ?w) = x" "state x = STOPPED" "timers x = []" "xhr x = None"
      "files x = files u" "\<forall>f \<in> set (files u). status (fobj x f) \<in> {DONE, FAILED}" "\<exists>es. events x = es @ [EUploadComplete (files u)]"
      using less.hyps [of ?w] iq less.prems(3) by auto
    have "tick id_str h resp w = uploadNext id_str h ?w" by (simp add: tick_timer [OF w(4,3)] run_task_def)
    then have "(tick id_str h resp ^^ Suc m) w = x" using x(1) by (simp add: funpow_swap1)
    from funpow_chain [OF w(1) this] obtain k where "(tick id_str h resp ^^ k) (uploadNextChunk j v) = x" by blast
    with x(2-7) show ?thesis unfolding v(1) by blast
  qed
qed

section \<open>Properties\<close>

text \<open>
  C24.  The counters shown for the queue are right in every reachable state, whatever the page,
  the timers and the requests do and in whatever order: unless a batch of added files has not been
  announced yet, \<open>uploaded\<close> and \<open>failed\<close> count the files in that state and the three counters add up to
  the length of the queue.
\<close>

theorem uploader_counters:
  assumes "(step id_str h)\<^sup>*\<^sup>* (init required ok (new_uploader s chunks resizable)) u" and "\<not> adding u"
  shows "p_uploaded (total u) = length (filter (\<lambda>f. status (fobj u f) = DONE) (files u)) \<and>
         p_failed (total u) = length (filter (\<lambda>f. status (fobj u f) = FAILED) (files u)) \<and>
         p_uploaded (total u) + p_failed (total u) + p_queued (total u) = length (files u)"
proof -
  have "uinv (init required ok (new_uploader s chunks resizable))"
    by (simp add: init_def inited_uinv onError_uinv new_uploader_uinv)
  from steps_uinv [OF assms(1) this] assms(2) have c: "counts_match u" by (simp add: uinv_def)
  have "length (filter (\<lambda>f. st f = DONE) fs) + length (filter (\<lambda>f. st f = FAILED) fs) +
      length (filter (\<lambda>f. st f \<in> {QUEUED, UPLOADING}) fs) = length fs" for st :: "nat \<Rightarrow> fstatus" and fs
  proof (induction fs)
    case (Cons f fs) then show ?case by (cases "st f") simp_all
  qed simp
  with c show ?thesis by (simp add: counts_match_def)
qed

definition sample_settings :: settings where
  "sample_settings = \<lparr>chunk_size = 4, max_retries = 1, unique_names = False, send_file_name = True, send_chunk_number = True,
     resize_enabled = False, mime_types = [], prevent_duplicates = False, max_file_size = 0\<rparr>"

definition sample_uploader :: uploader where
  "sample_uploader = init True True (new_uploader sample_settings True (\<lambda>_. False))"

definition sample_added :: uploader where
  "sample_added = run_task (\<lambda>_. []) \<lparr>pre_ok = \<lambda>_. True, post_ok = \<lambda>_. True\<rparr> (TAdd [] [0])
     ((addFile (Native (js ''a.txt'') 10) None sample_uploader)\<lparr>timers := []\<rparr>)"

lemma sample_run: "timers (addFile (Native (js ''a.txt'') 10) None sample_uploader) = [TAdd [] [0]]"
  "\<not> destroyed (addFile (Native (js ''a.txt'') 10) None sample_uploader)" "\<not> destroyed sample_uploader"
  by code_simp+

theorem uploader_counters_witness:
  "(step (\<lambda>_. []) \<lparr>pre_ok = \<lambda>_. True, post_ok = \<lambda>_. True\<rparr>)\<^sup>*\<^sup>* (init True True (new_uploader sample_settings True (\<lambda>_. False))) sample_added \<and>
   \<not> adding sample_added \<and> files sample_added = [0] \<and>
   p_uploaded (total sample_added) + p_failed (total sample_added) + p_queued (total sample_added) = 1"
proof -
  let ?h = "\<lparr>pre_ok = \<lambda>_. True, post_ok = \<lambda>_. True\<rparr>"
  let ?u = "addFile (Native (js ''a.txt'') 10) None sample_uploader"
  have "step (\<lambda>_. []) ?h sample_uploader ?u" by (rule s_add) (simp_all add: sample_run)
  moreover have "step (\<lambda>_. []) ?h ?u sample_added"
    unfolding sample_added_def using s_timer [of ?u "[]" "TAdd [] [0]" "[]" "\<lambda>_. []" ?h] sample_run by simp
  ultimately have st: "(step (\<lambda>_. []) ?h)\<^sup>*\<^sup>* (init True True (new_uploader sample_settings True (\<lambda>_. False))) sample_added"
    unfolding sample_uploader_def by (meson rtranclp.rtrancl_into_rtrancl rtranclp.rtrancl_refl)
  have "timers sample_added = []" "files sample_added = [0]" by code_simp+
  then have a: "\<not> adding sample_added" by (simp add: adding_def)
  from uploader_counters [OF st a] st a \<open>files sample_added = [0]\<close> show ?thesis by simp
qed

text \<open>
  C25.  Sending one file with every request answered comes to an end: the file is done or has failed
  and the queue goes on with the next one.  When it is done, the accepted requests carried each of
  its bytes exactly once and in order, however many requests were refused and repeated on the way.
\<close>

theorem file_sent_once:
  assumes "sending f j u" and "j_offset (jobs u ! j) = 0"
  shows "\<exists>n v rs. (tick id_str h resp ^^ n) (uploadNextChunk j u) = v \<and> timers v = [TNext] \<and> xhr v = None \<and>
     requests v = requests u @ rs \<and>
     (status (fobj v f) = FAILED \<or>
      status (fobj v f) = DONE \<and> accepted resp (length (requests u)) rs = [0..<j_blob (jobs u ! j)])"
  using file_finishes [OF assms(1), of id_str h resp] assms(2) by fastforce

definition sample_sending :: uploader where
  "sample_sending = add_job \<lparr>j_file = 0, j_chunk = 4, j_offset = 0, j_retries = 1, j_blob = 10\<rparr>
     (set_status UPLOADING 0 (sample_added\<lparr>state := STARTED\<rparr>))"

theorem file_sent_once_witness:
  "sending 0 0 sample_sending \<and> j_offset (jobs sample_sending ! 0) = 0 \<and>
   (\<exists>n v rs. (tick (\<lambda>_. []) \<lparr>pre_ok = \<lambda>_. True, post_ok = \<lambda>_. True\<rparr> (\<lambda>r. if r = 1 then 500 else 200) ^^ n) (uploadNextChunk 0 sample_sending) = v \<and>
     timers v = [TNext] \<and> xhr v = None \<and> requests v = requests sample_sending @ rs \<and>
     (status (fobj v 0) = FAILED \<or>
      status (fobj v 0) = DONE \<and> accepted (\<lambda>r. if r = 1 then 500 else 200) (length (requests sample_sending)) rs = [0..<10]))"
proof -
  have s: "sending 0 0 sample_sending" "j_offset (jobs sample_sending ! 0) = 0" "j_blob (jobs sample_sending ! 0) = 10"
    by code_simp+
  from file_sent_once [OF s(1,2), of "\<lambda>_. []" "\<lparr>pre_ok = \<lambda>_. True, post_ok = \<lambda>_. True\<rparr>" "\<lambda>r. if r = 1 then 500 else 200"] s
  show ?thesis by simp
qed

text \<open>
  C26.  An upload finishes: starting an idle queue of files that were not sent before, without resizing
  of images, with \<open>BeforeUpload\<close> listeners of which none vetoes a file, and a server that answers every request
  in whatever way, leads after finitely many steps to a stopped queue in which every file is done or
  has failed, nothing is pending, and the last event is the completion of the queue.  (A veto leaves the
  file queued and the queue started with nothing pending, lemma \<open>veto_stalls\<close>.)
\<close>

theorem upload_completes:
  assumes "idle_queue u" and "state u = STOPPED" and "accepts_all h"
  shows "\<exists>n v. (tick id_str h resp ^^ n) (start id_str h u) = v \<and> state v = STOPPED \<and> timers v = [] \<and> xhr v = None \<and> files v = files u \<and>
     (\<forall>f \<in> set (files u). status (fobj v f) \<in> {DONE, FAILED}) \<and> (\<exists>es. events v = es @ [EUploadComplete (files u)])"
proof -
  let ?u = "emit EStateChanged (u\<lparr>state := STARTED\<rparr>)"
  have "start id_str h u = uploadNext id_str h ?u" using assms(2) by (simp add: start_def stateChanged_def emit_def)
  moreover have "idle_queue ?u" "state ?u = STARTED" "files ?u = files u" using assms(1) by (simp_all add: idle_queue_def emit_def)
  ultimately show ?thesis using queue_finishes [of ?u h id_str resp] assms(3) by simp
qed

theorem upload_completes_witness:
  "idle_queue sample_added \<and> state sample_added = STOPPED \<and> accepts_all \<lparr>pre_ok = \<lambda>_. True, post_ok = \<lambda>_. True\<rparr> \<and>
   (\<exists>n v. (tick (\<lambda>_. []) \<lparr>pre_ok = \<lambda>_. True, post_ok = \<lambda>_. True\<rparr> (\<lambda>r. 200) ^^ n) (start (\<lambda>_. []) \<lparr>pre_ok = \<lambda>_. True, post_ok = \<lambda>_. True\<rparr> sample_added) = v \<and>
     state v = STOPPED \<and> status (fobj v 0) \<in> {DONE, FAILED} \<and> (\<exists>es. events v = es @ [EUploadComplete [0]]))"
proof -
  have s: "idle_queue sample_added" "state sample_added = STOPPED" "files sample_added = [0]" by code_simp+
  have a: "accepts_all \<lparr>pre_ok = \<lambda>_. True, post_ok = \<lambda>_. True\<rparr>" by (simp add: accepts_all_def)
  from upload_completes [OF s(1,2) a, of "\<lambda>_. []" "\<lambda>r. 200"] s a show ?thesis by auto
qed

section \<open>Behaviours worth knowing\<close>

text \<open>
  A listener that vetoes the first queued file stops the queue where it is: the file stays queued, nothing
  is pending, the state stays \<open>STARTED\<close>, and completion is never reported.
\<close>

lemma veto_stalls:
  assumes "idle_queue u" and "state u = STARTED" and "open_files u \<noteq> {}" and "\<forall>f. \<not> pre_ok h f"
  shows "uploadNext id_str h u = u" "(tick id_str h resp ^^ n) u = u"
proof -
  from assms(3) obtain pre f post where f: "files u = pre @ f # post" "status (fobj u f) = QUEUED" "\<forall>g \<in> set pre. status (fobj u g) \<noteq> QUEUED"
    using split_list_first_prop [of "files u" "\<lambda>f. status (fobj u f) = QUEUED"] by (auto simp: open_files_def)
  have "\<forall>g \<in> set pre. status (fobj u g) \<noteq> QUEUED \<Longrightarrow>
      next_loop id_str h (pre @ f # post) False c u = (c + length pre + length post, u)" for c
    using f(2) assms(4) by (induction pre arbitrary: c) (simp_all add: beforeUpload_def next_loop_found)
  with f assms(2) show "uploadNext id_str h u = u" by (simp add: uploadNext_def)
  have "tick id_str h resp u = u" using assms(1) by (simp add: tick_def idle_queue_def)
  then show "(tick id_str h resp ^^ n) u = u" by (induction n) simp_all
qed

text \<open>
  \<open>UploadComplete\<close> is reported when no file is queued, although a file may still be uploading: the
  loop counts every file that is not queued.
\<close>

lemma complete_while_uploading:
  assumes "state u = STARTED" and "files u = [f]" and "stale u = None" and "status (fobj u f) = UPLOADING"
  shows "\<exists>es. events (uploadNext id_str h u) = es @ [EUploadComplete [f]]"
  using assms by (simp add: uploadNext_def stateChanged_def requeue_def up_files_def emit_def set_status_def upd_file_def calc_def Let_def)

text \<open>An error on any file while the queue is running cancels the transfer of the current one and looks for another.\<close>

lemma error_cancels_transfer:
  assumes "state u = STARTED" and "code \<noteq> INIT_ERROR"
  shows "timers (onError code (Some f) u) = timers u @ [TNext]" "ECancelUpload \<in> set (events (onError code (Some f) u))"
  using assms by (simp_all add: onError_def cancelUpload_def emit_def add_timer_def set_status_def upd_file_def calc_def Let_def)

text \<open>
  After the controls were set up again the public array is another one than the queue, and stopping
  the upload does not put the running file back.
\<close>

lemma requeue_other: "f \<notin> set fs \<Longrightarrow> status (fobj (requeue fs u) f) = status (fobj u f)"
proof -
  assume f: "f \<notin> set fs"
  have "f \<notin> set gs \<Longrightarrow> status (fobj (fold (\<lambda>f u. if status (fobj u f) = UPLOADING then calc (set_status QUEUED f u) else u) gs u) f) = status (fobj u f)" for gs
    by (induction gs arbitrary: u) (auto simp: calc_def set_status_def upd_file_def)
  with f show ?thesis by (simp add: requeue_def)
qed

lemma stale_stop:
  assumes "stale u = Some l" and "f \<notin> set l"
  shows "status (fobj (stop u) f) = status (fobj u f)"
  using assms by (simp add: stop_def stateChanged_def cancelUpload_def emit_def Let_def up_files_def requeue_other)

lemma reinit_stale: "stale (onDestroy u) \<noteq> None" "files (onDestroy u) = []"
  by (simp_all add: onDestroy_def Let_def)

text \<open>
  Progress events count bytes that were sent, not bytes that were accepted, and resuming trusts them:
  a chunk whose bytes were all reported is skipped after a stop, accepted or not.
\<close>

lemma resume_skips_chunk:
  assumes "c > 0" and "c dvd off" and "off + c \<le> n" and "fsize (fobj u f) = Some n"
    and "j_file (jobs u ! r_job rq) = f" and "j_offset (jobs u ! r_job rq) = off"
  shows "start_offset c (loaded (fobj (on_progress rq c u) f)) = off + c"
proof -
  have "loaded (fobj (on_progress rq c u) f) = Some (off + c)"
    using assms by (simp add: on_progress_def upload_progress_def emit_def upd_file_def calc_def Let_def)
  with assms show ?thesis by (simp add: start_offset_def)
qed

text \<open>
  Where the runtime cannot send chunks, a file that resumes at an offset is sent whole again after
  every accepted request: the offset never reaches the size.
\<close>

lemma resent_forever:
  assumes "status (fobj u f) = UPLOADING" and "state u = STARTED" and "j < length (jobs u)" and "j_file (jobs u ! j) = f"
    and "\<not> can_chunk u" and "0 < j_offset (jobs u ! j)" "j_offset (jobs u ! j) < j_blob (jobs u ! j)" and "st < 400"
    and "timers u = []"
  shows "timers (on_load (make_request u j) st u) = [TChunk j]"
    "j_offset (jobs (on_load (make_request u j) st u) ! j) = j_offset (jobs u ! j)"
    "status (fobj (on_load (make_request u j) st u) f) = UPLOADING"
  using assms by (simp_all add: on_load_def make_request_def chunked_def Let_def upd_job_def upd_file_def add_timer_def)

text \<open>A file of unknown size makes the total unknown only when it is the last one; otherwise the total is not a number.\<close>

lemma total_size_nan:
  assumes "fsize a = None" and "fsize b \<noteq> None"
  shows "p_size (count_file b (count_file a p)) = SNaN"
  using assms by (auto simp: count_file_def count_size_def Let_def split: fstatus.splits)

end
