(* ===== verification/Moxie.thy ===== *)
theory Moxie
  imports HB_Utils
begin

text \<open>
  The parts of \<open>resources/plugins/oss/lib/plupload-2.1.2/js/moxie.js\<close> that the upload queue rests on:
  the array helpers, the size parser and the series of module \<open>Basic\<close>, and the event target.

  The pool of listeners is an object of objects: by the uid of the target and the type of the event.
  What a listener does is a parameter; it may change the pool.  Event types are names that objects do
  not inherit.  Handlers of an asynchronous event are detached: they run one after the other from timers.
\<close>

section \<open>Arrays\<close>

fun inArray :: "'a \<Rightarrow> 'a list \<Rightarrow> int" where
  "inArray needle [] = -1"
| "inArray needle (x # xs) = (if x = needle then 0 else let i = inArray needle xs in if i = -1 then -1 else i + 1)"

definition arrayDiff :: "'a list \<Rightarrow> 'a list \<Rightarrow> 'a list option" where
  "arrayDiff needles array =
     (let diff = filter (\<lambda>x. inArray x array = -1) needles in if diff \<noteq> [] then Some diff else None)"

definition arrayIntersect :: "'a list \<Rightarrow> 'a list \<Rightarrow> 'a list option" where
  "arrayIntersect array1 array2 =
     (let result = filter (\<lambda>x. inArray x array2 \<noteq> -1) array1 in if result \<noteq> [] then Some result else None)"

lemma inArray_found: "inArray x xs = -1 \<longleftrightarrow> x \<notin> set xs" "inArray x xs \<ge> -1"
  by (induction xs) (auto simp: Let_def)

section \<open>Sizes\<close>

definition size_unit :: "jchar \<Rightarrow> bool" where
  "size_unit c \<longleftrightarrow> (48 \<le> c \<and> c \<le> 57) \<or> c = 109 \<or> c = 107 \<or> c = 103"

definition is_digit :: "jchar \<Rightarrow> bool" where
  "is_digit c \<longleftrightarrow> 48 \<le> c \<and> c \<le> 57"

definition decimal :: "jstr \<Rightarrow> int" where
  "decimal ds = foldl (\<lambda>n c. n * 10 + (uint c - 48)) 0 ds"

definition muls :: "(jstr \<times> int) list" where
  "muls = [(js ''t'', 1099511627776), (js ''g'', 1073741824), (js ''m'', 1048576), (js ''k'', 1024)]"

text \<open>
  \<open>parseSizeStr\<close> of a string (sizes below $2^{53}$, where numbers are exact): the expression does not
  match when there are no digits in front or more than one character after them, and reading the groups
  of no match throws.
\<close>

definition parseSizeStr :: "jstr \<Rightarrow> int result" where
  "parseSizeStr sz =
     (let s = filter size_unit (map toLower sz); ds = takeWhile is_digit s; mul = dropWhile is_digit s
      in if ds = [] \<or> length mul > 1 then Inl TypeErr
         else Inr (case map_of muls mul of Some k \<Rightarrow> decimal ds * k | None \<Rightarrow> decimal ds))"

section \<open>Identifiers\<close>

text \<open>\<open>toString(32)\<close>, and \<open>guid\<close> with the time, the five random numbers and the counter given.\<close>

definition digit32 :: "nat \<Rightarrow> jchar" where
  "digit32 n = (if n < 10 then of_nat (48 + n) else of_nat (87 + n))"

fun toString32 :: "nat \<Rightarrow> jstr" where
  "toString32 n = (if n < 32 then [digit32 n] else toString32 (n div 32) @ [digit32 (n mod 32)])"

declare toString32.simps [simp del]

definition guid :: "jstr \<Rightarrow> nat \<Rightarrow> nat list \<Rightarrow> nat \<Rightarrow> jstr \<times> nat" where
  "guid prefix time rnd counter =
     ((if prefix \<noteq> [] then prefix else js ''o_'') @ toString32 time @ concat (map toString32 rnd) @ toString32 counter,
      counter + 1)"

section \<open>Series and parallel calls\<close>

text \<open>
  \<open>inSeries\<close> with functions that call back at once: each is given the state, and a truthy error ends
  the series.
\<close>

fun inSeries :: "('s \<Rightarrow> bool \<times> 's) list \<Rightarrow> 's \<Rightarrow> bool \<times> 's" where
  "inSeries [] s = (False, s)"
| "inSeries [f] s = f s"
| "inSeries (f # g # fs) s = (let (error, s) = f s in if \<not> error then inSeries (g # fs) s else (error, s))"

text \<open>
  \<open>inParallel\<close>: what happens when the callback that was given to function \<open>i\<close> is called with an error
  or with results.  The main callback is called with the error, or with \<open>null\<close> and the results of all
  functions; \<open>cbArgs.unshift\<close> moves the results by one place.
\<close>

datatype ('e, 'r) outcome = Failure 'e | Success 'r

datatype ('e, 'r) cb_call = CbError 'e | CbArgs "'r option list"

record ('e, 'r) par =
  p_count :: nat
  p_args :: "'r option list"
  p_calls :: "('e, 'r) cb_call list"

definition inParallel :: "nat \<Rightarrow> ('e, 'r) par" where
  "inParallel num = \<lparr>p_count = 0, p_args = replicate num None, p_calls = []\<rparr>"

fun par_callback :: "nat \<Rightarrow> nat \<times> ('e, 'r) outcome \<Rightarrow> ('e, 'r) par \<Rightarrow> ('e, 'r) par" where
  "par_callback num (i, Failure e) s = s\<lparr>p_calls := p_calls s @ [CbError e]\<rparr>"
| "par_callback num (i, Success r) s =
     (let args = arr_set (p_args s) i r; count = p_count s + 1
      in if count = num then
           s\<lparr>p_count := count, p_args := None # args, p_calls := p_calls s @ [CbArgs (None # args)]\<rparr>
         else s\<lparr>p_count := count, p_args := args\<rparr>)"

section \<open>Event targets\<close>

record handler =
  h_id :: nat
  h_priority :: int
  h_scope :: nat

type_synonym pool = "(jstr \<times> (jstr \<times> handler list) list) list"

text \<open>The event object that the handlers of one dispatch share.\<close>

record event_obj =
  e_type :: jstr
  e_target :: nat
  e_progress :: "(int \<times> int) option"

text \<open>What is dispatched: a name, or an object with type, total and loaded, and the flag async.\<close>

datatype evt_arg = EvName jstr | EvObj "jstr option" "(int \<times> int) option" bool

datatype event_error = UnspecifiedEventType

record events =
  eventpool :: pool
  detached :: "(event_obj \<times> handler list) list"

definition listeners :: "pool \<Rightarrow> jstr \<Rightarrow> jstr \<Rightarrow> handler list option" where
  "listeners p uid type = (case map_of p uid of None \<Rightarrow> None | Some o' \<Rightarrow> map_of o' type)"

definition delete :: "(jstr \<times> 'v) list \<Rightarrow> jstr \<Rightarrow> (jstr \<times> 'v) list" where
  "delete ob k = filter (\<lambda>(k', _). k' \<noteq> k) ob"

definition set_listeners :: "pool \<Rightarrow> jstr \<Rightarrow> jstr \<Rightarrow> handler list \<Rightarrow> pool" where
  "set_listeners p uid type l =
     obj_set p uid (obj_set (case map_of p uid of None \<Rightarrow> [] | Some o' \<Rightarrow> o') type l)"

definition trim :: "jstr \<Rightarrow> jstr" where
  "trim s = trim_right (trim_left s)"

function split_ws :: "jstr \<Rightarrow> jstr list" where
  "split_ws s =
     (case dropWhile (\<lambda>c. \<not> js_space c) s of
        [] \<Rightarrow> [s]
      | c # rest \<Rightarrow> takeWhile (\<lambda>c. \<not> js_space c) s # split_ws (dropWhile js_space rest))"
  by auto
termination
proof (relation "measure length")
  fix s c rest
  assume "dropWhile (\<lambda>c. \<not> js_space c) s = c # rest"
  then have "length (c # rest) \<le> length s" by (metis length_dropWhile_le)
  then show "(dropWhile js_space rest, s) \<in> measure length"
    using length_dropWhile_le [of js_space rest] by simp
qed simp

definition push_listener :: "jstr \<Rightarrow> jstr \<Rightarrow> handler \<Rightarrow> pool \<Rightarrow> pool" where
  "push_listener uid type h p =
     set_listeners p uid type ((case listeners p uid type of None \<Rightarrow> [] | Some l \<Rightarrow> l) @ [h])"

definition add_listener :: "jstr \<Rightarrow> handler \<Rightarrow> jstr \<Rightarrow> pool \<Rightarrow> pool" where
  "add_listener uid h type p = push_listener uid (map toLower type) h p"

definition addEventListener :: "jstr \<Rightarrow> jstr \<Rightarrow> handler \<Rightarrow> pool \<Rightarrow> pool" where
  "addEventListener uid type h p =
     (let type = trim type
      in if list_ex js_space type then fold (add_listener uid h) (split_ws type) p else add_listener uid h type p)"

definition hasEventListener :: "jstr \<Rightarrow> jstr \<Rightarrow> pool \<Rightarrow> bool" where
  "hasEventListener uid type p =
     (if type \<noteq> [] then listeners p uid type \<noteq> None else map_of p uid \<noteq> None)"

fun remove_last :: "nat \<Rightarrow> handler list \<Rightarrow> handler list" where
  "remove_last f [] = []"
| "remove_last f (h # hs) =
     (if list_ex (\<lambda>k. h_id k = f) hs then h # remove_last f hs else if h_id h = f then hs else h # hs)"

definition removeEventListener :: "jstr \<Rightarrow> jstr \<Rightarrow> nat option \<Rightarrow> pool \<Rightarrow> pool" where
  "removeEventListener uid type fn p =
     (let type = map toLower type
      in case listeners p uid type of
           None \<Rightarrow> p
         | Some l \<Rightarrow>
             let l = (case fn of Some f \<Rightarrow> remove_last f l | None \<Rightarrow> [])
             in if l = [] then
                  let ob = delete (case map_of p uid of None \<Rightarrow> [] | Some o' \<Rightarrow> o') type
                  in if ob = [] then delete p uid else obj_set p uid ob
                else set_listeners p uid type l)"

definition removeAllEventListeners :: "jstr \<Rightarrow> pool \<Rightarrow> pool" where
  "removeAllEventListeners uid p = delete p uid"

text \<open>A type may name another target: \<open>uid::type\<close>.\<close>

fun split_colons :: "jstr \<Rightarrow> (jstr \<times> jstr) option" where
  "split_colons (a # b # cs) =
     (if a = 58 \<and> b = 58 then Some ([], cs)
      else (case split_colons (b # cs) of None \<Rightarrow> None | Some (l, r) \<Rightarrow> Some (a # l, r)))"
| "split_colons cs = None"

fun before_colons :: "jstr \<Rightarrow> jstr" where
  "before_colons cs = (case split_colons cs of None \<Rightarrow> cs | Some (l, r) \<Rightarrow> l)"

definition target_of :: "jstr \<Rightarrow> jstr \<Rightarrow> jstr \<times> jstr" where
  "target_of uid type =
     (case split_colons type of
        None \<Rightarrow> (uid, map toLower type)
      | Some (l, r) \<Rightarrow> (l, map toLower (before_colons r)))"

text \<open>
  \<open>dispatchEvent\<close>: the list is sorted by priority where it is stored (the sort is stable), and the
  handlers that it has then are run.  They share one event object, whose target is set while the queue is
  filled: when the first handler runs, the target is the scope of the last.
\<close>

definition by_priority :: "handler list \<Rightarrow> handler list" where
  "by_priority l = sort_key (\<lambda>h. - h_priority h) l"

definition event_of :: "evt_arg \<Rightarrow> event_error + jstr \<times> (int \<times> int) option \<times> bool" where
  "event_of a =
     (case a of
        EvName type \<Rightarrow> Inr (type, None, False)
      | EvObj (Some type) progress async \<Rightarrow> Inr (type, progress, async)
      | EvObj None _ _ \<Rightarrow> Inl UnspecifiedEventType)"

definition dispatch_named ::
    "(handler \<Rightarrow> event_obj \<Rightarrow> 'x events_scheme \<Rightarrow> bool \<times> 'x events_scheme) \<Rightarrow> jstr \<Rightarrow>
     jstr \<times> (int \<times> int) option \<times> bool \<Rightarrow> 'x events_scheme \<Rightarrow> bool \<times> 'x events_scheme" where
  "dispatch_named call uid0 ev s =
     (let (type0, progress, async) = ev; (uid, type) = target_of uid0 type0
      in case listeners (eventpool s) uid type of
           None \<Rightarrow> (True, s)
         | Some l \<Rightarrow>
             let l = by_priority l;
                 s = s\<lparr>eventpool := set_listeners (eventpool s) uid type l\<rparr>;
                 evt = \<lparr>e_type = type, e_target = h_scope (last l), e_progress = progress\<rparr>
             in if l = [] then (True, s)
                else if async then (True, s\<lparr>detached := detached s @ [(evt, l)]\<rparr>)
                else let (err, s) = inSeries (map (\<lambda>h. call h evt) l) s in (\<not> err, s))"

definition dispatchEvent ::
    "(handler \<Rightarrow> event_obj \<Rightarrow> 'x events_scheme \<Rightarrow> bool \<times> 'x events_scheme) \<Rightarrow> jstr \<Rightarrow> evt_arg \<Rightarrow>
     'x events_scheme \<Rightarrow> (event_error + bool) \<times> 'x events_scheme" where
  "dispatchEvent call uid0 a s =
     (case event_of a of
        Inl e \<Rightarrow> (Inl e, s)
      | Inr ev \<Rightarrow> let (r, s) = dispatch_named call uid0 ev s in (Inr r, s))"

text \<open>A timer fires: the first detached handler runs, and unless it returns false the next one is detached.\<close>

definition run_detached ::
    "(handler \<Rightarrow> event_obj \<Rightarrow> 'x events_scheme \<Rightarrow> bool \<times> 'x events_scheme) \<Rightarrow> 'x events_scheme \<Rightarrow> 'x events_scheme" where
  "run_detached call s =
     (case detached s of
        [] \<Rightarrow> s
      | (evt, []) # rest \<Rightarrow> s\<lparr>detached := rest\<rparr>
      | (evt, h # hs) # rest \<Rightarrow>
          let (err, s) = call h evt (s\<lparr>detached := rest\<rparr>)
          in if \<not> err \<and> hs \<noteq> [] then s\<lparr>detached := detached s @ [(evt, hs)]\<rparr> else s)"

section \<open>The pool refines a table of lists\<close>

text \<open>
  What a client relies on: a table that gives, for each target and type, the list of its handlers.
\<close>

locale listener_table =
  fixes ok :: "'s \<Rightarrow> bool"
    and norm :: "'k \<Rightarrow> 'k"
    and look :: "'s \<Rightarrow> 'k \<Rightarrow> 'h list"
    and add :: "'k \<Rightarrow> 'h \<Rightarrow> 's \<Rightarrow> 's"
    and remove :: "'k \<Rightarrow> 'f \<Rightarrow> 's \<Rightarrow> 's"
    and rem :: "'f \<Rightarrow> 'h list \<Rightarrow> 'h list"
  assumes ok_add: "ok s \<Longrightarrow> ok (add k h s)"
    and look_add: "ok s \<Longrightarrow> look (add k h s) = (look s)(norm k := look s (norm k) @ [h])"
    and ok_remove: "ok s \<Longrightarrow> ok (remove k f s)"
    and look_remove: "ok s \<Longrightarrow> look (remove k f s) = (look s)(norm k := rem f (look s (norm k)))"
begin

lemma ok_adds: "ok s \<Longrightarrow> ok (fold (\<lambda>(k, h). add k h) khs s)"
  by (induction khs arbitrary: s) (auto simp: ok_add)

lemma look_adds: "ok s \<Longrightarrow> look (fold (\<lambda>(k, h). add k h) khs s) k = look s k @ [h. (k', h) \<leftarrow> khs, norm k' = k]"
  by (induction khs arbitrary: s) (auto simp: ok_add look_add)

lemma remove_added:
  assumes "ok s" and "rem f (look s (norm k) @ [h]) = look s (norm k)"
  shows "look (remove k f (add k h s)) = look s"
  using assms by (simp add: look_remove [OF ok_add] look_add)

end

definition listed :: "pool \<Rightarrow> jstr \<times> jstr \<Rightarrow> handler list" where
  "listed p k = (case listeners p (fst k) (snd k) of None \<Rightarrow> [] | Some l \<Rightarrow> l)"

text \<open>No key is stored twice, and there are no empty lists or objects.\<close>

definition obj_ok :: "(jstr \<times> handler list) list \<Rightarrow> bool" where
  "obj_ok ob \<longleftrightarrow> distinct (map fst ob) \<and> ob \<noteq> [] \<and> (\<forall>(t, l) \<in> set ob. l \<noteq> [])"

definition pool_ok :: "pool \<Rightarrow> bool" where
  "pool_ok p \<longleftrightarrow> distinct (map fst p) \<and> (\<forall>(u, ob) \<in> set p. obj_ok ob)"

lemma map_of_delete: "map_of (delete ob k) = (map_of ob)(k := None)"
  by (induction ob) (auto simp: delete_def)

lemma distinct_delete: "distinct (map fst ob) \<Longrightarrow> distinct (map fst (delete ob k))"
  by (induction ob) (auto simp: delete_def)

lemma set_delete: "set (delete ob k) = {kv \<in> set ob. fst kv \<noteq> k}"
  by (auto simp: delete_def)

lemma set_obj_set: "x \<in> set (obj_set ob k v) \<Longrightarrow> x = (k, v) \<or> x \<in> set ob"
  by (induction ob k v rule: obj_set.induct) (auto split: if_splits)

lemma obj_set_not_Nil [simp]: "obj_set ob k v \<noteq> []"
  by (cases "(ob, k, v)" rule: obj_set.cases) auto

lemma obj_ok_set: "distinct (map fst ob) \<Longrightarrow> \<forall>(t, l) \<in> set ob. l \<noteq> [] \<Longrightarrow> l \<noteq> [] \<Longrightarrow> obj_ok (obj_set ob t l)"
  by (auto simp: obj_ok_def distinct_obj_set dest!: set_obj_set)

lemma pool_ok_set: "pool_ok p \<Longrightarrow> obj_ok ob \<Longrightarrow> pool_ok (obj_set p u ob)"
  by (auto simp: pool_ok_def distinct_obj_set dest!: set_obj_set)

lemma pool_ok_delete: "pool_ok p \<Longrightarrow> pool_ok (delete p u)"
  by (auto simp: pool_ok_def distinct_delete set_delete)

lemma pool_okD: "pool_ok p \<Longrightarrow> map_of p u = Some ob \<Longrightarrow> obj_ok ob"
  by (auto simp: pool_ok_def dest: map_of_SomeD)

lemma obj_okD: "obj_ok ob \<Longrightarrow> map_of ob t = Some l \<Longrightarrow> l \<noteq> []"
  by (auto simp: obj_ok_def dest: map_of_SomeD)

lemma obj_ok_update: "obj_ok ob \<Longrightarrow> l \<noteq> [] \<Longrightarrow> obj_ok (obj_set ob t l)"
  by (rule obj_ok_set) (auto simp: obj_ok_def)

lemma pool_ok_listeners: "pool_ok p \<Longrightarrow> l \<noteq> [] \<Longrightarrow> pool_ok (set_listeners p u t l)"
  unfolding set_listeners_def
  by (rule pool_ok_set) (auto simp: obj_ok_set obj_ok_def [of "[_]"] obj_ok_update pool_okD split: option.split)

lemma listed_set_listeners: "listed (set_listeners p u t l) = (listed p)((u, t) := l)"
  by (auto simp: listed_def listeners_def set_listeners_def fun_eq_iff split: option.splits)

lemma pool_ok_push: "pool_ok p \<Longrightarrow> pool_ok (push_listener u t h p)"
  by (simp add: push_listener_def pool_ok_listeners)

lemma listed_push: "listed (push_listener u t h p) = (listed p)((u, t) := listed p (u, t) @ [h])"
  by (simp add: push_listener_def listed_set_listeners listed_def [of p "(u, t)"])

text \<open>What removing does to a list: the last handler with the function goes, or all of them.\<close>

definition remove_fn :: "nat option \<Rightarrow> handler list \<Rightarrow> handler list" where
  "remove_fn fn l = (case fn of Some f \<Rightarrow> remove_last f l | None \<Rightarrow> [])"

lemma remove_last_absent: "\<not> list_ex (\<lambda>k. h_id k = f) l \<Longrightarrow> remove_last f l = l"
  by (induction l) auto

lemma remove_last_append: "remove_last f (xs @ ys) = (if list_ex (\<lambda>k. h_id k = f) ys then xs @ remove_last f ys else remove_last f xs @ ys)"
  by (induction xs) (auto simp: remove_last_absent)

lemma remove_fn_Nil [simp]: "remove_fn fn [] = []"
  by (simp add: remove_fn_def split: option.split)

lemma listed_removed:
  "map_of p u = Some ob \<Longrightarrow> obj_ok ob \<Longrightarrow>
   listed (if delete ob t = [] then delete p u else obj_set p u (delete ob t)) = (listed p)((u, t) := [])"
proof -
  assume u: "map_of p u = Some ob"
  have "delete ob t = [] \<Longrightarrow> map_of ob t' = None \<or> t' = t" for t'
    using map_of_delete [of ob t] by (metis fun_upd_apply map_of.simps(1))
  then show ?thesis
    using u by (force simp: listed_def listeners_def fun_eq_iff map_of_delete split: option.splits)
qed

lemma pool_ok_removed:
  "pool_ok p \<Longrightarrow> map_of p u = Some ob \<Longrightarrow> pool_ok (if delete ob t = [] then delete p u else obj_set p u (delete ob t))"
proof -
  assume p: "pool_ok p" and u: "map_of p u = Some ob"
  have "obj_ok ob" using p u by (rule pool_okD)
  then have "delete ob t \<noteq> [] \<Longrightarrow> obj_ok (delete ob t)"
    by (auto simp: obj_ok_def distinct_delete set_delete)
  with p show ?thesis by (simp add: pool_ok_delete pool_ok_set)
qed

lemma removeEventListener_ok:
  assumes p: "pool_ok p"
  shows "pool_ok (removeEventListener u t fn p) \<and>
         listed (removeEventListener u t fn p) = (listed p)((u, map toLower t) := remove_fn fn (listed p (u, map toLower t)))"
proof (cases "listeners p u (map toLower t)")
  case None
  then show ?thesis using p by (auto simp: removeEventListener_def listed_def fun_eq_iff)
next
  case (Some l)
  then obtain ob where ob: "map_of p u = Some ob" "map_of ob (map toLower t) = Some l"
    by (auto simp: listeners_def split: option.splits)
  have l: "listed p (u, map toLower t) = l" by (simp add: listed_def Some)
  show ?thesis
  proof (cases "remove_fn fn l = []")
    case True
    then show ?thesis
      using Some ob l pool_ok_removed [OF p ob(1)] listed_removed [OF ob(1) pool_okD [OF p ob(1)]]
      by (simp add: removeEventListener_def remove_fn_def [symmetric] Let_def)
  next
    case False
    then show ?thesis
      using Some l p
      by (simp add: removeEventListener_def remove_fn_def [symmetric] Let_def pool_ok_listeners listed_set_listeners)
  qed
qed

definition key_of :: "jstr \<times> jstr \<Rightarrow> jstr \<times> jstr" where
  "key_of k = (fst k, map toLower (snd k))"

interpretation pool_lt: listener_table pool_ok key_of listed
    "\<lambda>k h. add_listener (fst k) h (snd k)" "\<lambda>k. removeEventListener (fst k) (snd k)" remove_fn
  by unfold_locales
    (simp_all add: add_listener_def key_of_def pool_ok_push listed_push removeEventListener_ok)

text \<open>The names in a list of types.\<close>

definition names :: "jstr \<Rightarrow> jstr list" where
  "names type = map (map toLower) (split_ws (trim type))"

lemma split_ws_single: "\<not> list_ex js_space s \<Longrightarrow> split_ws s = [s]"
proof -
  assume "\<not> list_ex js_space s"
  then have "dropWhile (\<lambda>c. \<not> js_space c) s = []" by (simp add: list_ex_iff dropWhile_eq_Nil_conv)
  then show ?thesis unfolding split_ws.simps [of s] by (simp only: list.case)
qed

declare split_ws.simps [simp del]

lemma addEventListener_fold:
  "addEventListener u type h p = fold (\<lambda>(k, h). add_listener (fst k) h (snd k)) (map (\<lambda>t. ((u, t), h)) (split_ws (trim type))) p"
  by (simp add: addEventListener_def Let_def split_ws_single fold_map comp_def)

lemma listed_addEventListener:
  assumes "pool_ok p"
  shows "listed (addEventListener u type h p) (u', t) =
           listed p (u', t) @ (if u' = u then map (\<lambda>_. h) (filter (\<lambda>n. n = t) (names type)) else [])"
proof -
  have "concat (map (\<lambda>(k', h'). if key_of k' = (u', t) then [h'] else []) (map (\<lambda>t. ((u, t), h)) ns)) =
        (if u' = u then map (\<lambda>_. h) (filter (\<lambda>n. n = t) (map (map toLower) ns)) else [])" for ns
    by (induction ns) (auto simp: key_of_def)
  then show ?thesis
    using pool_lt.look_adds [OF assms] by (simp add: addEventListener_fold names_def)
qed

lemma pool_ok_addEventListener: "pool_ok p \<Longrightarrow> pool_ok (addEventListener u type h p)"
  unfolding addEventListener_fold by (rule pool_lt.ok_adds)

lemma pool_ok_removeAll: "pool_ok p \<Longrightarrow> pool_ok (removeAllEventListeners u p)"
  by (simp add: removeAllEventListeners_def pool_ok_delete)

lemma listed_removeAll: "listed (removeAllEventListeners u p) (u', t) = (if u' = u then [] else listed p (u', t))"
  by (simp add: removeAllEventListeners_def listed_def listeners_def map_of_delete)

lemma hasEventListener_iff:
  assumes "pool_ok p"
  shows "hasEventListener u type p \<longleftrightarrow> (if type \<noteq> [] then listed p (u, type) \<noteq> [] else \<exists>t. listed p (u, t) \<noteq> [])"
proof -
  have some: "listeners p u t \<noteq> None \<longleftrightarrow> listed p (u, t) \<noteq> []" for t
    using assms by (auto simp: listed_def listeners_def split: option.splits dest: pool_okD obj_okD)
  have "map_of p u \<noteq> None \<longleftrightarrow> (\<exists>t. listeners p u t \<noteq> None)"
  proof (cases "map_of p u")
    case (Some ob)
    then have "ob \<noteq> []" using assms by (auto simp: obj_ok_def dest: pool_okD)
    then obtain t l where "map_of ob t = Some l"
      by (metis list.exhaust map_of_Cons_code(2) surj_pair)
    then have "listeners p u t = Some l" using Some by (simp add: listeners_def)
    then show ?thesis using Some by auto
  qed (simp add: listeners_def)
  then show ?thesis unfolding hasEventListener_def using some by metis
qed

section \<open>Properties of the event target\<close>

text \<open>
  C27.  The pool refines a table that gives for each target and event name the list of its handlers.
  Adding appends the handler to the list of every name of the given type, in lower case; removing takes
  the last handler with the function from the list of the name, or empties it; removing all empties the
  lists of the target; \<open>hasEventListener\<close> tells whether the list of exactly that name has a handler.
  The pool never keeps empty lists or objects.
\<close>

theorem event_pool_refines:
  assumes ok: "pool_ok p"
  shows "pool_ok (addEventListener u type h p) \<and> pool_ok (removeEventListener u type fn p) \<and>
         pool_ok (removeAllEventListeners u p) \<and>
         listed (addEventListener u type h p) (v, t) =
           listed p (v, t) @ (if v = u then map (\<lambda>_. h) (filter (\<lambda>n. n = t) (names type)) else []) \<and>
         listed (removeEventListener u type fn p) (v, t) =
           (if v = u \<and> t = map toLower type then remove_fn fn (listed p (v, t)) else listed p (v, t)) \<and>
         listed (removeAllEventListeners u p) (v, t) = (if v = u then [] else listed p (v, t)) \<and>
         (hasEventListener u type p \<longleftrightarrow>
           (if type \<noteq> [] then listed p (u, type) \<noteq> [] else \<exists>t. listed p (u, t) \<noteq> []))"
  using ok removeEventListener_ok [OF ok, of u type fn]
  by (simp add: pool_ok_addEventListener pool_ok_removeAll listed_addEventListener listed_removeAll
        hasEventListener_iff)

definition sample_handler :: "nat \<Rightarrow> int \<Rightarrow> handler" where
  "sample_handler n pr = \<lparr>h_id = n, h_priority = pr, h_scope = n\<rparr>"

definition sample_pool :: pool where
  "sample_pool =
     addEventListener (js ''up'') (js '' Progress Error'') (sample_handler 1 0)
       (addEventListener (js ''up'') (js ''error'') (sample_handler 2 5) [])"

lemma sample_pool_ok: "pool_ok sample_pool"
  unfolding sample_pool_def by (intro pool_ok_addEventListener) (simp add: pool_ok_def)

theorem event_pool_refines_witness:
  "pool_ok sample_pool \<and>
   listed (addEventListener (js ''up'') (js ''ERROR'') (sample_handler 3 9) sample_pool) (js ''up'', js ''error'') =
     [sample_handler 2 5, sample_handler 1 0, sample_handler 3 9] \<and>
   listed (removeEventListener (js ''up'') (js ''ERROR'') (Some 2) sample_pool) (js ''up'', js ''error'') =
     [sample_handler 1 0] \<and>
   \<not> hasEventListener (js ''up'') (js ''Error'') sample_pool"
proof -
  have l: "listed sample_pool (js ''up'', js ''error'') = [sample_handler 2 5, sample_handler 1 0]"
    "listed sample_pool (js ''up'', js ''Error'') = []" "names (js ''ERROR'') = [js ''error'']"
    "map toLower (js ''ERROR'') = js ''error''" "js ''Error'' \<noteq> []" "remove_fn (Some 2) [sample_handler 2 5, sample_handler 1 0] = [sample_handler 1 0]"
    by code_simp+
  note r = event_pool_refines [OF sample_pool_ok, where u = "js ''up''" and v = "js ''up''" and t = "js ''error''"]
  show ?thesis
    using r [of "js ''ERROR''" "sample_handler 3 9" "Some 2"] r [of "js ''Error''"] sample_pool_ok l by simp
qed

text \<open>Handlers run one after the other until one of them returns false.\<close>

definition after :: "('s \<Rightarrow> bool \<times> 's) list \<Rightarrow> 's \<Rightarrow> 's" where
  "after fs s = fold (\<lambda>f s. snd (f s)) fs s"

fun quiet :: "('s \<Rightarrow> bool \<times> 's) list \<Rightarrow> 's \<Rightarrow> bool" where
  "quiet [] s = True"
| "quiet (f # fs) s = (\<not> fst (f s) \<and> quiet fs (snd (f s)))"

lemma after_simps [simp]: "after [] s = s" "after (f # fs) s = after fs (snd (f s))"
  by (simp_all add: after_def)

lemma inSeries_quiet: "quiet fs s \<Longrightarrow> inSeries fs s = (False, after fs s)"
  by (induction fs s rule: inSeries.induct) (auto simp: prod_eq_iff split: prod.split)

lemma inSeries_error:
  "quiet pre s \<Longrightarrow> fst (f (after pre s)) \<Longrightarrow> inSeries (pre @ f # post) s = (True, after (pre @ [f]) s)"
proof (induction pre arbitrary: s)
  case Nil
  then show ?case by (cases post) (auto simp: prod_eq_iff split: prod.split)
next
  case (Cons g pre)
  then show ?case by (cases "pre @ f # post") (auto split: prod.split)
qed

lemma by_priority_order:
  "sorted_wrt (\<lambda>a b. h_priority a \<ge> h_priority b) (by_priority l)"
  "filter (\<lambda>h. h_priority h = n) (by_priority l) = filter (\<lambda>h. h_priority h = n) l"
  "by_priority l = [] \<longleftrightarrow> l = []"
proof -
  have "sorted_wrt (\<le>) (map (\<lambda>h. - h_priority h) (by_priority l))"
    unfolding by_priority_def by (rule sorted_sort_key)
  then show "sorted_wrt (\<lambda>a b. h_priority a \<ge> h_priority b) (by_priority l)"
    by (simp add: sorted_wrt_map)
  show "filter (\<lambda>h. h_priority h = n) (by_priority l) = filter (\<lambda>h. h_priority h = n) l"
    using sort_key_stable [of "\<lambda>h. - h_priority h" "- n" l] by (simp add: by_priority_def)
  show "by_priority l = [] \<longleftrightarrow> l = []"
    by (metis by_priority_def set_sort set_empty)
qed

definition sorted_pool :: "jstr \<Rightarrow> jstr \<Rightarrow> 'x events_scheme \<Rightarrow> 'x events_scheme" where
  "sorted_pool u t s =
     (if listed (eventpool s) (u, t) = [] then s
      else s\<lparr>eventpool := set_listeners (eventpool s) u t (by_priority (listed (eventpool s) (u, t)))\<rparr>)"

definition shared_event :: "handler list \<Rightarrow> jstr \<Rightarrow> (int \<times> int) option \<Rightarrow> event_obj" where
  "shared_event q t progress = \<lparr>e_type = t, e_target = h_scope (last q), e_progress = progress\<rparr>"

lemma dispatchEvent_run:
  assumes "pool_ok (eventpool s)" and "event_of a = Inr (type0, progress, async)" and "target_of u0 type0 = (u, t)"
    and "q = by_priority (listed (eventpool s) (u, t))"
  shows "dispatchEvent call u0 a s =
           (if async \<and> q \<noteq> [] then
              (Inr True, sorted_pool u t s\<lparr>detached := detached s @ [(shared_event q t progress, q)]\<rparr>)
            else let (err, s') = inSeries (map (\<lambda>h. call h (shared_event q t progress)) q) (sorted_pool u t s)
                 in (Inr (\<not> err), s'))"
proof (cases "listeners (eventpool s) u t")
  case None
  then have "listed (eventpool s) (u, t) = []" by (simp add: listed_def)
  with None assms show ?thesis by (simp add: dispatchEvent_def dispatch_named_def sorted_pool_def by_priority_def)
next
  case (Some l)
  then have "listed (eventpool s) (u, t) = l" by (simp add: listed_def)
  moreover have "l \<noteq> []"
    using Some assms(1) by (auto simp: listeners_def split: option.splits dest: pool_okD obj_okD)
  ultimately show ?thesis
    using Some assms
    by (simp add: dispatchEvent_def dispatch_named_def sorted_pool_def by_priority_order shared_event_def Let_def
        split: prod.split)
qed

text \<open>
  C28.  Dispatching an event runs the handlers of its name in descending priority, those of one priority
  in the order they were added, one after the other.  When none returns false all of them run and the
  result is true; otherwise those up to the first that returns false run and the result is false.  An
  asynchronous event only detaches the handlers, in that order, and the result is true.
\<close>

theorem dispatch_in_order:
  assumes ok: "pool_ok (eventpool s)" and ev: "event_of a = Inr (type0, progress, async)"
    and target: "target_of u0 type0 = (u, t)" and q: "q = by_priority (listed (eventpool s) (u, t))"
    and run: "run = (\<lambda>h. call h (shared_event q t progress))"
  shows "sorted_wrt (\<lambda>a b. h_priority a \<ge> h_priority b) q \<and>
         (\<forall>n. filter (\<lambda>h. h_priority h = n) q = filter (\<lambda>h. h_priority h = n) (listed (eventpool s) (u, t))) \<and>
         (\<not> async \<longrightarrow> quiet (map run q) (sorted_pool u t s) \<longrightarrow>
            dispatchEvent call u0 a s = (Inr True, after (map run q) (sorted_pool u t s))) \<and>
         (async \<longrightarrow> q \<noteq> [] \<longrightarrow>
            dispatchEvent call u0 a s =
              (Inr True, sorted_pool u t s\<lparr>detached := detached s @ [(shared_event q t progress, q)]\<rparr>)) \<and>
         (\<forall>pre h post. \<not> async \<longrightarrow> q = pre @ h # post \<longrightarrow> quiet (map run pre) (sorted_pool u t s) \<longrightarrow>
            fst (run h (after (map run pre) (sorted_pool u t s))) \<longrightarrow>
            dispatchEvent call u0 a s = (Inr False, after (map run (pre @ [h])) (sorted_pool u t s)))"
proof -
  note d = dispatchEvent_run [OF ok ev target q, of call, folded run]
  have "dispatchEvent call u0 a s = (Inr False, after (map run (pre @ [h])) (sorted_pool u t s))"
    if "\<not> async" "q = pre @ h # post" "quiet (map run pre) (sorted_pool u t s)"
      "fst (run h (after (map run pre) (sorted_pool u t s)))" for pre h post
    using inSeries_error [where pre = "map run pre" and f = "run h" and post = "map run post", OF that(3,4)] that(1,2)
    by (simp add: d)
  then show ?thesis by (simp add: q by_priority_order d [unfolded q] inSeries_quiet)
qed

text \<open>A client that logs the handlers it runs; the handler with function 2 returns false.\<close>

record log_events = events +
  log :: "nat list"

definition log_call :: "handler \<Rightarrow> event_obj \<Rightarrow> log_events \<Rightarrow> bool \<times> log_events" where
  "log_call h evt s = (h_id h = 2, s\<lparr>log := log s @ [h_id h]\<rparr>)"

definition sample_events :: log_events where
  "sample_events =
     \<lparr>eventpool = addEventListener (js ''up'') (js ''error'') (sample_handler 3 9) sample_pool, detached = [], log = []\<rparr>"

theorem dispatch_in_order_witness:
  "pool_ok (eventpool sample_events) \<and>
   event_of (EvName (js ''up::Error'')) = Inr (js ''up::Error'', None, False) \<and>
   target_of [] (js ''up::Error'') = (js ''up'', js ''error'') \<and>
   fst (dispatchEvent log_call [] (EvName (js ''up::Error'')) sample_events) = Inr False \<and>
   log (snd (dispatchEvent log_call [] (EvName (js ''up::Error'')) sample_events)) = [3, 2]"
proof -
  have p: "pool_ok (eventpool sample_events)"
    by (simp add: sample_events_def pool_ok_addEventListener sample_pool_ok)
  have e: "event_of (EvName (js ''up::Error'')) = Inr (js ''up::Error'', None, False)" by (simp add: event_of_def)
  have t: "target_of [] (js ''up::Error'') = (js ''up'', js ''error'')" by code_simp
  have q: "by_priority (listed (eventpool sample_events) (js ''up'', js ''error'')) =
      [sample_handler 3 9] @ sample_handler 2 5 # [sample_handler 1 0]" by code_simp
  have l: "log (sorted_pool (js ''up'') (js ''error'') sample_events) = []" by code_simp
  have "dispatchEvent log_call [] (EvName (js ''up::Error'')) sample_events =
    (Inr False, after (map (\<lambda>h. log_call h (shared_event [] [] None)) [sample_handler 3 9, sample_handler 2 5])
       (sorted_pool (js ''up'') (js ''error'') sample_events))"
    using dispatch_in_order [OF p e t refl refl, where call = log_call, THEN conjunct2, THEN conjunct2,
        THEN conjunct2, THEN conjunct2, rule_format, OF _ q]
    by (simp add: q log_call_def sample_handler_def del: js_Cons)
  then show ?thesis using p e t l by (simp add: log_call_def sample_handler_def)
qed

text \<open>Detached handlers run in the same order: the timers of one event run its handlers as a series.\<close>

lemma detached_same: "detached s = d \<Longrightarrow> s\<lparr>detached := d\<rparr> = s"
  by (cases s) simp

lemma run_detached_series:
  assumes call: "\<And>h s. detached (snd (call h evt s)) = detached s"
    and "detached s = [(evt, h # hs)]" and "quiet (map (\<lambda>h. call h evt) (h # hs)) (s\<lparr>detached := []\<rparr>)"
  shows "(run_detached call ^^ length (h # hs)) s = after (map (\<lambda>h. call h evt) (h # hs)) (s\<lparr>detached := []\<rparr>)"
  using assms(2,3)
proof (induction hs arbitrary: h s)
  case Nil
  then show ?case by (simp add: run_detached_def split: prod.split)
next
  case (Cons h' hs)
  let ?t = "snd (call h evt (s\<lparr>detached := []\<rparr>))"
  have d: "detached ?t = []" by (simp add: call)
  have "run_detached call s = ?t\<lparr>detached := [(evt, h' # hs)]\<rparr>"
    using Cons.prems d by (simp add: run_detached_def split: prod.split) (metis append_Nil fst_conv snd_conv)
  with Cons.IH [of "?t\<lparr>detached := [(evt, h' # hs)]\<rparr>" h'] Cons.prems d show ?case
    by (simp add: detached_same [OF d] funpow_swap1 del: funpow.simps(2)) (simp add: funpow_swap1)
qed

section \<open>Sizes, parallel calls, identifiers\<close>

lemma decimal_append: "decimal (ds @ [d]) = decimal ds * 10 + (uint d - 48)"
  by (simp add: decimal_def)

lemma natToString_digits: "list_all is_digit (natToString n) \<and> natToString n \<noteq> [] \<and> decimal (natToString n) = int n"
proof (induction n rule: natToString.induct)
  case (1 n)
  have small: "is_digit (of_nat (48 + k)) \<and> uint (of_nat (48 + k) :: jchar) = 48 + int k" if "k < 10" for k
    using that by (simp add: is_digit_def word_le_nat_alt unat_of_nat uint_nat take_bit_nat_eq_self del: of_nat_add)
  show ?case
  proof (cases "n < 10")
    case True
    then show ?thesis using small [of n] by (simp add: natToString.simps [of n] decimal_def)
  next
    case False
    then show ?thesis
      using 1 small [of "n mod 10"] by (simp add: natToString.simps [of n] decimal_append zdiv_int zmod_int del: of_nat_add)
  qed
qed

lemma is_digit_lower: "is_digit c \<Longrightarrow> toLower c = c \<and> size_unit c"
  by (auto simp: is_digit_def size_unit_def toLower_def word_le_nat_alt)

text \<open>
  A size that is printed as a number, followed by characters that are not read and by at most one
  of the letters k, m, g in either case, is that number of bytes, kilobytes, megabytes or gigabytes.
\<close>

theorem parseSizeStr_printed:
  assumes "filter size_unit (map toLower unit) \<in> {[], [c]}" and "c \<in> {107, 109, 103}"
  shows "parseSizeStr (natToString n @ unit) =
           Inr (int n * (if filter size_unit (map toLower unit) = [] then 1 else the (map_of muls [c])))"
proof -
  have d: "list_all is_digit (natToString n)" "natToString n \<noteq> []" "decimal (natToString n) = int n"
    using natToString_digits by auto
  have "filter size_unit (map toLower ds) = ds" if "list_all is_digit ds" for ds
    using that by (induction ds) (auto simp: is_digit_lower)
  then have f: "filter size_unit (map toLower (natToString n)) = natToString n"
    using d(1) by simp
  have tw: "takeWhile is_digit (natToString n @ u) = natToString n @ takeWhile is_digit u"
    "dropWhile is_digit (natToString n @ u) = dropWhile is_digit u" for u
    using d(1) by (simp_all add: list_all_iff)
  have tw0: "takeWhile is_digit (natToString n) = natToString n" "dropWhile is_digit (natToString n) = []"
    using tw [of "[]"] by simp_all
  have nd: "\<not> is_digit c" using assms(2) by (auto simp: is_digit_def)
  show ?thesis
  proof (cases "filter size_unit (map toLower unit) = []")
    case True
    then show ?thesis using d by (simp add: parseSizeStr_def f tw0 muls_def Let_def)
  next
    case False
    then have u: "filter size_unit (map toLower unit) = [c]" using assms(1) by blast
    have "map_of muls [c] \<noteq> None" using assms(2) by (auto simp: muls_def)
    then show ?thesis using d nd u by (auto simp: parseSizeStr_def f tw Let_def)
  qed
qed

theorem parseSizeStr_printed_witness:
  "filter size_unit (map toLower (js '' MB'')) \<in> {[], [109]} \<and>
   parseSizeStr (natToString 10 @ js '' MB'') = Inr 10485760"
proof -
  have u: "filter size_unit (map toLower (js '' MB'')) = [109]" by code_simp
  have m: "map_of muls [109] = Some 1048576" by code_simp
  show ?thesis using parseSizeStr_printed [of "js '' MB''" 109 10] u m by simp
qed

text \<open>
  The letter t is in the table of multipliers but is removed before the table is read, so terabytes are
  read as bytes; a decimal point is removed as well, and so is a sign.
\<close>

lemma parseSizeStr_surprises:
  "parseSizeStr (js ''2tb'') = Inr 2"
  "parseSizeStr (js ''1.5mb'') = Inr (15 * 1048576)"
  "parseSizeStr (js ''-1'') = Inr 1"
  "parseSizeStr [] = Inl TypeErr"
  by code_simp+

text \<open>The digits of an identifier are not separated: the counter does not make it unique.\<close>

lemma guid_collision:
  "fst (guid [] t [1, 1, 1, 1, 33] 1) = fst (guid [] t [1, 1, 1, 1, 1] 33)"
  by (simp add: guid_def toString32.simps [of 33] toString32.simps [of "Suc 0"])

lemma map_of_snoc: "i \<notin> fst ` set cs \<Longrightarrow> map_of (cs @ [(i, r)]) = (map_of cs)(i \<mapsto> r)"
  by (induction cs) (auto simp: fun_eq_iff)

lemma arr_set_map_of: "i < n \<Longrightarrow> arr_set (map f [0..<n]) i r = map (f(i \<mapsto> r)) [0..<n]"
  by (auto simp: arr_set_def list_eq_iff_nth_eq nth_list_update)

lemma par_callbacks:
  assumes "distinct (map fst cs)" "set (map fst cs) \<subseteq> {..<num}" "length cs < num"
  shows "fold (par_callback num) (map (\<lambda>(i, r). (i, Success r)) cs) (inParallel num) =
    \<lparr>p_count = length cs, p_args = map (map_of cs) [0..<num], p_calls = []\<rparr>"
  using assms
proof (induction cs rule: rev_induct)
  case Nil
  then show ?case by (simp add: inParallel_def map_replicate_const)
next
  case (snoc c cs)
  obtain i r where c: "c = (i, r)" by (cases c)
  have i: "i < num" "i \<notin> fst ` set cs" using snoc.prems by (auto simp: c)
  then show ?case using snoc by (simp add: c arr_set_map_of map_of_snoc Let_def del: map_of_append)
qed

text \<open>
  When every function of a parallel call calls back once, without error and in any order, the main
  callback is called exactly once, at the end, with no error and the results in the order of the functions.
\<close>

theorem parallel_any_order:
  assumes "distinct (map fst cs)" and "set (map fst cs) = {..<num}" and "0 < num"
  shows "p_calls (fold (par_callback num) (map (\<lambda>(i, r). (i, Success r)) cs) (inParallel num)) =
           [CbArgs (None # map (map_of cs) [0..<num])]"
proof -
  have n: "length cs = num" using assms(1,2) distinct_card by fastforce
  obtain ds i r where cs: "cs = ds @ [(i, r)]" using n assms(3) by (cases cs rule: rev_cases) auto
  have i: "i < num" "i \<notin> fst ` set ds" and ds: "distinct (map fst ds)" "set (map fst ds) \<subseteq> {..<num}" "Suc (length ds) = num"
    using assms(1,2) n by (auto simp: cs)
  have n: "length ds < num" using ds(3) by simp
  show ?thesis using ds(3) i by (simp add: cs par_callbacks [OF ds(1,2) n] arr_set_map_of map_of_snoc Let_def del: map_of_append)
qed

theorem parallel_any_order_witness:
  "distinct (map fst [(1 :: nat, 7 :: nat), (0, 5)]) \<and> set (map fst [(1, 7 :: nat), (0, 5)]) = {..<2 :: nat} \<and>
   p_calls (fold (par_callback 2) (map (\<lambda>(i, r). (i, Success r)) [(1, 7), (0, 5)]) (inParallel 2 :: (nat, nat) par)) =
     [CbArgs [None, Some 5, Some 7]]"
proof -
  have d: "distinct (map fst [(1 :: nat, 7 :: nat), (0, 5)])" and s: "set (map fst [(1 :: nat, 7), (0, 5 :: nat)]) = {..<2}"
    by (auto simp: lessThan_def)
  have e: "map (map_of [(1 :: nat, 7 :: nat), (0, 5)]) [0..<2] = [Some 5, Some 7]" by code_simp
  show ?thesis by (intro conjI d s) (rule parallel_any_order [OF d s zero_less_numeral, unfolded e])
qed

end
