(* ===== verification/ImageHeaders.thy ===== *)
theory ImageHeaders
  imports HB_Utils
begin

text \<open>
  Binary strings and JPEG headers in
  \<open>resources/plugins/oss/lib/plupload-2.1.2/js/moxie.js\<close>: the modules \<open>BinaryReader\<close> (lines 7235 to
  7327) and \<open>JPEGHeaders\<close> (lines 7344 to 7471).

  A binary string has one code unit per byte; nothing below relies on the units being below 256 unless
  it says so.  Positions are integers or NaN (\<open>None\<close>), which the string methods read as 0.  Numbers that
  the reader returns come from the bitwise operators: they are 32-bit patterns read as signed integers.
\<close>

section \<open>Binary reader\<close>

record reader =
  II :: bool
  bin :: jstr

type_synonym pos = "int option"

definition pos_add :: "pos \<Rightarrow> int \<Rightarrow> pos" where
  "pos_add x k = map_option (\<lambda>n. n + k) x"

text \<open>\<open>bin.charCodeAt(x)\<close> as an operand of a bitwise operator; NaN becomes 0.\<close>

definition code_at :: "jstr \<Rightarrow> pos \<Rightarrow> int32" where
  "code_at s x =
     (let i = (case x of None \<Rightarrow> 0 | Some n \<Rightarrow> n)
      in if 0 \<le> i \<and> nat i < length s then ucast (s ! nat i) else 0)"

text \<open>The sign-propagating shift.\<close>

definition js_sshr :: "int32 \<Rightarrow> nat \<Rightarrow> int32" where
  "js_sshr v n = signed_drop_bit (n mod 32) v"

definition byte_shift :: "bool \<Rightarrow> nat \<Rightarrow> nat \<Rightarrow> nat" where
  "byte_shift order sz i =
     (let mv = (if order then 0 else -8 * (int sz - 1)) in nat \<bar>mv + int i * 8\<bar>)"

definition br_read :: "reader \<Rightarrow> pos \<Rightarrow> nat \<Rightarrow> int" where
  "br_read r idx sz =
     sint (fold (\<lambda>i sum. sum OR js_shl (code_at (bin r) (pos_add idx (int i))) (byte_shift (II r) sz i)) [0..<sz] 0)"

definition putstr :: "jstr \<Rightarrow> int \<Rightarrow> int \<Rightarrow> reader \<Rightarrow> reader" where
  "putstr segment idx len r =
     r\<lparr>bin := substr (bin r) 0 idx @ segment @ slice_from (bin r) (len + idx)\<rparr>"

definition br_write :: "int \<Rightarrow> int \<Rightarrow> nat \<Rightarrow> reader \<Rightarrow> reader" where
  "br_write idx num sz r =
     (let s = map (\<lambda>i. ucast (js_sshr (word_of_int num) (byte_shift (II r) sz i) AND 255)) [0..<sz]
      in putstr s idx (int sz) r)"

definition br_init :: "jstr \<Rightarrow> reader" where
  "br_init binData = \<lparr>II = False, bin = binData\<rparr>"

definition SEGMENT_from :: "reader \<Rightarrow> int \<Rightarrow> jstr" where
  "SEGMENT_from r idx = substr (bin r) idx (int (length (bin r)) - idx - 1)"

definition SEGMENT :: "reader \<Rightarrow> int \<Rightarrow> int \<Rightarrow> jstr" where
  "SEGMENT r idx len = substr (bin r) idx len"

definition BYTE :: "reader \<Rightarrow> pos \<Rightarrow> int" where
  "BYTE r idx = br_read r idx 1"

definition SHORT :: "reader \<Rightarrow> pos \<Rightarrow> int" where
  "SHORT r idx = br_read r idx 2"

definition LONG :: "reader \<Rightarrow> pos \<Rightarrow> int" where
  "LONG r idx = br_read r idx 4"

definition put_LONG :: "int \<Rightarrow> int \<Rightarrow> reader \<Rightarrow> reader" where
  "put_LONG idx num r = br_write idx num 4 r"

definition SLONG :: "reader \<Rightarrow> pos \<Rightarrow> int" where
  "SLONG r idx = (let num = br_read r idx 4 in if num > 2147483647 then num - 4294967296 else num)"

definition STRING :: "reader \<Rightarrow> pos \<Rightarrow> int \<Rightarrow> jstr" where
  "STRING r idx sz =
     (case idx of
        None \<Rightarrow> []
      | Some i \<Rightarrow> map (\<lambda>k. word_of_int (br_read r (Some (i + int k)) 1)) [0..<nat sz])"

section \<open>JPEG headers\<close>

record header =
  hex :: int
  seg_name :: jstr
  seg_start :: int
  seg_length :: int
  segment :: jstr

text \<open>Two code units read as one number are less than $2^{24}$: lengths are not negative.\<close>

lemma code_at_bit: "bit (code_at s x) n \<Longrightarrow> n < 16"
  by (auto simp: code_at_def Let_def bit_unsigned_iff split: if_splits dest: bit_imp_le_length)

lemma byte_shift_2: "byte_shift order 2 i \<le> 8" if "i < 2"
  using that by (auto simp: byte_shift_def)

lemma read_2:
  "br_read r idx 2 = sint (js_shl (code_at (bin r) (pos_add idx 0)) (byte_shift (II r) 2 0) OR
     js_shl (code_at (bin r) (pos_add idx 1)) (byte_shift (II r) 2 1))"
  by (simp add: br_read_def upt_rec numeral_2_eq_2)

lemma sint_nonneg: "\<not> bit w 31 \<Longrightarrow> 0 \<le> sint w" for w :: int32
  using bit_last_iff [of w] by simp

lemma SHORT_nonneg: "0 \<le> SHORT r idx"
proof -
  have "\<not> bit (js_shl (code_at s x) (byte_shift order 2 i)) 31" if "i < 2" for s x order i
  proof
    assume "bit (js_shl (code_at s x) (byte_shift order 2 i)) 31"
    then have "bit (code_at s x) (31 - byte_shift order 2 i mod 32)"
      by (simp add: js_shl_def bit_push_bit_iff)
    from code_at_bit [OF this] byte_shift_2 [OF that, of order] show False by simp
  qed
  then show ?thesis
    unfolding SHORT_def read_2 by (intro sint_nonneg) (simp add: bit_or_iff)
qed

text \<open>The loop of the constructor; \<open>r\<close> reads the whole file.\<close>

function header_loop :: "reader \<Rightarrow> int \<Rightarrow> header list" where
  "header_loop r idx =
     (if idx \<le> int (length (bin r)) then
        let marker = SHORT r (Some idx)
        in if 0xFFD0 \<le> marker \<and> marker \<le> 0xFFD7 then header_loop r (idx + 2)
           else if marker = 0xFFDA \<or> marker = 0xFFD9 then []
           else let len = SHORT r (Some (idx + 2)) + 2
                in (if 0xFFE1 \<le> marker \<and> marker \<le> 0xFFEF then
                      [\<lparr>hex = marker, seg_name = js ''APP'' @ intToString (marker AND 0xF), seg_start = idx,
                        seg_length = len, segment = SEGMENT r idx len\<rparr>]
                    else []) @ header_loop r (idx + len)
      else [])"
  by auto
termination
proof (relation "measure (\<lambda>(r, idx). nat (int (length (bin r)) + 1 - idx))")
  fix r :: reader and idx len m
  assume i: "idx \<le> int (length (bin r))" and l: "len = SHORT r (Some (idx + 2)) + 2"
  have "len \<ge> 2" using SHORT_nonneg [of r "Some (idx + 2)"] l by simp
  with i show "((r, idx + len), r, idx) \<in> measure (\<lambda>(r, idx). nat (int (length (bin r)) + 1 - idx))" by simp
qed auto

declare header_loop.simps [simp del]

text \<open>
  \<open>new JPEGHeaders(data)\<close>: when the data is not a JPEG image the constructor returns early and the object
  has no fields (\<open>None\<close>).
\<close>

definition JPEGHeaders :: "jstr \<Rightarrow> header list option" where
  "JPEGHeaders d = (let r = br_init d in if SHORT r (Some 0) \<noteq> 0xFFD8 then None else Some (header_loop r 2))"

definition restore :: "header list \<Rightarrow> jstr \<Rightarrow> jstr" where
  "restore headers d =
     (let r = br_init d;
          idx = (if SHORT r (Some 2) = 0xFFE0 then 4 + SHORT r (Some 4) else 2)
      in bin (snd (fold (\<lambda>h (idx, r). (idx + seg_length h, putstr (segment h) idx 0 r)) headers (idx, r))))"

definition strip :: "jstr \<Rightarrow> jstr result" where
  "strip d =
     (case JPEGHeaders d of
        None \<Rightarrow> Inl TypeErr
      | Some headers \<Rightarrow>
          Inr (bin (fold (\<lambda>h r. putstr [] (seg_start h) (seg_length h) r) (rev headers) (br_init d))))"

definition toUpper :: "jchar \<Rightarrow> jchar" where
  "toUpper c = (if 97 \<le> c \<and> c \<le> 122 then c - 32 else c)"

definition get_headers :: "jstr \<Rightarrow> header list \<Rightarrow> jstr list" where
  "get_headers name headers = map segment (filter (\<lambda>h. seg_name h = map toUpper name) headers)"

text \<open>
  \<open>set\<close>: the headers with the name get the segments in turn; the loop ends when there are no more
  segments, and with none at all reading the length of the first throws.
\<close>

fun set_loop :: "jstr \<Rightarrow> jstr list \<Rightarrow> header list \<Rightarrow> header list result" where
  "set_loop name segs [] = Inr []"
| "set_loop name [] (h # hs) = (if seg_name h = name then Inl TypeErr else Inr (h # hs))"
| "set_loop name (s # segs) (h # hs) =
     (if seg_name h = name then
        let h = h\<lparr>segment := s, seg_length := int (length s)\<rparr>
        in if segs = [] then Inr (h # hs) else bindR (set_loop name segs hs) (\<lambda>hs. Inr (h # hs))
      else bindR (set_loop name (s # segs) hs) (\<lambda>hs. Inr (h # hs)))"

definition set_headers :: "jstr \<Rightarrow> jstr list \<Rightarrow> header list \<Rightarrow> header list result" where
  "set_headers name segs headers = set_loop (map toUpper name) segs headers"

section \<open>Reading and writing\<close>

text \<open>A number of two or four bytes, most significant first.\<close>

lemma code_at_append [simp]:
  "code_at (xs @ ys) (Some (int (length xs))) = code_at ys (Some 0)"
  "0 \<le> k \<Longrightarrow> code_at (xs @ ys) (Some (int (length xs) + k)) = code_at ys (Some k)"
  by (auto simp: code_at_def Let_def nth_append nat_add_distrib)

lemma code_at_Cons [simp]:
  "code_at (c # cs) (Some 0) = ucast c"
  "0 < k \<Longrightarrow> code_at (c # cs) (Some k) = code_at cs (Some (k - 1))"
  by (auto simp: code_at_def Let_def nth_Cons' nat_diff_distrib)

lemma sint_small: "sint (word_of_int n :: int32) = n" if "0 \<le> n" "n < 2 ^ 31"
  using that by (simp add: int_word_sint)

lemma SHORT_append:
  assumes "bin r = xs @ a # b # ys" "\<not> II r" "b < 256"
  shows "SHORT r (Some (int (length xs))) = uint a * 256 + uint b"
proof -
  have b: "uint b < 256" using assms(3) by (simp add: word_less_def)
  have a: "uint a < 65536" using uint_lt2p [of a] by simp
  have "(push_bit 8 (ucast a) :: int32) AND ucast b = 0"
  proof (rule bit_eqI)
    fix n
    have "\<not> bit b n" if "8 \<le> n"
    proof -
      have "take_bit 8 (uint b) = uint b" using b by (simp add: take_bit_int_eq_self)
      then have "\<not> bit (uint b) n" using that by (metis bit_take_bit_iff linorder_not_less)
      then show ?thesis by (auto simp: bit_uint_iff dest: bit_imp_le_length)
    qed
    then show "bit ((push_bit 8 (ucast a) :: int32) AND ucast b) n = bit (0 :: int32) n"
      by (auto simp: bit_and_iff bit_push_bit_iff bit_unsigned_iff)
  qed
  then have "js_shl (ucast a) 8 OR js_shl (ucast b) 0 = (push_bit 8 (ucast a) + ucast b :: int32)"
    by (simp add: js_shl_def disjunctive_add_eq_or)
  also have "\<dots> = word_of_int (uint a * 256 + uint b)"
    by (simp add: push_bit_eq_mult unsigned_word_eqI)
  finally have "js_shl (ucast a) 8 OR js_shl (ucast b) 0 = (word_of_int (uint a * 256 + uint b) :: int32)" .
  moreover have "sint (word_of_int (uint a * 256 + uint b) :: int32) = uint a * 256 + uint b"
    using a b by (intro sint_small) auto
  ultimately show ?thesis
    using assms(1,2) by (simp add: SHORT_def read_2 pos_add_def byte_shift_def)
qed

lemma substr_append: "substr (xs @ ys @ zs) (int (length xs)) (int (length ys)) = ys"
  by (simp add: substr_def)

lemma putstr_append:
  assumes "bin r = xs @ ys @ zs" "i = int (length xs)" "n = int (length ys)"
  shows "putstr s i n r = r\<lparr>bin := xs @ s @ zs\<rparr>"
  using assms by (simp add: putstr_def substr_def slice_from_def nat_add_distrib)

definition byte_of :: "int32 \<Rightarrow> nat \<Rightarrow> jchar" where
  "byte_of w s = ucast (js_sshr w s AND 255)"

lemma byte_of_small: "byte_of w s < 256"
proof -
  have "uint (byte_of w s) < 2 ^ 8"
    by (simp add: byte_of_def unsigned_ucast_eq unsigned_and_eq take_bit_eq_mod)
  then show ?thesis by (simp add: word_less_def)
qed

lemma bit_255: "bit (255 :: int) n \<longleftrightarrow> n < 8" "bit (255 :: nat) n \<longleftrightarrow> n < 8"
proof -
  have "bit (255 :: int) n \<longleftrightarrow> bit (mask 8 :: int) n" "bit (255 :: nat) n \<longleftrightarrow> bit (mask 8 :: nat) n"
    by (simp_all add: mask_eq_exp_minus_1)
  then show "bit (255 :: int) n \<longleftrightarrow> n < 8" "bit (255 :: nat) n \<longleftrightarrow> n < 8" by (simp_all add: bit_mask_iff)
qed

lemma bit_byte_of: "s \<le> 24 \<Longrightarrow> bit (byte_of w s) n \<longleftrightarrow> n < 8 \<and> bit w (s + n)"
  by (auto simp: byte_of_def js_sshr_def bit_unsigned_iff bit_and_iff bit_255 bit_signed_drop_bit_iff
      dest: bit_imp_le_length)

lemma bytes_join:
  "js_shl (ucast (byte_of w 24)) 24 OR js_shl (ucast (byte_of w 16)) 16 OR js_shl (ucast (byte_of w 8)) 8 OR
   js_shl (ucast (byte_of w 0)) 0 = w"
proof (rule bit_word_eqI)
  fix n
  assume "n < LENGTH(32)"
  then consider "n < 8" | "8 \<le> n" "n < 16" | "16 \<le> n" "n < 24" | "24 \<le> n" "n < 32" by fastforce
  then show "bit (js_shl (ucast (byte_of w 24)) 24 OR js_shl (ucast (byte_of w 16)) 16 OR
      js_shl (ucast (byte_of w 8)) 8 OR js_shl (ucast (byte_of w 0)) 0) n = bit w n"
    by cases (auto simp: js_shl_def bit_or_iff bit_push_bit_iff bit_unsigned_iff bit_byte_of)
qed

lemma read_4:
  "br_read r idx 4 = sint (js_shl (code_at (bin r) (pos_add idx 0)) (byte_shift (II r) 4 0) OR
     js_shl (code_at (bin r) (pos_add idx 1)) (byte_shift (II r) 4 1) OR
     js_shl (code_at (bin r) (pos_add idx 2)) (byte_shift (II r) 4 2) OR
     js_shl (code_at (bin r) (pos_add idx 3)) (byte_shift (II r) 4 3))"
proof -
  have "[0..<4] = [0, 1, 2, 3 :: nat]" by (simp add: upt_rec)
  then show ?thesis by (simp add: br_read_def or.assoc)
qed

definition long_bytes :: "bool \<Rightarrow> int32 \<Rightarrow> jstr" where
  "long_bytes order w = (if order then map (byte_of w) [0, 8, 16, 24] else map (byte_of w) [24, 16, 8, 0])"

lemma put_LONG_bytes:
  assumes "bin r = xs @ old @ ys" and "length old = 4" and "i = int (length xs)"
  shows "put_LONG i num r = r\<lparr>bin := xs @ long_bytes (II r) (word_of_int num) @ ys\<rparr>"
proof -
  have "[0..<4] = [0, 1, 2, 3 :: nat]" by (simp add: upt_rec)
  then have "map (\<lambda>k. ucast (js_sshr (word_of_int num) (byte_shift (II r) 4 k) AND 255)) [0..<4] =
      long_bytes (II r) (word_of_int num)"
    by (simp add: long_bytes_def byte_of_def byte_shift_def)
  then show ?thesis
    using assms putstr_append [OF assms(1,3)] by (simp add: put_LONG_def br_write_def)
qed

lemma LONG_bytes:
  assumes "bin r = xs @ long_bytes (II r) w @ ys"
  shows "LONG r (Some (int (length xs))) = sint w"
  using assms bytes_join [of w]
  by (cases "II r") (simp_all add: LONG_def read_4 long_bytes_def pos_add_def byte_shift_def or.assoc or.commute or.left_commute)

text \<open>
  C31.  Writing a number of four bytes inside a binary string and reading it back gives the number as a
  signed 32-bit integer, in either byte order; the length and all other bytes stay the same.
\<close>

theorem put_LONG_read:
  assumes "bin r = xs @ old @ ys" and "length old = 4" and "i = int (length xs)"
  shows "LONG (put_LONG i num r) (Some i) = sint (word_of_int num :: int32) \<and>
         (\<exists>new. length new = 4 \<and> list_all (\<lambda>c. c < 256) new \<and> put_LONG i num r = r\<lparr>bin := xs @ new @ ys\<rparr>)"
proof
  show "LONG (put_LONG i num r) (Some i) = sint (word_of_int num :: int32)"
    using LONG_bytes [of "r\<lparr>bin := xs @ long_bytes (II r) (word_of_int num) @ ys\<rparr>" xs "word_of_int num" ys]
    by (simp add: put_LONG_bytes [OF assms(1,2)] assms(3))
  show "\<exists>new. length new = 4 \<and> list_all (\<lambda>c. c < 256) new \<and> put_LONG i num r = r\<lparr>bin := xs @ new @ ys\<rparr>"
    by (rule exI [of _ "long_bytes (II r) (word_of_int num)"])
      (simp add: put_LONG_bytes [OF assms] long_bytes_def byte_of_small)
qed

theorem put_LONG_read_witness:
  "length [1, 2, 3, 4 :: jchar] = 4 \<and>
   LONG (put_LONG 1 (2 ^ 31 + 5) \<lparr>II = True, bin = [9] @ [1, 2, 3, 4] @ [7]\<rparr>) (Some 1) = 5 - 2 ^ 31"
proof -
  have l: "length [1, 2, 3, 4 :: jchar] = 4" by simp
  show ?thesis
    using put_LONG_read [of "\<lparr>II = True, bin = [9] @ [1, 2, 3, 4] @ [7]\<rparr>" "[9]" "[1, 2, 3, 4]" "[7]" 1 "2 ^ 31 + 5"] l
    by (simp add: int_word_sint)
qed

section \<open>Headers of a well-formed image\<close>

text \<open>
  A JPEG file as the standard has it: the start marker, segments with their length, and the scan.  The
  markers are those that carry a length; \<open>tail\<close> begins with the start of a scan or the end marker.
\<close>

definition seg_ok :: "jchar \<times> jstr \<Rightarrow> bool" where
  "seg_ok s \<longleftrightarrow> fst s < 256 \<and> \<not> (0xD0 \<le> fst s \<and> fst s \<le> 0xD7) \<and> fst s \<noteq> 0xDA \<and> fst s \<noteq> 0xD9 \<and>
     length (snd s) + 2 < 65536"

definition enc_seg :: "jchar \<times> jstr \<Rightarrow> jstr" where
  "enc_seg s = [0xFF, fst s, of_nat ((length (snd s) + 2) div 256), of_nat ((length (snd s) + 2) mod 256)] @ snd s"

definition tail_ok :: "jstr \<Rightarrow> bool" where
  "tail_ok rest \<longleftrightarrow> (\<exists>m xs. rest = 0xFF # m # xs \<and> m \<in> {0xDA, 0xD9})"

definition jpeg_file :: "(jchar \<times> jstr) list \<Rightarrow> jstr \<Rightarrow> jstr" where
  "jpeg_file segs rest = [0xFF, 0xD8] @ concat (map enc_seg segs) @ rest"

definition is_app :: "jchar \<times> jstr \<Rightarrow> bool" where
  "is_app s \<longleftrightarrow> 0xE1 \<le> fst s \<and> fst s \<le> 0xEF"

fun headers_at :: "int \<Rightarrow> (jchar \<times> jstr) list \<Rightarrow> header list" where
  "headers_at i [] = []"
| "headers_at i (s # ss) =
     (if is_app s then
        [\<lparr>hex = 0xFF00 + uint (fst s), seg_name = js ''APP'' @ intToString (uint (fst s) mod 16), seg_start = i,
          seg_length = int (length (enc_seg s)), segment = enc_seg s\<rparr>]
      else []) @ headers_at (i + int (length (enc_seg s))) ss"

lemma uint_of_nat_small: "n < 65536 \<Longrightarrow> uint (of_nat n :: jchar) = int n"
  by (simp add: uint_nat unat_of_nat)

lemma seg_length_read:
  assumes "bin r = xs @ enc_seg s @ ys" "\<not> II r" "seg_ok s"
  shows "SHORT r (Some (int (length xs))) = 0xFF00 + uint (fst s)"
    "SHORT r (Some (int (length xs) + 2)) + 2 = int (length (enc_seg s))"
proof -
  let ?n = "length (snd s) + 2"
  show "SHORT r (Some (int (length xs))) = 0xFF00 + uint (fst s)"
    using assms by (subst SHORT_append [where xs = xs]) (auto simp: enc_seg_def seg_ok_def)
  have n: "?n < 65536" using assms(3) by (simp add: seg_ok_def)
  have lo: "(of_nat (?n mod 256) :: jchar) < 256"
    by (simp add: word_less_def uint_of_nat_small del: of_nat_mod of_nat_add)
  have "bin r = (xs @ [0xFF, fst s]) @ of_nat (?n div 256) # of_nat (?n mod 256) # snd s @ ys"
    using assms(1) by (simp add: enc_seg_def)
  from SHORT_append [OF this assms(2) lo]
  have "SHORT r (Some (int (length xs) + 2)) = int (?n div 256) * 256 + int (?n mod 256)"
    using n by (simp add: uint_of_nat_small add.commute [of _ 2] del: of_nat_mod of_nat_add of_nat_div)
  also have "\<dots> = int ?n" by (simp only: zdiv_int zmod_int of_nat_numeral div_mult_mod_eq)
  finally show "SHORT r (Some (int (length xs) + 2)) + 2 = int (length (enc_seg s))" by (simp add: enc_seg_def)
qed

lemma and_15: "(65280 + k) AND 15 = k mod 16" for k :: int
proof -
  have "(15 :: int) = mask 4" by (simp add: mask_eq_exp_minus_1)
  then have "(65280 + k) AND 15 = take_bit 4 (65280 + k)" by (simp only: take_bit_eq_mask)
  also have "\<dots> = (65280 + k) mod 16" by (simp add: take_bit_eq_mod)
  also have "\<dots> = k mod 16" by presburger
  finally show ?thesis .
qed

lemma header_loop_segs:
  assumes "bin r = xs @ concat (map enc_seg segs) @ rest" "\<not> II r" "list_all seg_ok segs" "tail_ok rest"
  shows "header_loop r (int (length xs)) = headers_at (int (length xs)) segs"
  using assms(1,3)
proof (induction segs arbitrary: xs)
  case Nil
  obtain m ys where "rest = 0xFF # m # ys" "m \<in> {0xDA, 0xD9}" using assms(4) by (auto simp: tail_ok_def)
  then have "SHORT r (Some (int (length xs))) = 255 * 256 + uint m \<and> uint m \<in> {0xDA, 0xD9}"
    using Nil assms(2) by (subst SHORT_append [where xs = xs]) auto
  then show ?case using Nil by (subst header_loop.simps) (auto simp: Let_def)
next
  case (Cons s ss)
  have ok: "seg_ok s" "list_all seg_ok ss" using Cons.prems by auto
  have b: "bin r = xs @ enc_seg s @ concat (map enc_seg ss) @ rest" using Cons.prems by simp
  note rd = seg_length_read [OF b assms(2) ok(1)]
  have "header_loop r (int (length (xs @ enc_seg s))) = headers_at (int (length (xs @ enc_seg s))) ss"
    using Cons.IH [of "xs @ enc_seg s"] b ok(2) by simp
  moreover have "SEGMENT r (int (length xs)) (int (length (enc_seg s))) = enc_seg s"
    using substr_append by (simp add: SEGMENT_def b)
  moreover have "\<not> (208 \<le> uint (fst s) \<and> uint (fst s) \<le> 215) \<and> uint (fst s) \<noteq> 218 \<and> uint (fst s) \<noteq> 217"
    using ok(1) by (auto simp: seg_ok_def word_le_def word_uint_eq_iff)
  moreover have "is_app s \<longleftrightarrow> 225 \<le> uint (fst s) \<and> uint (fst s) \<le> 239" by (simp add: is_app_def word_le_def)
  ultimately show ?case
    using rd b by (subst header_loop.simps) (auto simp: Let_def and_15 add.commute [of _ 2])
qed

lemma remove_headers:
  "foldr (\<lambda>h r. putstr [] (seg_start h) (seg_length h) r) (headers_at (int (length xs)) segs)
     \<lparr>II = b, bin = xs @ concat (map enc_seg segs) @ rest\<rparr> =
   \<lparr>II = b, bin = xs @ concat (map enc_seg (filter (\<lambda>s. \<not> is_app s) segs)) @ rest\<rparr>"
proof (induction segs arbitrary: xs)
  case (Cons s ss)
  from Cons.IH [of "xs @ enc_seg s"]
  have "foldr (\<lambda>h r. putstr [] (seg_start h) (seg_length h) r) (headers_at (int (length xs) + int (length (enc_seg s))) ss)
     \<lparr>II = b, bin = xs @ enc_seg s @ concat (map enc_seg ss) @ rest\<rparr> =
   \<lparr>II = b, bin = xs @ enc_seg s @ concat (map enc_seg (filter (\<lambda>s. \<not> is_app s) ss)) @ rest\<rparr>"
    by simp
  then show ?case by (simp add: putstr_append [of _ xs "enc_seg s"])
qed simp

lemma headers_at_segments:
  "map segment (headers_at i segs) = map enc_seg (filter is_app segs)"
  "h \<in> set (headers_at i segs) \<Longrightarrow> seg_length h = int (length (segment h))"
  by (induction i segs rule: headers_at.induct) (auto split: if_splits)

lemma insert_headers:
  assumes "\<And>h. h \<in> set hs \<Longrightarrow> seg_length h = int (length (segment h))"
  shows "fold (\<lambda>h (idx, r). (idx + seg_length h, putstr (segment h) idx 0 r)) hs
      (int (length xs), \<lparr>II = b, bin = xs @ ys\<rparr>) =
    (int (length xs) + int (length (concat (map segment hs))), \<lparr>II = b, bin = xs @ concat (map segment hs) @ ys\<rparr>)"
  using assms
proof (induction hs arbitrary: xs)
  case (Cons h hs)
  have "seg_length h = int (length (segment h))" using Cons.prems by simp
  moreover have "putstr (segment h) (int (length xs)) 0 \<lparr>II = b, bin = xs @ ys\<rparr> = \<lparr>II = b, bin = xs @ segment h @ ys\<rparr>"
    using putstr_append [of "\<lparr>II = b, bin = xs @ ys\<rparr>" xs "[]" ys] by simp
  ultimately show ?case using Cons.IH [of "xs @ segment h"] Cons.prems by (simp add: add.assoc)
qed simp

lemma JPEGHeaders_file:
  assumes "list_all seg_ok segs" and "tail_ok rest"
  shows "JPEGHeaders (jpeg_file segs rest) = Some (headers_at 2 segs)"
proof -
  let ?r = "br_init (jpeg_file segs rest)"
  have b: "bin ?r = [] @ 0xFF # 0xD8 # concat (map enc_seg segs) @ rest" "\<not> II ?r"
    by (simp_all add: br_init_def jpeg_file_def)
  have "SHORT ?r (Some 0) = 0xFFD8" using SHORT_append [OF b] by simp
  moreover have "header_loop ?r 2 = headers_at 2 segs"
    using header_loop_segs [of ?r "[0xFF, 0xD8]", OF _ b(2) assms] b(1) by simp
  ultimately show ?thesis by (simp add: JPEGHeaders_def)
qed

lemma strip_file:
  assumes "list_all seg_ok segs" and "tail_ok rest"
  shows "strip (jpeg_file segs rest) = Inr (jpeg_file (filter (\<lambda>s. \<not> is_app s) segs) rest)"
proof -
  have "fold (\<lambda>h. putstr [] (seg_start h) (seg_length h)) (rev (headers_at 2 segs)) (br_init (jpeg_file segs rest)) =
      \<lparr>II = False, bin = jpeg_file (filter (\<lambda>s. \<not> is_app s) segs) rest\<rparr>"
    using remove_headers [of "[0xFF, 0xD8]" segs False rest]
    by (simp add: foldr_conv_fold jpeg_file_def br_init_def)
  then show ?thesis by (simp add: strip_def JPEGHeaders_file [OF assms])
qed

text \<open>Where the headers go: behind an \<open>APP0\<close> segment at the beginning of the file, or to the beginning.\<close>

definition app0_part :: "(jchar \<times> jstr) list \<Rightarrow> (jchar \<times> jstr) list" where
  "app0_part segs = (case segs of [] \<Rightarrow> [] | s # _ \<Rightarrow> if fst s = 0xE0 then [s] else [])"

definition put_back :: "(jchar \<times> jstr) list \<Rightarrow> (jchar \<times> jstr) list \<Rightarrow> (jchar \<times> jstr) list" where
  "put_back apps others = app0_part others @ apps @ drop (length (app0_part others)) others"

lemma app0_split: "others = app0_part others @ drop (length (app0_part others)) others"
  by (simp add: app0_part_def split: list.split)

lemma restore_index:
  assumes "list_all seg_ok others" and "tail_ok rest" and r: "r = br_init (jpeg_file others rest)"
  shows "(if SHORT r (Some 2) = 0xFFE0 then 4 + SHORT r (Some 4) else 2) =
    int (length ([0xFF, 0xD8] @ concat (map enc_seg (app0_part others))))"
proof (cases others)
  case Nil
  obtain m ys where "rest = 0xFF # m # ys" "m \<in> {0xDA, 0xD9}" using assms(2) by (auto simp: tail_ok_def)
  then have "SHORT r (Some 2) = 255 * 256 + uint m \<and> uint m \<in> {0xDA, 0xD9}"
    using SHORT_append [of r "[0xFF, 0xD8]" 255 m ys] Nil by (auto simp: r br_init_def jpeg_file_def)
  then show ?thesis using Nil by (auto simp: app0_part_def)
next
  case (Cons s ss)
  have b: "bin r = [0xFF, 0xD8] @ enc_seg s @ concat (map enc_seg ss) @ rest" "\<not> II r" "seg_ok s"
    using Cons assms(1) by (simp_all add: r br_init_def jpeg_file_def)
  have "fst s = 0xE0 \<longleftrightarrow> uint (fst s) = 0xE0" by (simp add: word_uint_eq_iff)
  then show ?thesis using seg_length_read [OF b] Cons by (auto simp: app0_part_def)
qed

lemma restore_file:
  assumes "list_all seg_ok others" and "tail_ok rest" and hs: "\<And>h. h \<in> set hs \<Longrightarrow> seg_length h = int (length (segment h))"
    and "map segment hs = map enc_seg apps"
  shows "restore hs (jpeg_file others rest) = jpeg_file (put_back apps others) rest"
proof -
  let ?xs = "[0xFF, 0xD8] @ concat (map enc_seg (app0_part others))"
  let ?ys = "concat (map enc_seg (drop (length (app0_part others)) others)) @ rest"
  have "jpeg_file others rest = ?xs @ ?ys"
    unfolding jpeg_file_def by (subst (1) app0_split) simp
  then have "br_init (jpeg_file others rest) = \<lparr>II = False, bin = ?xs @ ?ys\<rparr>" by (simp add: br_init_def)
  then have "restore hs (jpeg_file others rest) = ?xs @ concat (map enc_seg apps) @ ?ys"
    unfolding restore_def Let_def restore_index [OF assms(1,2) refl]
    using insert_headers [of hs ?xs False ?ys, OF hs] by (simp only: assms(4) snd_conv reader.select_convs)
  then show ?thesis by (simp add: jpeg_file_def put_back_def)
qed

text \<open>
  C32.  On a JPEG file made of well-formed segments the constructor finds exactly the APP1 to APP15
  segments, with their bytes; stripping removes exactly these; and restoring them into any such file puts
  them, unchanged and in order, behind its APP0 segment or else to its beginning.
\<close>

theorem headers_strip_restore:
  assumes "list_all seg_ok segs" and "tail_ok rest"
  shows "\<exists>hs. JPEGHeaders (jpeg_file segs rest) = Some hs \<and> map segment hs = map enc_seg (filter is_app segs) \<and>
           strip (jpeg_file segs rest) = Inr (jpeg_file (filter (\<lambda>s. \<not> is_app s) segs) rest) \<and>
           (\<forall>others rest'. list_all seg_ok others \<longrightarrow> tail_ok rest' \<longrightarrow>
              restore hs (jpeg_file others rest') = jpeg_file (put_back (filter is_app segs) others) rest')"
  using JPEGHeaders_file [OF assms] strip_file [OF assms] headers_at_segments [where i = 2 and segs = segs]
  by (auto intro!: restore_file)

theorem headers_strip_restore_witness:
  "\<exists>hs. list_all seg_ok [(0xE0, [74]), (0xE1, [69, 120])] \<and> tail_ok [0xFF, 0xDA, 0] \<and>
     JPEGHeaders (jpeg_file [(0xE0, [74]), (0xE1, [69, 120])] [0xFF, 0xDA, 0]) = Some hs \<and>
     map segment hs = [[0xFF, 0xE1, 0, 4, 69, 120]] \<and>
     restore hs (jpeg_file [(0xDB, [5])] [0xFF, 0xDA]) = jpeg_file [(0xE1, [69, 120]), (0xDB, [5])] [0xFF, 0xDA]"
proof -
  have ok: "list_all seg_ok [(0xE0, [74]), (0xE1, [69, 120])]" "tail_ok [0xFF, 0xDA, 0]"
    "list_all seg_ok [(0xDB, [5])]" "tail_ok [0xFF, 0xDA]"
    by (simp_all add: seg_ok_def tail_ok_def)
  have m: "map enc_seg (filter is_app [(0xE0, [74]), (0xE1, [69, 120])]) = [[0xFF, 0xE1, 0, 4, 69, 120]]"
    "put_back (filter is_app [(0xE0, [74]), (0xE1, [69, 120])]) [(0xDB, [5])] = [(0xE1, [69, 120]), (0xDB, [5])]"
    by (simp_all add: is_app_def enc_seg_def put_back_def app0_part_def)
  show ?thesis using headers_strip_restore [OF ok(1,2)] ok m by metis
qed

lemma header_loop_ordered:
  "(\<forall>h \<in> set (header_loop r idx). idx \<le> seg_start h \<and> 2 \<le> seg_length h \<and> 0xFFE1 \<le> hex h \<and> hex h \<le> 0xFFEF \<and>
      SHORT r (Some (seg_start h)) = hex h \<and> segment h = SEGMENT r (seg_start h) (seg_length h)) \<and>
   sorted_wrt (\<lambda>h k. seg_start h + seg_length h \<le> seg_start k) (header_loop r idx)"
proof (induction r idx rule: header_loop.induct)
  case (1 r idx)
  let ?m = "SHORT r (Some idx)" and ?l = "SHORT r (Some (idx + 2)) + 2"
  have l: "2 \<le> ?l" using SHORT_nonneg [of r "Some (idx + 2)"] by simp
  show ?case
  proof (cases "idx \<le> int (length (bin r)) \<and> \<not> (?m = 0xFFDA \<or> ?m = 0xFFD9)")
    case True
    show ?thesis
    proof (cases "0xFFD0 \<le> ?m \<and> ?m \<le> 0xFFD7")
      case rst: True
      then show ?thesis using 1(1) [OF _ refl] True by (subst (1 2) header_loop.simps) fastforce
    next
      case no: False
      have IH: "\<forall>h \<in> set (header_loop r (idx + ?l)). idx + ?l \<le> seg_start h \<and> 2 \<le> seg_length h \<and> 0xFFE1 \<le> hex h \<and> hex h \<le> 0xFFEF \<and>
          SHORT r (Some (seg_start h)) = hex h \<and> segment h = SEGMENT r (seg_start h) (seg_length h)"
        "sorted_wrt (\<lambda>h k. seg_start h + seg_length h \<le> seg_start k) (header_loop r (idx + ?l))"
        using 1(2) [OF _ refl no _ refl] True by auto
      have eq: "header_loop r idx = (if 0xFFE1 \<le> ?m \<and> ?m \<le> 0xFFEF then
          [\<lparr>hex = ?m, seg_name = js ''APP'' @ intToString (?m AND 0xF), seg_start = idx, seg_length = ?l,
            segment = SEGMENT r idx ?l\<rparr>] else []) @ header_loop r (idx + ?l)"
        using True no by (subst header_loop.simps) (auto simp: Let_def)
      show ?thesis unfolding eq using IH l by fastforce
    qed
  next
    case False
    then show ?thesis by (subst (1 2) header_loop.simps) (auto simp: Let_def)
  qed
qed


text \<open>
  C33.  On any data that begins with the start marker, well-formed or not, the constructor returns: its
  headers come in the order of the file, do not overlap, start behind the marker, and each has the marker
  of an APP1 to APP15 segment and the bytes of the file at its place.
\<close>

theorem headers_ordered:
  assumes "JPEGHeaders d = Some hs"
  shows "SHORT (br_init d) (Some 0) = 0xFFD8 \<and>
         (\<forall>h \<in> set hs. 2 \<le> seg_start h \<and> 0xFFE1 \<le> hex h \<and> hex h \<le> 0xFFEF \<and>
            SHORT (br_init d) (Some (seg_start h)) = hex h \<and> segment h = substr d (seg_start h) (seg_length h)) \<and>
         sorted_wrt (\<lambda>h k. seg_start h + seg_length h \<le> seg_start k) hs"
  using assms header_loop_ordered [of "br_init d" 2]
  by (auto simp: JPEGHeaders_def Let_def SEGMENT_def br_init_def split: if_splits)

theorem headers_ordered_witness:
  "\<exists>h. JPEGHeaders [0xFF, 0xD8, 0xFF, 0xE1, 0, 9, 7] = Some [h] \<and> seg_start h = 2 \<and>
     segment h = substr [0xFF, 0xD8, 0xFF, 0xE1, 0, 9, 7] 2 (seg_length h)"
proof -
  have e: "JPEGHeaders [0xFF, 0xD8, 0xFF, 0xE1, 0, 9, 7] =
    Some [\<lparr>hex = 0xFFE1, seg_name = js ''APP1'', seg_start = 2, seg_length = 11, segment = [0xFF, 0xE1, 0, 9, 7]\<rparr>]"
    by code_simp
  show ?thesis using headers_ordered [OF e] e by auto
qed

section \<open>Behaviours worth knowing\<close>

text \<open>
  \<open>SEGMENT\<close> with a position only misses the last byte; numbers of four bytes are signed, so the
  correction in \<open>SLONG\<close> never applies; and stripping something that is not a JPEG file throws, since the
  constructor leaves the object without methods.
\<close>

lemma SEGMENT_drops_last: "c \<noteq> [] \<Longrightarrow> SEGMENT_from \<lparr>II = b, bin = c\<rparr> 0 = butlast c"
proof -
  have "nat (int (length c) - 1) = length c - 1" by arith
  then show ?thesis by (simp add: SEGMENT_from_def substr_def butlast_conv_take)
qed

lemma SLONG_eq_LONG: "SLONG r idx = LONG r idx"
proof -
  have "br_read r idx 4 < 2 ^ 31" unfolding br_read_def using sint_lt [where ?'a = 32] by simp
  then show ?thesis by (simp add: SLONG_def LONG_def)
qed

lemma strip_not_jpeg: "SHORT (br_init d) (Some 0) \<noteq> 0xFFD8 \<Longrightarrow> strip d = Inl TypeErr"
  by (simp add: strip_def JPEGHeaders_def Let_def)

text \<open>Setting the segments of a name: as many headers as there are segments are changed, in order.\<close>

lemma set_loop_segments:
  "set_loop name segs hs = Inr hs' \<Longrightarrow> segs \<noteq> [] \<Longrightarrow>
   map segment (filter (\<lambda>h. seg_name h = name) hs') =
     (let old = map segment (filter (\<lambda>h. seg_name h = name) hs) in take (length old) segs @ drop (length segs) old) \<and>
   filter (\<lambda>h. seg_name h \<noteq> name) hs' = filter (\<lambda>h. seg_name h \<noteq> name) hs"
proof (induction name segs hs arbitrary: hs' rule: set_loop.induct)
  case (3 name s segs h hs)
  show ?case
  proof (cases "seg_name h = name \<and> segs = []")
    case False
    then show ?thesis using 3 by (auto simp: Let_def bindR_Inr_iff split: if_splits)
  qed (use 3 in \<open>auto simp: Let_def\<close>)
qed auto

end
