(* ===== verification/ImageInfo.thy ===== *)
theory ImageInfo
  imports ImageHeaders
begin

text \<open>
  Image metadata in \<open>resources/plugins/oss/lib/plupload-2.1.2/js/moxie.js\<close>: the modules \<open>ExifParser\<close> (lines
  7489 to 7908), \<open>JPEG\<close> (7927 to 8040), \<open>PNG\<close> (8059 to 8145) and \<open>ImageInfo\<close> (8164 to 8280).

  An offset that was never set, and a pointer entry that is not an integer, count as NaN (\<open>None\<close>).
  Rational values are quotients of integers: an exact one is a number, and any other is kept as the pair;
  how it is printed is a parameter.  Releasing the memory (\<open>purge\<close>) is not modelled.
\<close>

section \<open>Tags\<close>

datatype exif_val = XNum int | XQuot int int | XStr jstr | XArr "exif_val list" | XUndef

type_synonym hash = "(jstr \<times> exif_val) list"

type_synonym tag_table = "(int \<times> jstr) list"

definition tiff_tags :: tag_table where
  "tiff_tags =
     [(0x0112, js ''Orientation''), (0x010E, js ''ImageDescription''), (0x010F, js ''Make''),
      (0x0110, js ''Model''), (0x0131, js ''Software''), (0x8769, js ''ExifIFDPointer''),
      (0x8825, js ''GPSInfoIFDPointer'')]"

definition exif_tags :: tag_table where
  "exif_tags =
     [(0x9000, js ''ExifVersion''), (0xA001, js ''ColorSpace''), (0xA002, js ''PixelXDimension''),
      (0xA003, js ''PixelYDimension''), (0x9003, js ''DateTimeOriginal''), (0x829A, js ''ExposureTime''),
      (0x829D, js ''FNumber''), (0x8827, js ''ISOSpeedRatings''), (0x9201, js ''ShutterSpeedValue''),
      (0x9202, js ''ApertureValue''), (0x9207, js ''MeteringMode''), (0x9208, js ''LightSource''),
      (0x9209, js ''Flash''), (0x920A, js ''FocalLength''), (0xA402, js ''ExposureMode''),
      (0xA403, js ''WhiteBalance''), (0xA406, js ''SceneCaptureType''), (0xA404, js ''DigitalZoomRatio''),
      (0xA408, js ''Contrast''), (0xA409, js ''Saturation''), (0xA40A, js ''Sharpness'')]"

definition gps_tags :: tag_table where
  "gps_tags =
     [(0x0000, js ''GPSVersionID''), (0x0001, js ''GPSLatitudeRef''), (0x0002, js ''GPSLatitude''),
      (0x0003, js ''GPSLongitudeRef''), (0x0004, js ''GPSLongitude'')]"

text \<open>Descriptions of values; the keys of an object are strings.\<close>

definition num_keys :: "(nat \<times> string) list \<Rightarrow> (jstr \<times> jstr) list" where
  "num_keys ds = map (\<lambda>(n, s). (natToString n, js s)) ds"

definition tagDescs :: "(jstr \<times> (jstr \<times> jstr) list) list" where
  "tagDescs =
     [(js ''ColorSpace'', num_keys [(1, ''sRGB''), (0, ''Uncalibrated'')]),
      (js ''MeteringMode'', num_keys
        [(0, ''Unknown''), (1, ''Average''), (2, ''CenterWeightedAverage''), (3, ''Spot''), (4, ''MultiSpot''),
         (5, ''Pattern''), (6, ''Partial''), (255, ''Other'')]),
      (js ''LightSource'', num_keys
        [(1, ''Daylight''), (2, ''Fliorescent''), (3, ''Tungsten''), (4, ''Flash''), (9, ''Fine weather''),
         (10, ''Cloudy weather''), (11, ''Shade''), (12, ''Daylight fluorescent (D 5700 - 7100K)''),
         (13, ''Day white fluorescent (N 4600 -5400K)''), (14, ''Cool white fluorescent (W 3900 - 4500K)''),
         (15, ''White fluorescent (WW 3200 - 3700K)''), (17, ''Standard light A''), (18, ''Standard light B''),
         (19, ''Standard light C''), (20, ''D55''), (21, ''D65''), (22, ''D75''), (23, ''D50''),
         (24, ''ISO studio tungsten''), (255, ''Other'')]),
      (js ''Flash'', num_keys
        [(0x00, ''Flash did not fire.''), (0x01, ''Flash fired.''),
         (0x05, ''Strobe return light not detected.''), (0x07, ''Strobe return light detected.''),
         (0x09, ''Flash fired, compulsory flash mode''),
         (0x0D, ''Flash fired, compulsory flash mode, return light not detected''),
         (0x0F, ''Flash fired, compulsory flash mode, return light detected''),
         (0x10, ''Flash did not fire, compulsory flash mode''), (0x18, ''Flash did not fire, auto mode''),
         (0x19, ''Flash fired, auto mode''), (0x1D, ''Flash fired, auto mode, return light not detected''),
         (0x1F, ''Flash fired, auto mode, return light detected''), (0x20, ''No flash function''),
         (0x41, ''Flash fired, red-eye reduction mode''),
         (0x45, ''Flash fired, red-eye reduction mode, return light not detected''),
         (0x47, ''Flash fired, red-eye reduction mode, return light detected''),
         (0x49, ''Flash fired, compulsory flash mode, red-eye reduction mode''),
         (0x4D, ''Flash fired, compulsory flash mode, red-eye reduction mode, return light not detected''),
         (0x4F, ''Flash fired, compulsory flash mode, red-eye reduction mode, return light detected''),
         (0x59, ''Flash fired, auto mode, red-eye reduction mode''),
         (0x5D, ''Flash fired, auto mode, return light not detected, red-eye reduction mode''),
         (0x5F, ''Flash fired, auto mode, return light detected, red-eye reduction mode'')]),
      (js ''ExposureMode'', num_keys [(0, ''Auto exposure''), (1, ''Manual exposure''), (2, ''Auto bracket'')]),
      (js ''WhiteBalance'', num_keys [(0, ''Auto white balance''), (1, ''Manual white balance'')]),
      (js ''SceneCaptureType'', num_keys
        [(0, ''Standard''), (1, ''Landscape''), (2, ''Portrait''), (3, ''Night scene'')]),
      (js ''Contrast'', num_keys [(0, ''Normal''), (1, ''Soft''), (2, ''Hard'')]),
      (js ''Saturation'', num_keys [(0, ''Normal''), (1, ''Low saturation''), (2, ''High saturation'')]),
      (js ''Sharpness'', num_keys [(0, ''Normal''), (1, ''Soft''), (2, ''Hard'')]),
      (js ''GPSLatitudeRef'', [(js ''N'', js ''North latitude''), (js ''S'', js ''South latitude'')]),
      (js ''GPSLongitudeRef'', [(js ''E'', js ''East longitude''), (js ''W'', js ''West longitude'')])]"

text \<open>\<open>tagDescs[tag][value]\<close> of a value that is no object.\<close>

definition describe :: "jstr \<Rightarrow> exif_val \<Rightarrow> exif_val" where
  "describe tag value =
     (case map_of tagDescs tag of
        None \<Rightarrow> value
      | Some d \<Rightarrow>
          (case value of
             XArr vs \<Rightarrow> XArr vs
           | XNum n \<Rightarrow> (case map_of d (intToString n) of Some s \<Rightarrow> XStr s | None \<Rightarrow> XUndef)
           | _ \<Rightarrow> XUndef))"

section \<open>Reading a directory\<close>

definition tiffHeader :: int where
  "tiffHeader = 10"

definition div_js :: "int \<Rightarrow> int \<Rightarrow> exif_val" where
  "div_js a b = (if b \<noteq> 0 \<and> b dvd a then XNum (a div b) else XQuot a b)"

definition far :: "reader \<Rightarrow> pos \<Rightarrow> pos" where
  "far r offset = Some (LONG r offset + tiffHeader)"

definition read_values :: "(pos \<Rightarrow> exif_val) \<Rightarrow> int \<Rightarrow> int \<Rightarrow> pos \<Rightarrow> exif_val list" where
  "read_values f stride count offset = map (\<lambda>ii. f (pos_add offset (int ii * stride))) [0..<nat count]"

text \<open>The cases of the switch that fill \<open>values\<close>; \<open>None\<close> for an unknown type.\<close>

definition tag_values :: "reader \<Rightarrow> int \<Rightarrow> int \<Rightarrow> pos \<Rightarrow> exif_val list option" where
  "tag_values r type count offset =
     (if type = 1 \<or> type = 7 then
        Some (read_values (\<lambda>x. XNum (BYTE r x)) 1 count (if count > 4 then far r offset else offset))
      else if type = 3 then
        Some (read_values (\<lambda>x. XNum (SHORT r x)) 2 count (if count > 2 then far r offset else offset))
      else if type = 4 then
        Some (read_values (\<lambda>x. XNum (LONG r x)) 4 count (if count > 1 then far r offset else offset))
      else if type = 5 then
        Some (read_values (\<lambda>x. div_js (LONG r x) (LONG r (pos_add x 4))) 4 count (far r offset))
      else if type = 9 then
        Some (read_values (\<lambda>x. XNum (SLONG r x)) 4 count (far r offset))
      else if type = 10 then
        Some (read_values (\<lambda>x. div_js (SLONG r x) (SLONG r (pos_add x 4))) 4 count (far r offset))
      else None)"

definition extract_entry :: "reader \<Rightarrow> tag_table \<Rightarrow> pos \<Rightarrow> hash \<Rightarrow> hash" where
  "extract_entry r tags2extract tagOffset h =
     (case map_of tags2extract (SHORT r tagOffset) of
        None \<Rightarrow> h
      | Some tag \<Rightarrow>
          let type = SHORT r (pos_add tagOffset 2);
              count = LONG r (pos_add tagOffset 4);
              offset = pos_add tagOffset 8
          in if type = 2 then
               obj_set h tag (XStr (STRING r (if count > 4 then far r offset else offset) (count - 1)))
             else (case tag_values r type count offset of
                     None \<Rightarrow> h
                   | Some values \<Rightarrow> obj_set h tag (describe tag (if count = 1 then hd values else XArr values))))"

definition extractTags :: "reader \<Rightarrow> pos \<Rightarrow> tag_table \<Rightarrow> hash" where
  "extractTags r IFD_offset tags2extract =
     fold (\<lambda>i. extract_entry r tags2extract (pos_add IFD_offset (12 * int i + 2))) [0..<nat (SHORT r IFD_offset)] []"

section \<open>Exif parser\<close>

record exif_parser =
  ep_data :: reader
  Tiff :: "hash option"
  exifIFD :: pos
  gpsIFD :: pos

definition pointer_pos :: "exif_val option \<Rightarrow> pos \<Rightarrow> pos" where
  "pointer_pos v old =
     (case v of None \<Rightarrow> old | Some (XNum n) \<Rightarrow> Some (tiffHeader + n) | Some _ \<Rightarrow> None)"

definition delete_key :: "jstr \<Rightarrow> hash \<Rightarrow> hash" where
  "delete_key k h = filter (\<lambda>(k', _). k' \<noteq> k) h"

definition getIFDOffsets :: "exif_parser \<Rightarrow> bool \<times> exif_parser" where
  "getIFDOffsets p =
     (let idx = tiffHeader;
          r = (ep_data p)\<lparr>II := (SHORT (ep_data p) (Some idx) = 0x4949)\<rparr>;
          p = p\<lparr>ep_data := r\<rparr>
      in if SHORT r (Some (idx + 2)) \<noteq> 0x002A then (False, p)
         else let IFD0 = tiffHeader + LONG r (Some (idx + 4));
                  t = extractTags r (Some IFD0) tiff_tags;
                  e = map_of t (js ''ExifIFDPointer'');
                  g = map_of t (js ''GPSInfoIFDPointer'')
              in (True, p\<lparr>Tiff := Some (delete_key (js ''GPSInfoIFDPointer'') (delete_key (js ''ExifIFDPointer'') t)),
                          exifIFD := pointer_pos e (exifIFD p), gpsIFD := pointer_pos g (gpsIFD p)\<rparr>))"

definition new_parser :: exif_parser where
  "new_parser = \<lparr>ep_data = br_init [], Tiff = None, exifIFD = None, gpsIFD = None\<rparr>"

text \<open>\<open>init\<close> of a parser, with the segment or nothing.\<close>

definition ep_init :: "jstr option \<Rightarrow> exif_parser \<Rightarrow> bool \<times> exif_parser" where
  "ep_init sg p =
     (let p = p\<lparr>exifIFD := None, gpsIFD := None\<rparr>
      in case sg of
           None \<Rightarrow> (False, p)
         | Some s \<Rightarrow>
             if s = [] then (False, p)
             else let p = p\<lparr>ep_data := br_init s\<rparr>
                  in if SHORT (ep_data p) (Some 0) = 0xFFE1 \<and>
                        map toUpper (STRING (ep_data p) (Some 4) 5) = js ''EXIF'' @ [0]
                     then getIFDOffsets p else (False, p))"

text \<open>\<open>String.fromCharCode\<close> of a number.\<close>

definition char_of_val :: "exif_val \<Rightarrow> jchar" where
  "char_of_val v =
     (case v of
        XNum n \<Rightarrow> word_of_int n
      | XQuot a b \<Rightarrow> (if b = 0 then 0 else word_of_int (sgn a * sgn b * (\<bar>a\<bar> div \<bar>b\<bar>)))
      | _ \<Rightarrow> 0)"

definition EXIF :: "exif_parser \<Rightarrow> hash" where
  "EXIF p =
     (let e = extractTags (ep_data p) (exifIFD p) exif_tags
      in case map_of e (js ''ExifVersion'') of
           Some (XArr vs) \<Rightarrow> obj_set e (js ''ExifVersion'') (XStr (map char_of_val vs))
         | _ \<Rightarrow> e)"

text \<open>The printed form of a value in a list; \<open>quotStr\<close> prints a quotient that is not an integer.\<close>

definition val_str :: "(int \<Rightarrow> int \<Rightarrow> jstr) \<Rightarrow> exif_val \<Rightarrow> jstr" where
  "val_str quotStr v = (case v of XNum n \<Rightarrow> intToString n | XQuot a b \<Rightarrow> quotStr a b | XStr s \<Rightarrow> s | _ \<Rightarrow> [])"

definition GPS :: "(int \<Rightarrow> int \<Rightarrow> jstr) \<Rightarrow> exif_parser \<Rightarrow> hash" where
  "GPS quotStr p =
     (let g = extractTags (ep_data p) (gpsIFD p) gps_tags
      in case map_of g (js ''GPSVersionID'') of
           Some (XArr vs) \<Rightarrow> obj_set g (js ''GPSVersionID'') (XStr (join (map (val_str quotStr) vs) (js ''.'')))
         | _ \<Rightarrow> g)"

text \<open>\<open>setTag\<close> for the directory with the given tags and offset.\<close>

definition tag_key :: "tag_table \<Rightarrow> jstr \<Rightarrow> int option" where
  "tag_key tmpTags tag = map_option fst (find (\<lambda>(_, name). name = tag) tmpTags)"

definition find_entry :: "reader \<Rightarrow> pos \<Rightarrow> int option \<Rightarrow> pos" where
  "find_entry r offset tag =
     (case find (\<lambda>i. Some (SHORT r (pos_add offset (12 * int i + 2))) = tag) [0..<nat (SHORT r offset)] of
        None \<Rightarrow> None
      | Some i \<Rightarrow> pos_add offset (12 * int i + 2))"

definition setTag :: "tag_table \<Rightarrow> pos \<Rightarrow> jstr \<Rightarrow> int \<Rightarrow> exif_parser \<Rightarrow> bool \<times> exif_parser" where
  "setTag tmpTags offset tag value p =
     (case pos_add (find_entry (ep_data p) offset (tag_key tmpTags tag)) 8 of
        None \<Rightarrow> (False, p)
      | Some valueOffset \<Rightarrow>
          if valueOffset = 0 then (False, p)
          else (True, p\<lparr>ep_data := put_LONG valueOffset value (ep_data p)\<rparr>))"

definition ep_setExif :: "jstr \<Rightarrow> int \<Rightarrow> exif_parser \<Rightarrow> bool \<times> exif_parser" where
  "ep_setExif tag value p =
     (if tag \<noteq> js ''PixelXDimension'' \<and> tag \<noteq> js ''PixelYDimension'' then (False, p)
      else setTag exif_tags (exifIFD p) tag value p)"

definition getBinary :: "exif_parser \<Rightarrow> jstr" where
  "getBinary p = bin (ep_data p)"

section \<open>JPEG\<close>

datatype image_error = WrongFormat | ImageTypeErr

record jpeg =
  jp_binstr :: jstr
  jp_headers :: "header list"
  jp_parser :: exif_parser
  hasExif :: bool
  jp_size :: nat
  jp_width :: int
  jp_height :: int
  jp_meta :: "(hash option \<times> hash \<times> hash) option"

function jpeg_dimensions :: "reader \<Rightarrow> int \<Rightarrow> (int \<times> int) option" where
  "jpeg_dimensions r idx =
     (if idx \<le> int (length (bin r)) then
        let marker = SHORT r (Some (idx + 2))
        in if 0xFFC0 \<le> marker \<and> marker \<le> 0xFFC3
           then Some (SHORT r (Some (idx + 9)), SHORT r (Some (idx + 7)))
           else let len = SHORT r (Some (idx + 4)) in jpeg_dimensions r (idx + 4 + (len - 2))
      else None)"
  by auto
termination
proof (relation "measure (\<lambda>(r, idx). nat (int (length (bin r)) + 1 - idx))")
  fix r :: reader and idx m len
  assume i: "idx \<le> int (length (bin r))" and l: "len = SHORT r (Some (idx + 4))"
  have "len \<ge> 0" using SHORT_nonneg [of r "Some (idx + 4)"] l by simp
  with i show "((r, idx + 4 + (len - 2)), r, idx) \<in> measure (\<lambda>(r, idx). nat (int (length (bin r)) + 1 - idx))"
    by simp
qed auto

declare jpeg_dimensions.simps [simp del]

definition new_JPEG :: "(int \<Rightarrow> int \<Rightarrow> jstr) \<Rightarrow> jstr \<Rightarrow> image_error + jpeg" where
  "new_JPEG quotStr binstr =
     (let br = br_init binstr
      in if SHORT br (Some 0) \<noteq> 0xFFD8 then Inl WrongFormat
         else case JPEGHeaders binstr of
                None \<Rightarrow> Inl ImageTypeErr
              | Some hm \<Rightarrow>
                  let app1 = get_headers (js ''app1'') hm;
                      (has, ep) = ep_init (if app1 = [] then None else Some (hd app1)) new_parser;
                      info = jpeg_dimensions br 0
                  in Inr \<lparr>jp_binstr = binstr, jp_headers = hm, jp_parser = ep, hasExif = has, jp_size = length binstr,
                          jp_width = (case info of Some (w, h) \<Rightarrow> w | None \<Rightarrow> 0),
                          jp_height = (case info of Some (w, h) \<Rightarrow> h | None \<Rightarrow> 0),
                          jp_meta = (if has then Some (Tiff ep, EXIF ep, GPS quotStr ep) else None)\<rparr>)"

definition jpeg_setExif :: "(jstr \<times> int) list \<Rightarrow> jpeg \<Rightarrow> jpeg" where
  "jpeg_setExif tags j =
     (if \<not> hasExif j then j
      else let ep = fold (\<lambda>(tag, value) ep. snd (ep_setExif tag value ep)) tags (jp_parser j)
           in j\<lparr>jp_parser := ep,
                jp_headers := (case set_headers (js ''app1'') [getBinary ep] (jp_headers j) of Inr hs \<Rightarrow> hs | Inl _ \<Rightarrow> jp_headers j)\<rparr>)"

definition writeHeaders :: "jstr option \<Rightarrow> jpeg \<Rightarrow> jstr \<times> jpeg" where
  "writeHeaders d j =
     (case d of
        None \<Rightarrow> let b = restore (jp_headers j) (jp_binstr j) in (b, j\<lparr>jp_binstr := b\<rparr>)
      | Some d \<Rightarrow> (restore (jp_headers j) d, j))"

definition stripHeaders :: "jstr \<Rightarrow> jpeg \<Rightarrow> jstr result" where
  "stripHeaders d j = strip d"

section \<open>PNG\<close>

record png =
  png_size :: nat
  png_width :: int
  png_height :: int

record chunk =
  chunk_length :: int
  chunk_type :: jstr
  chunk_start :: int
  CRC :: int

definition getChunkAt :: "reader \<Rightarrow> int \<Rightarrow> chunk" where
  "getChunkAt r idx =
     (let len = LONG r (Some idx)
      in \<lparr>chunk_length = len, chunk_type = STRING r (Some (idx + 4)) 4, chunk_start = idx + 8,
          CRC = LONG r (Some (idx + 8 + len))\<rparr>)"

definition png_dimensions :: "reader \<Rightarrow> (int \<times> int) option" where
  "png_dimensions r =
     (let chunk = getChunkAt r 8
      in if chunk_type chunk = js ''IHDR'' then
           let idx = chunk_start chunk in Some (LONG r (Some idx), LONG r (Some (idx + 4)))
         else None)"

definition png_signature :: "int list" where
  "png_signature = [0x8950, 0x4E47, 0x0D0A, 0x1A0A]"

definition new_PNG :: "jstr \<Rightarrow> image_error + png" where
  "new_PNG binstr =
     (let br = br_init binstr
      in if list_ex (\<lambda>i. png_signature ! i \<noteq> SHORT br (Some (2 * int i))) [0..<4] then Inl WrongFormat
         else case png_dimensions br of
                None \<Rightarrow> Inl ImageTypeErr
              | Some (w, h) \<Rightarrow> Inr \<lparr>png_size = length binstr, png_width = w, png_height = h\<rparr>)"

section \<open>Image information\<close>

datatype image = JpegImage jpeg | PngImage png

definition ImageInfo :: "(int \<Rightarrow> int \<Rightarrow> jstr) \<Rightarrow> jstr \<Rightarrow> image_error + image" where
  "ImageInfo quotStr binstr =
     (case new_JPEG quotStr binstr of
        Inr j \<Rightarrow> Inr (JpegImage j)
      | Inl _ \<Rightarrow> (case new_PNG binstr of Inr p \<Rightarrow> Inr (PngImage p) | Inl _ \<Rightarrow> Inl WrongFormat))"

definition img_type :: "image \<Rightarrow> jstr" where
  "img_type img = (case img of JpegImage _ \<Rightarrow> js ''image/jpeg'' | PngImage _ \<Rightarrow> js ''image/png'')"

definition img_width :: "image \<Rightarrow> int" where
  "img_width img = (case img of JpegImage j \<Rightarrow> jp_width j | PngImage p \<Rightarrow> png_width p)"

definition img_height :: "image \<Rightarrow> int" where
  "img_height img = (case img of JpegImage j \<Rightarrow> jp_height j | PngImage p \<Rightarrow> png_height p)"

definition img_setExif :: "(jstr \<times> int) list \<Rightarrow> image \<Rightarrow> image" where
  "img_setExif tags img = (case img of JpegImage j \<Rightarrow> JpegImage (jpeg_setExif tags j) | PngImage p \<Rightarrow> PngImage p)"

definition img_writeHeaders :: "jstr \<Rightarrow> image \<Rightarrow> jstr" where
  "img_writeHeaders d img = (case img of JpegImage j \<Rightarrow> fst (writeHeaders (Some d) j) | PngImage _ \<Rightarrow> d)"

definition img_stripHeaders :: "jstr \<Rightarrow> image \<Rightarrow> jstr result" where
  "img_stripHeaders d img = (case img of JpegImage j \<Rightarrow> stripHeaders d j | PngImage _ \<Rightarrow> Inr d)"

section \<open>Size and type of an image\<close>

lemma enc_seg_split:
  "snd s = p # h1 # h0 # w1 # w0 # tail \<Longrightarrow>
   \<exists>a b. enc_seg s = [0xFF, fst s, a, b, p] @ h1 # h0 # w1 # w0 # tail"
  by (simp add: enc_seg_def)

definition is_sof :: "jchar \<times> jstr \<Rightarrow> bool" where
  "is_sof s \<longleftrightarrow> 0xC0 \<le> fst s \<and> fst s \<le> 0xC3"

lemma is_sof_uint: "is_sof s \<longleftrightarrow> 0xC0 \<le> uint (fst s) \<and> uint (fst s) \<le> 0xC3"
  by (simp add: is_sof_def word_le_def)

lemma dimensions_segs:
  assumes "bin r = xs @ concat (map enc_seg pre) @ enc_seg s @ ys" "\<not> II r" "list_all seg_ok (pre @ [s])"
    and "list_all (\<lambda>s. \<not> is_sof s) pre" "is_sof s"
    and s: "snd s = p # h1 # h0 # w1 # w0 # tail" "h0 < 256" "w0 < 256"
  shows "jpeg_dimensions r (int (length xs) - 2) = Some (uint w1 * 256 + uint w0, uint h1 * 256 + uint h0)"
  using assms(1,3,4)
proof (induction pre arbitrary: xs)
  case Nil
  have b: "bin r = xs @ enc_seg s @ ys" "seg_ok s" using Nil by auto
  obtain a c where e: "enc_seg s = [0xFF, fst s, a, c, p] @ h1 # h0 # w1 # w0 # tail"
    using enc_seg_split [OF s(1)] by blast
  have "SHORT r (Some (int (length (xs @ [0xFF, fst s, a, c, p])))) = uint h1 * 256 + uint h0"
    by (rule SHORT_append [OF _ assms(2) s(2)]) (simp add: b e)
  moreover have "SHORT r (Some (int (length (xs @ [0xFF, fst s, a, c, p, h1, h0])))) = uint w1 * 256 + uint w0"
    by (rule SHORT_append [OF _ assms(2) s(3)]) (simp add: b e)
  moreover have "int (length xs) - 2 \<le> int (length (bin r))" by (simp add: b)
  ultimately show ?case
    using seg_length_read(1) [OF b(1) assms(2) b(2)] assms(5)
    by (subst jpeg_dimensions.simps) (simp add: is_sof_uint add.commute)
next
  case (Cons t pre)
  have b: "bin r = xs @ enc_seg t @ concat (map enc_seg pre) @ enc_seg s @ ys" "seg_ok t" using Cons.prems by auto
  have "jpeg_dimensions r (int (length (xs @ enc_seg t)) - 2) = Some (uint w1 * 256 + uint w0, uint h1 * 256 + uint h0)"
    using Cons.IH [of "xs @ enc_seg t"] b Cons.prems by simp
  moreover have "\<not> (0xC0 \<le> uint (fst t) \<and> uint (fst t) \<le> 0xC3)" using Cons.prems(3) by (simp add: is_sof_uint)
  moreover define i where "i = int (length xs) - 2"
  moreover have "SHORT r (Some (i + 2)) = 0xFF00 + uint (fst t)" "SHORT r (Some (i + 4)) = int (length (enc_seg t)) - 2"
    using seg_length_read [OF b(1) assms(2) b(2)] by (simp_all add: i_def algebra_simps)
  moreover have "i \<le> int (length (bin r))" by (simp add: b i_def)
  ultimately show ?case
    unfolding i_def [symmetric] by (subst jpeg_dimensions.simps) (auto simp: Let_def i_def add_diff_eq)
qed

text \<open>
  A JPEG file made of well-formed segments is recognised as one, and its width and height are those
  of its first frame header, whatever segments stand before it and whatever its Exif data is.
\<close>

theorem jpeg_info:
  assumes "list_all seg_ok (pre @ [s])" and "list_all (\<lambda>s. \<not> is_sof s) pre" and "is_sof s"
    and s: "snd s = p # h1 # h0 # w1 # w0 # tail" and "h0 < 256" "w0 < 256"
  shows "\<exists>j. ImageInfo quotStr (jpeg_file (pre @ s # post) rest) = Inr (JpegImage j) \<and>
           jp_width j = uint w1 * 256 + uint w0 \<and> jp_height j = uint h1 * 256 + uint h0 \<and>
           jp_size j = length (jpeg_file (pre @ s # post) rest)"
proof -
  let ?f = "jpeg_file (pre @ s # post) rest"
  have b: "bin (br_init ?f) = [] @ 0xFF # 0xD8 # concat (map enc_seg (pre @ s # post)) @ rest" "\<not> II (br_init ?f)"
    by (simp_all add: br_init_def jpeg_file_def)
  have soi: "SHORT (br_init ?f) (Some 0) = 0xFFD8" using SHORT_append [OF b] by simp
  have "jpeg_dimensions (br_init ?f) 0 = Some (uint w1 * 256 + uint w0, uint h1 * 256 + uint h0)"
    using dimensions_segs [of "br_init ?f" "[0xFF, 0xD8]" pre s "concat (map enc_seg post) @ rest", OF _ b(2) assms]
      b(1) by simp
  with soi show ?thesis
    by (simp add: ImageInfo_def new_JPEG_def JPEGHeaders_def Let_def split: prod.split)
qed

theorem jpeg_info_witness:
  "list_all seg_ok ([(0xDB, [5])] @ [(0xC0, [8, 1, 2, 0, 100, 3])]) \<and>
   (\<exists>j. ImageInfo (\<lambda>_ _. []) (jpeg_file ([(0xDB, [5])] @ (0xC0, [8, 1, 2, 0, 100, 3]) # []) [0xFF, 0xD9]) = Inr (JpegImage j) \<and>
      jp_width j = 100 \<and> jp_height j = 258)"
proof -
  have ok: "list_all seg_ok ([(0xDB, [5])] @ [(0xC0, [8, 1, 2, 0, 100, 3])])"
    "list_all (\<lambda>s. \<not> is_sof s) [(0xDB, [5])]" "is_sof (0xC0, [8, 1, 2, 0, 100, 3])"
    by (simp_all add: seg_ok_def is_sof_def)
  show ?thesis
    using jpeg_info [OF ok, of 8 1 2 0 100 "[3]" "\<lambda>_ _. []" "[]" "[0xFF, 0xD9]"] ok(1) by auto
qed

text \<open>A PNG file whose first chunk is the header.\<close>

definition png_file :: "jstr \<Rightarrow> int32 \<Rightarrow> int32 \<Rightarrow> jstr \<Rightarrow> jstr" where
  "png_file len w h tail =
     [0x89, 0x50, 0x4E, 0x47, 0x0D, 0x0A, 0x1A, 0x0A] @ len @ js ''IHDR'' @ long_bytes False w @ long_bytes False h @ tail"

lemma LONG_at:
  assumes "bin r = xs @ long_bytes (II r) w @ ys" and "i = int (length xs)"
  shows "LONG r (Some i) = sint w"
  using LONG_bytes [OF assms(1)] assms(2) by simp

lemma SHORT_at:
  assumes "bin r = xs @ a # b # ys" and "\<not> II r" and "b < 256" and "i = int (length xs)"
  shows "SHORT r (Some i) = uint a * 256 + uint b"
  using SHORT_append [OF assms(1-3)] assms(4) by simp

lemma read_char: "word_of_int (br_read r (Some i) (Suc 0)) = (ucast (code_at (bin r) (Some i)) :: jchar)"
proof -
  have "(scast w :: jchar) = ucast w" for w :: int32
    by (rule bit_word_eqI) (auto simp: bit_unsigned_iff bit_signed_iff)
  then show ?thesis by (simp add: br_read_def byte_shift_def js_shl_def pos_add_def)
qed

lemma STRING_4:
  assumes "bin r = xs @ [a, b, c, d] @ ys" and "i = int (length xs)"
  shows "STRING r (Some i) 4 = [a, b, c, d]"
proof -
  have "[0..<nat 4] = [0, 1, 2, 3 :: nat]" by (simp add: upt_rec)
  moreover have "ucast (ucast x :: int32) = x" for x :: jchar
    by (rule bit_word_eqI) (auto simp: bit_unsigned_iff)
  ultimately show ?thesis
    using assms by (simp add: STRING_def read_char pos_add_def)
qed

lemma png_shorts:
  "SHORT (br_init (png_file len w h tail)) (Some 0) = 0x8950" "SHORT (br_init (png_file len w h tail)) (Some 2) = 0x4E47"
  "SHORT (br_init (png_file len w h tail)) (Some 4) = 0x0D0A" "SHORT (br_init (png_file len w h tail)) (Some 6) = 0x1A0A"
  by (simp_all add: SHORT_def read_2 pos_add_def byte_shift_def js_shl_def png_file_def br_init_def)

text \<open>
  C35.  A PNG file with its signature and its header chunk first is recognised as one, with the width and
  height of the chunk read as signed numbers.  Data that begins with the JPEG start marker is always taken
  for a JPEG file; and data that is neither this nor has the signature and the header chunk is refused with
  the error for a wrong format, never with another one.
\<close>

theorem png_info:
  assumes "length len = 4"
  shows "ImageInfo quotStr (png_file len w h tail) =
           Inr (PngImage \<lparr>png_size = length (png_file len w h tail), png_width = sint w, png_height = sint h\<rparr>) \<and>
         ((\<exists>j. ImageInfo quotStr d = Inr (JpegImage j)) \<longleftrightarrow> SHORT (br_init d) (Some 0) = 0xFFD8) \<and>
         (\<forall>e. ImageInfo quotStr d = Inl e \<longleftrightarrow>
            e = WrongFormat \<and> SHORT (br_init d) (Some 0) \<noteq> 0xFFD8 \<and>
            (map (\<lambda>i. SHORT (br_init d) (Some i)) [0, 2, 4, 6] \<noteq> png_signature \<or>
             STRING (br_init d) (Some 12) 4 \<noteq> js ''IHDR''))"
proof (intro conjI allI)
  have u: "[0..<4] = [0, 1, 2, 3 :: nat]" by (simp add: upt_rec)
  let ?f = "png_file len w h tail"
  have "chunk_type (getChunkAt (br_init ?f) 8) = js ''IHDR''"
    using STRING_4 [of "br_init ?f" "[0x89, 0x50, 0x4E, 0x47, 0x0D, 0x0A, 0x1A, 0x0A] @ len"] assms
    by (simp add: getChunkAt_def Let_def png_file_def br_init_def)
  moreover have "LONG (br_init ?f) (Some 16) = sint w"
    using LONG_at [of "br_init ?f" "[0x89, 0x50, 0x4E, 0x47, 0x0D, 0x0A, 0x1A, 0x0A] @ len @ js ''IHDR''"] assms
    by (simp add: png_file_def br_init_def)
  moreover have "LONG (br_init ?f) (Some 20) = sint h"
    using LONG_at [of "br_init ?f" "[0x89, 0x50, 0x4E, 0x47, 0x0D, 0x0A, 0x1A, 0x0A] @ len @ js ''IHDR'' @ long_bytes False w"] assms
    by (simp add: png_file_def br_init_def long_bytes_def)
  ultimately show "ImageInfo quotStr ?f = Inr (PngImage \<lparr>png_size = length ?f, png_width = sint w, png_height = sint h\<rparr>)"
    by (simp add: ImageInfo_def new_JPEG_def new_PNG_def png_shorts png_signature_def png_dimensions_def Let_def
        getChunkAt_def numeral_2_eq_2 u)
  have j: "(\<exists>j. new_JPEG quotStr d = Inr j) \<longleftrightarrow> SHORT (br_init d) (Some 0) = 0xFFD8"
    by (auto simp: new_JPEG_def JPEGHeaders_def Let_def split: prod.split)
  then show "(\<exists>j. ImageInfo quotStr d = Inr (JpegImage j)) \<longleftrightarrow> SHORT (br_init d) (Some 0) = 0xFFD8"
    by (auto simp: ImageInfo_def split: sum.split)
  have "(\<exists>p. new_PNG d = Inr p) \<longleftrightarrow> map (\<lambda>i. SHORT (br_init d) (Some i)) [0, 2, 4, 6] = png_signature \<and>
      STRING (br_init d) (Some 12) 4 = js ''IHDR''"
    by (auto simp: new_PNG_def png_signature_def png_dimensions_def getChunkAt_def Let_def u numeral_2_eq_2)
  with j show "ImageInfo quotStr d = Inl e \<longleftrightarrow>
            e = WrongFormat \<and> SHORT (br_init d) (Some 0) \<noteq> 0xFFD8 \<and>
            (map (\<lambda>i. SHORT (br_init d) (Some i)) [0, 2, 4, 6] \<noteq> png_signature \<or>
             STRING (br_init d) (Some 12) 4 \<noteq> js ''IHDR'')" for e
    by (cases "new_JPEG quotStr d"; cases "new_PNG d") (auto simp: ImageInfo_def)
qed

theorem png_info_witness:
  "length [0, 0, 0, 13 :: jchar] = 4 \<and>
   ImageInfo (\<lambda>_ _. []) (png_file [0, 0, 0, 13] 640 480 [8]) =
     Inr (PngImage \<lparr>png_size = 25, png_width = 640, png_height = 480\<rparr>)"
proof -
  have l: "length [0, 0, 0, 13 :: jchar] = 4" by simp
  have "length (png_file [0, 0, 0, 13] 640 480 [8]) = 25" by (simp add: png_file_def long_bytes_def)
  with png_info [OF l, of "\<lambda>_ _. []" 640 480 "[8]"] l show ?thesis by simp
qed

section \<open>Setting a tag\<close>

text \<open>
  Reads that do not touch the four bytes at \<open>v\<close>.  A read at NaN sees the first byte only.
\<close>

definition apart :: "int \<Rightarrow> int \<Rightarrow> pos \<Rightarrow> bool" where
  "apart v len x \<longleftrightarrow> (case x of None \<Rightarrow> v > 0 | Some n \<Rightarrow> n + len \<le> v \<or> v + 4 \<le> n)"

lemma put_LONG_split:
  assumes "0 \<le> v" "v + 4 \<le> int (length (bin r))"
  obtains xs old ys where "bin r = xs @ old @ ys" "length old = 4" "v = int (length xs)"
proof
  show "bin r = take (nat v) (bin r) @ take 4 (drop (nat v) (bin r)) @ drop 4 (drop (nat v) (bin r))"
    by (simp only: append_take_drop_id)
qed (use assms in simp_all)

lemma length_long_bytes [simp]: "length (long_bytes b w) = 4"
  by (simp add: long_bytes_def)

lemma length_put_LONG:
  assumes "0 \<le> v" "v + 4 \<le> int (length (bin r))"
  shows "length (bin (put_LONG v num r)) = length (bin r)"
proof -
  obtain xs old ys where b: "bin r = xs @ old @ ys" "length old = 4" "v = int (length xs)"
    using assms by (rule put_LONG_split)
  then show ?thesis using put_LONG_bytes [OF b] by simp
qed

lemma LONG_put_LONG:
  assumes "0 \<le> v" "v + 4 \<le> int (length (bin r))"
  shows "LONG (put_LONG v num r) (Some v) = sint (word_of_int num :: int32)"
proof -
  obtain xs old ys where b: "bin r = xs @ old @ ys" "length old = 4" "v = int (length xs)"
    using assms by (rule put_LONG_split)
  show ?thesis using LONG_bytes [of _ xs _ ys] by (simp add: put_LONG_bytes [OF b(1,2)] b(3))
qed

lemma code_at_put:
  assumes "0 \<le> v" "v + 4 \<le> int (length (bin r))" "case x of None \<Rightarrow> v > 0 | Some n \<Rightarrow> n < v \<or> v + 4 \<le> n"
  shows "code_at (bin (put_LONG v num r)) x = code_at (bin r) x"
proof -
  obtain xs old ys where b: "bin r = xs @ old @ ys" "length old = 4" "v = int (length xs)"
    using assms(1,2) by (rule put_LONG_split)
  have "bin (put_LONG v num r) = xs @ long_bytes (II r) (word_of_int num) @ ys" using put_LONG_bytes [OF b] by simp
  then show ?thesis
    using b assms(3) by (auto simp: code_at_def Let_def nth_append split: option.splits)
qed

lemma II_put [simp]: "II (put_LONG v num r) = II r"
  by (simp add: put_LONG_def br_write_def putstr_def Let_def)

lemma br_read_put:
  assumes "0 \<le> v" "v + 4 \<le> int (length (bin r))" "apart v (int sz) x"
  shows "br_read (put_LONG v num r) x sz = br_read r x sz"
proof -
  have "code_at (bin (put_LONG v num r)) (pos_add x (int i)) = code_at (bin r) (pos_add x (int i))" if "i \<in> set [0..<sz]" for i
    using that assms by (intro code_at_put) (auto simp: apart_def pos_add_def split: option.splits)
  then show ?thesis unfolding br_read_def II_put by (intro arg_cong [of _ _ sint] fold_cong) auto
qed

text \<open>What an entry of a directory contributes, and the bytes outside the entry that it refers to.\<close>

definition entry_val :: "reader \<Rightarrow> tag_table \<Rightarrow> pos \<Rightarrow> (jstr \<times> exif_val) option" where
  "entry_val r tags2extract tagOffset =
     (case map_of tags2extract (SHORT r tagOffset) of
        None \<Rightarrow> None
      | Some tag \<Rightarrow>
          let type = SHORT r (pos_add tagOffset 2);
              count = LONG r (pos_add tagOffset 4);
              offset = pos_add tagOffset 8
          in if type = 2 then
               Some (tag, XStr (STRING r (if count > 4 then far r offset else offset) (count - 1)))
             else (case tag_values r type count offset of
                     None \<Rightarrow> None
                   | Some values \<Rightarrow> Some (tag, describe tag (if count = 1 then hd values else XArr values))))"

lemma extract_entry_val:
  "extract_entry r ts x h = (case entry_val r ts x of None \<Rightarrow> h | Some (k, v) \<Rightarrow> obj_set h k v)"
  by (simp add: extract_entry_def entry_val_def Let_def split: option.split)

lemma map_of_extractTags:
  "map_of (extractTags r d ts) =
   map_of (rev (List.map_filter (\<lambda>i. entry_val r ts (pos_add d (12 * int i + 2))) [0..<nat (SHORT r d)]))"
proof -
  have "map_of (fold (\<lambda>i. extract_entry r ts (f i)) is h) =
      map_of h ++ map_of (rev (List.map_filter (\<lambda>i. entry_val r ts (f i)) is))" for f :: "nat \<Rightarrow> pos" and "is" h
    by (induction "is" arbitrary: h)
      (auto simp: extract_entry_val List.map_filter_simps fun_eq_iff map_add_def split: option.split)
  then show ?thesis by (simp add: extractTags_def)
qed

definition data_len :: "int \<Rightarrow> int \<Rightarrow> int" where
  "data_len type count =
     (if type = 1 \<or> type = 7 \<or> type = 2 then count else if type = 3 then 2 * count
      else if type = 5 \<or> type = 10 then 4 * count + 4 else 4 * count)"

definition is_far :: "int \<Rightarrow> int \<Rightarrow> bool" where
  "is_far type count \<longleftrightarrow>
     (if type = 1 \<or> type = 7 \<or> type = 2 then count > 4 else if type = 3 then count > 2
      else if type = 4 then count > 1 else True)"

definition entry_clear :: "int \<Rightarrow> reader \<Rightarrow> int \<Rightarrow> bool" where
  "entry_clear v r x \<longleftrightarrow>
     (let type = SHORT r (Some (x + 2)); count = LONG r (Some (x + 4))
      in is_far type count \<longrightarrow> apart v (data_len type count) (far r (Some (x + 8))))"

lemma read_values_put:
  assumes f: "\<And>z. z + L \<le> v \<or> v + 4 \<le> z \<Longrightarrow> f (Some z) = g (Some z)" and "0 \<le> s"
    and "0 < n \<Longrightarrow> base + (n - 1) * s + L \<le> v \<or> v + 4 \<le> base"
  shows "read_values f s n (Some base) = read_values g s n (Some base)"
  unfolding read_values_def
proof (rule map_cong [OF refl])
  fix ii
  assume "ii \<in> set [0..<nat n]"
  then have n: "int ii \<le> n - 1" "0 < n" by auto
  then have "0 \<le> int ii * s" "int ii * s \<le> (n - 1) * s" using assms(2) by (auto intro: mult_right_mono)
  then show "f (pos_add (Some base) (int ii * s)) = g (pos_add (Some base) (int ii * s))"
    using assms(3) [OF n(2)] by (auto simp: pos_add_def intro!: f)
qed

lemma entry_val_put:
  assumes v: "0 \<le> v" "v + 4 \<le> int (length (bin r))" and x: "apart v 12 (Some x)" and c: "entry_clear v r x"
  shows "entry_val (put_LONG v num r) ts (Some x) = entry_val r ts (Some x)"
proof -
  let ?r = "put_LONG v num r"
  note same = br_read_put [OF v, of _ _ num]
  have s: "SHORT ?r (Some x) = SHORT r (Some x)" "SHORT ?r (Some (x + 2)) = SHORT r (Some (x + 2))"
    "LONG ?r (Some (x + 4)) = LONG r (Some (x + 4))" "LONG ?r (Some (x + 8)) = LONG r (Some (x + 8))"
    using x by (auto simp: SHORT_def LONG_def apart_def intro!: same)
  define t where "t = SHORT r (Some (x + 2))"
  define n where "n = LONG r (Some (x + 4))"
  have far: "far ?r (Some (x + 8)) = far r (Some (x + 8))" by (simp add: far_def s)
  obtain y where y: "far r (Some (x + 8)) = Some y" by (simp add: far_def)
  have d: "is_far t n \<Longrightarrow> y + data_len t n \<le> v \<or> v + 4 \<le> y"
    using c by (simp add: entry_clear_def apart_def y t_def n_def)
  have x': "x + 12 \<le> v \<or> v + 4 \<le> x" using x by (simp add: apart_def)
  have rd: "BYTE ?r (Some z) = BYTE r (Some z)" if "z + 1 \<le> v \<or> v + 4 \<le> z" for z
    using that by (auto simp: BYTE_def apart_def intro!: same)
  have str: "STRING ?r (Some z) k = STRING r (Some z) k" if "0 < k \<Longrightarrow> z + k \<le> v \<or> v + 4 \<le> z" for z k
  proof -
    have "br_read ?r (Some (z + int m)) 1 = br_read r (Some (z + int m)) 1" if "m \<in> set [0..<nat k]" for m
    proof -
      have "int m < k" using that by auto
      then show ?thesis using rd [of "z + int m"] \<open>0 < k \<Longrightarrow> z + k \<le> v \<or> v + 4 \<le> z\<close> by (auto simp: BYTE_def)
    qed
    then show ?thesis by (simp add: STRING_def)
  qed
  have rd2: "SHORT ?r (Some z) = SHORT r (Some z)" if "z + 2 \<le> v \<or> v + 4 \<le> z" for z
    using that by (auto simp: SHORT_def apart_def intro!: same)
  have rd4: "LONG ?r (Some z) = LONG r (Some z)" if "z + 4 \<le> v \<or> v + 4 \<le> z" for z
    using that by (auto simp: LONG_def apart_def intro!: same)
  have rd8: "LONG ?r (Some z) = LONG r (Some z)" "LONG ?r (pos_add (Some z) 4) = LONG r (pos_add (Some z) 4)"
    if "z + 8 \<le> v \<or> v + 4 \<le> z" for z
    using that by (auto simp: pos_add_def intro!: rd4)
  have "tag_values ?r t n (Some (x + 8)) = tag_values r t n (Some (x + 8))"
  proof -
    have "read_values (\<lambda>x. XNum (BYTE ?r x)) 1 n (if n > 4 then Some y else Some (x + 8)) =
        read_values (\<lambda>x. XNum (BYTE r x)) 1 n (if n > 4 then Some y else Some (x + 8))" if "t = 1 \<or> t = 7"
      using d x' that by (auto intro!: read_values_put [where L = 1 and v = v] rd simp: is_far_def data_len_def)
    moreover have "read_values (\<lambda>x. XNum (SHORT ?r x)) 2 n (if n > 2 then Some y else Some (x + 8)) =
        read_values (\<lambda>x. XNum (SHORT r x)) 2 n (if n > 2 then Some y else Some (x + 8))" if "t = 3"
      using d x' that by (auto intro!: read_values_put [where L = 2 and v = v] rd2 simp: is_far_def data_len_def)
    moreover have "read_values (\<lambda>x. XNum (LONG ?r x)) 4 n (if n > 1 then Some y else Some (x + 8)) =
        read_values (\<lambda>x. XNum (LONG r x)) 4 n (if n > 1 then Some y else Some (x + 8))" if "t = 4"
      using d x' that by (auto intro!: read_values_put [where L = 4 and v = v] rd4 simp: is_far_def data_len_def)
    moreover have "read_values (\<lambda>x. div_js (LONG ?r x) (LONG ?r (pos_add x 4))) 4 n (Some y) =
        read_values (\<lambda>x. div_js (LONG r x) (LONG r (pos_add x 4))) 4 n (Some y)" if "t = 5 \<or> t = 10"
      using d that by (auto intro!: read_values_put [where L = 8 and v = v] simp: rd8 is_far_def data_len_def)
    moreover have "read_values (\<lambda>x. XNum (LONG ?r x)) 4 n (Some y) = read_values (\<lambda>x. XNum (LONG r x)) 4 n (Some y)" if "t = 9"
      using d that by (auto intro!: read_values_put [where L = 4 and v = v] rd4 simp: is_far_def data_len_def)
    ultimately show ?thesis unfolding tag_values_def far y SLONG_eq_LONG by (simp cong: if_cong split del: if_split)
  qed
  moreover have "STRING ?r (if n > 4 then Some y else Some (x + 8)) (n - 1) =
      STRING r (if n > 4 then Some y else Some (x + 8)) (n - 1)" if "t = 2"
    using d x' that by (auto intro!: str simp: is_far_def data_len_def)
  ultimately show ?thesis
    by (cases "4 < n")
      (simp_all add: entry_val_def pos_add_def s far y Let_def t_def [symmetric] n_def [symmetric] split: option.split)
qed

lemma upt_split: "i < n \<Longrightarrow> [0..<n] = [0..<i] @ i # [Suc i..<n]"
  by (metis le_add_diff_inverse less_imp_le upt_add_eq_append upt_conv_Cons zero_le)

lemma map_filter_append: "List.map_filter f (xs @ ys) = List.map_filter f xs @ List.map_filter f ys"
  by (simp add: List.map_filter_def)

lemma map_filter_cong: "(\<And>x. x \<in> set xs \<Longrightarrow> f x = g x) \<Longrightarrow> List.map_filter f xs = List.map_filter g xs"
  by (induction xs) (auto simp: List.map_filter_simps split: option.split)

text \<open>
  A directory at \<open>d\<close> with one entry for the key of a tag, a single number of four bytes at \<open>v\<close>; no other
  entry refers to these bytes.
\<close>

definition single_long :: "reader \<Rightarrow> int \<Rightarrow> int \<Rightarrow> nat \<Rightarrow> bool" where
  "single_long r d key i \<longleftrightarrow>
     0 \<le> d \<and> int i < SHORT r (Some d) \<and> d + 12 * int i + 14 \<le> int (length (bin r)) \<and>
     (let x = d + 12 * int i + 2
      in SHORT r (Some x) = key \<and> SHORT r (Some (x + 2)) = 4 \<and> LONG r (Some (x + 4)) = 1) \<and>
     (\<forall>j \<in> {0..<nat (SHORT r (Some d))}. j \<noteq> i \<longrightarrow>
        SHORT r (Some (d + 12 * int j + 2)) \<noteq> key \<and> entry_clear (d + 12 * int i + 10) r (d + 12 * int j + 2))"

lemma extractTags_put:
  assumes sl: "single_long r d key i" and key: "map_of ts key = Some tag" "\<And>k. map_of ts k = Some tag \<Longrightarrow> k = key"
    and nodesc: "map_of tagDescs tag = None"
  shows "map_of (extractTags (put_LONG (d + 12 * int i + 10) num r) (Some d) ts) =
    (map_of (extractTags r (Some d) ts))(tag \<mapsto> XNum (sint (word_of_int num :: int32)))"
proof -
  define x where "x = (\<lambda>j. d + 12 * int j + 2)"
  define v where "v = d + 12 * int i + 10"
  let ?r = "put_LONG v num r"
  define n where "n = nat (SHORT r (Some d))"
  have v: "0 \<le> v" "v + 4 \<le> int (length (bin r))" and i: "i < n" "0 \<le> d"
    and e: "SHORT r (Some (x i)) = key" "SHORT r (Some (x i + 2)) = 4" "LONG r (Some (x i + 4)) = 1"
    and others: "\<And>j. j < n \<Longrightarrow> j \<noteq> i \<Longrightarrow> SHORT r (Some (x j)) \<noteq> key \<and> entry_clear v r (x j)"
    using sl by (auto simp: single_long_def Let_def x_def v_def n_def)
  note same = br_read_put [OF v, of _ _ num]
  have n': "SHORT ?r (Some d) = SHORT r (Some d)"
    unfolding SHORT_def by (rule same) (simp add: apart_def v_def)
  have old: "\<exists>w. entry_val r ts (Some (x i)) = Some (tag, w)"
    by (simp add: entry_val_def pos_add_def e key tag_values_def)
  have "SHORT ?r (Some (x i)) = key" "SHORT ?r (Some (x i + 2)) = 4" "LONG ?r (Some (x i + 4)) = 1"
    using e same by (auto simp: SHORT_def LONG_def apart_def v_def x_def)
  moreover have "LONG ?r (Some (x i + 8)) = sint (word_of_int num :: int32)"
  proof -
    have "LONG ?r (Some v) = sint (word_of_int num :: int32)" using v by (rule LONG_put_LONG)
    moreover have "x i + 8 = v" by (simp add: x_def v_def)
    ultimately show ?thesis by simp
  qed
  ultimately have new: "entry_val ?r ts (Some (x i)) = Some (tag, XNum (sint (word_of_int num :: int32)))"
    by (simp add: entry_val_def pos_add_def key tag_values_def read_values_def describe_def nodesc)
  have other_val: "entry_val ?r ts (Some (x j)) = entry_val r ts (Some (x j))" if "j < n" "j \<noteq> i" for j
    using others [OF that] that v by (intro entry_val_put) (auto simp: apart_def x_def v_def)
  have other_tag: "fst kv \<noteq> tag" if "j < n" "j \<noteq> i" "entry_val r ts (Some (x j)) = Some kv" for j kv
    using that others [OF that(1,2)] key(2) by (auto simp: entry_val_def Let_def split: option.splits if_splits)
  have up: "[0..<n] = [0..<i] @ i # [Suc i..<n]" using i(1) by (rule upt_split)
  let ?A = "List.map_filter (\<lambda>j. entry_val r ts (Some (x j))) [0..<i]"
  let ?B = "List.map_filter (\<lambda>j. entry_val r ts (Some (x j))) [Suc i..<n]"
  have same': "List.map_filter (\<lambda>j. entry_val ?r ts (Some (x j))) [0..<i] = ?A"
    "List.map_filter (\<lambda>j. entry_val ?r ts (Some (x j))) [Suc i..<n] = ?B"
    using i by (auto intro!: map_filter_cong other_val)
  have B: "map_of (rev ?B) tag = None"
    unfolding map_of_eq_None_iff using other_tag i(1) by (fastforce simp: List.map_filter_def)
  have px: "pos_add (Some d) (12 * int j + 2) = Some (x j)" for j by (simp add: pos_add_def x_def)
  obtain w where w: "entry_val r ts (Some (x i)) = Some (tag, w)" using old by blast
  have "map_of (extractTags r (Some d) ts) = map_of (rev (?A @ (tag, w) # ?B))"
    by (simp add: map_of_extractTags px n_def [symmetric] up map_filter_append List.map_filter_simps w)
  moreover have "map_of (extractTags ?r (Some d) ts) = map_of (rev (?A @ (tag, XNum (sint (word_of_int num :: int32))) # ?B))"
    by (simp add: map_of_extractTags px n' n_def [symmetric] up map_filter_append List.map_filter_simps new same')
  ultimately show ?thesis using B by (auto simp: fun_eq_iff map_add_def v_def split: option.split)
qed

lemma find_upt_unique:
  assumes "i < n" "P i" "\<And>j. j < n \<Longrightarrow> j \<noteq> i \<Longrightarrow> \<not> P j"
  shows "find P [0..<n] = Some i"
proof -
  have "find P [0..<i] = None" using assms by (auto simp: find_None_iff)
  moreover have "find P (xs @ ys) = (case find P xs of None \<Rightarrow> find P ys | Some x \<Rightarrow> Some x)" for xs ys
    by (induction xs) auto
  moreover have "[0..<n] = [0..<i] @ i # [Suc i..<n]" using assms(1) by (rule upt_split)
  ultimately show ?thesis using assms(2) by simp
qed

lemma exif_tag_keys:
  "map_of exif_tags 0xA002 = Some (js ''PixelXDimension'')" "map_of exif_tags 0xA003 = Some (js ''PixelYDimension'')"
  "map_of exif_tags k = Some (js ''PixelXDimension'') \<Longrightarrow> k = 0xA002"
  "map_of exif_tags k = Some (js ''PixelYDimension'') \<Longrightarrow> k = 0xA003"
  "tag_key exif_tags (js ''PixelXDimension'') = Some 0xA002" "tag_key exif_tags (js ''PixelYDimension'') = Some 0xA003"
  by (simp_all add: exif_tags_def tag_key_def split: if_splits)

lemma pixel_tags_plain:
  "map_of tagDescs (js ''PixelXDimension'') = None" "map_of tagDescs (js ''PixelYDimension'') = None"
  by (simp_all add: tagDescs_def)

lemma pixel_tag:
  assumes "(tag, key) \<in> {(js ''PixelXDimension'', 0xA002), (js ''PixelYDimension'', 0xA003)}"
  shows "map_of exif_tags key = Some tag" "map_of exif_tags k = Some tag \<Longrightarrow> k = key"
    "tag_key exif_tags tag = Some key" "map_of tagDescs tag = None" "tag \<noteq> js ''ExifVersion''"
    "tag = js ''PixelXDimension'' \<or> tag = js ''PixelYDimension''"
proof -
  have c: "tag = js ''PixelXDimension'' \<and> key = 0xA002 \<or> tag = js ''PixelYDimension'' \<and> key = 0xA003"
    using assms by (simp del: js_Cons)
  note del = exif_tag_keys pixel_tags_plain
  show "map_of exif_tags key = Some tag" using c exif_tag_keys(1,2) by metis
  show "map_of exif_tags k = Some tag \<Longrightarrow> k = key" using c exif_tag_keys(3,4) [of k] by metis
  show "tag_key exif_tags tag = Some key" using c exif_tag_keys(5,6) by metis
  show "map_of tagDescs tag = None" using c pixel_tags_plain by metis
  show "tag \<noteq> js ''ExifVersion''" using c by (elim disjE) simp_all
  show "tag = js ''PixelXDimension'' \<or> tag = js ''PixelYDimension''" using c by blast
qed

text \<open>
  C36.  When the Exif directory has exactly one entry for the pixel width or height, a single number of
  four bytes that no other entry refers to, setting it succeeds, keeps the length of the segment, and the
  Exif data read afterwards differs from the Exif data before in exactly this tag, which has the new value
  as a signed 32-bit number.
\<close>

theorem set_exif_read:
  assumes tag: "(tag, key) \<in> {(js ''PixelXDimension'', 0xA002), (js ''PixelYDimension'', 0xA003)}"
    and d: "exifIFD p = Some d" and sl: "single_long (ep_data p) d key i"
  shows "fst (ep_setExif tag num p) \<and>
         length (getBinary (snd (ep_setExif tag num p))) = length (getBinary p) \<and>
         map_of (EXIF (snd (ep_setExif tag num p))) = (map_of (EXIF p))(tag \<mapsto> XNum (sint (word_of_int num :: int32)))"
proof -
  let ?v = "d + 12 * int i + 10"
  let ?p = "p\<lparr>ep_data := put_LONG ?v num (ep_data p)\<rparr>"
  note k = pixel_tag [OF tag]
  have "find_entry (ep_data p) (Some d) (Some key) = Some (d + 12 * int i + 2)"
  proof -
    have px: "pos_add (Some d) (12 * int j + 2) = Some (d + 12 * int j + 2)" for j by (simp add: pos_add_def)
    have "find (\<lambda>j. Some (SHORT (ep_data p) (Some (d + 12 * int j + 2))) = Some key) [0..<nat (SHORT (ep_data p) (Some d))] = Some i"
      by (rule find_upt_unique) (use sl in \<open>auto simp: single_long_def Let_def\<close>)
    then show ?thesis by (simp add: find_entry_def px)
  qed
  moreover have "?v \<noteq> 0" using sl by (auto simp: single_long_def)
  ultimately have "setTag exif_tags (exifIFD p) tag num p = (True, ?p)"
    by (simp add: setTag_def d k(3) pos_add_def add.commute)
  then have set: "ep_setExif tag num p = (True, ?p)"
    using k(6) unfolding ep_setExif_def by metis
  have "length (bin (put_LONG ?v num (ep_data p))) = length (bin (ep_data p))"
    using sl by (intro length_put_LONG) (auto simp: single_long_def)
  moreover have "map_of (EXIF ?p) = (map_of (EXIF p))(tag \<mapsto> XNum (sint (word_of_int num :: int32)))"
    using extractTags_put [OF sl k(1,2,4), of num] k(5)
    by (simp add: EXIF_def Let_def d fun_eq_iff del: js_Cons split: option.split exif_val.split)
  ultimately show ?thesis by (simp add: set getBinary_def)
qed

lemmas read_simps = SHORT_def LONG_def BYTE_def read_2 read_4 pos_add_def byte_shift_def js_shl_def

definition sample_parser :: exif_parser where
  "sample_parser =
     \<lparr>ep_data = \<lparr>II = False, bin = [0, 2, 0xA0, 2, 0, 4, 0, 0, 0, 1, 0, 0, 0, 9, 0xA0, 3, 0, 3, 0, 0, 0, 1, 0, 7, 0, 0]\<rparr>,
      Tiff = None, exifIFD = Some 0, gpsIFD = None\<rparr>"

lemma sample_single_long: "single_long (ep_data sample_parser) 0 0xA002 0"
  by (auto simp: single_long_def sample_parser_def Let_def read_simps entry_clear_def is_far_def less_2_cases_iff)

theorem set_exif_read_witness:
  "single_long (ep_data sample_parser) 0 0xA002 0 \<and>
   map_of (EXIF (snd (ep_setExif (js ''PixelXDimension'') 640 sample_parser))) =
     (map_of (EXIF sample_parser))(js ''PixelXDimension'' \<mapsto> XNum 640)"
proof -
  have d: "exifIFD sample_parser = Some 0" by (simp add: sample_parser_def)
  have t: "(js ''PixelXDimension'', 0xA002) \<in> {(js ''PixelXDimension'', 0xA002 :: int), (js ''PixelYDimension'', 0xA003)}"
    by (simp del: js_Cons)
  show ?thesis using set_exif_read [OF t d sample_single_long, of 640] sample_single_long by (simp del: js_Cons)
qed

section \<open>Behaviours worth knowing\<close>

text \<open>
  Rational values take eight bytes, but the loop advances by four: with the numbers 10/1 and 20/1 the second
  value is the denominator of the first over the numerator of the second.
\<close>

lemma rational_stride:
  "tag_values \<lparr>II = False, bin = [255, 255, 255, 250, 0, 0, 0, 10, 0, 0, 0, 1, 0, 0, 0, 20, 0, 0, 0, 1]\<rparr> 5 2 (Some 0) =
   Some [XNum 10, XQuot 1 20]"
  by code_simp

text \<open>A single signed number is stored in the entry, but it is read where it points to.\<close>

lemma slong_not_inline: "tag_values \<lparr>II = False, bin = [0, 0, 0, 5]\<rparr> 9 1 (Some 0) = Some [XNum 0]"
  by code_simp

text \<open>
  A dimension that is stored as a number of two bytes, which the standard allows, reads as 0 after it was
  set in the big-endian order, because four bytes are written.
\<close>

lemma set_short_dimension:
  "SHORT \<lparr>II = False, bin = [0, 7, 0, 0]\<rparr> (Some 0) = 7"
  "SHORT (put_LONG 0 480 \<lparr>II = False, bin = [0, 7, 0, 0]\<rparr>) (Some 0) = 0"
  by code_simp+

text \<open>\<open>writeHeaders\<close> without argument puts the headers into a file that still has them.\<close>

lemma writeHeaders_duplicates:
  assumes "list_all seg_ok segs" and "tail_ok rest" and "new_JPEG quotStr (jpeg_file segs rest) = Inr j"
  shows "fst (writeHeaders None j) = jpeg_file (put_back (filter is_app segs) segs) rest"
  using assms restore_file [OF assms(1,2), of "headers_at 2 segs" "filter is_app segs"] headers_at_segments [where i = 2 and segs = segs]
  by (auto simp: new_JPEG_def writeHeaders_def Let_def JPEGHeaders_file [OF assms(1,2)] split: if_splits prod.splits)

text \<open>Setting Exif data of an image changes its first APP1 header to the segment of the parser.\<close>

lemma setExif_header:
  assumes "hasExif j" and "get_headers (js ''app1'') (jp_headers j) = s # ss"
  shows "get_headers (js ''app1'') (jp_headers (jpeg_setExif tags j)) = getBinary (jp_parser (jpeg_setExif tags j)) # ss"
proof -
  let ?n = "map toUpper (js ''app1'')" and ?b = "getBinary (jp_parser (jpeg_setExif tags j))"
  have "\<exists>hs. set_loop name [b] hs0 = Inr hs" for name b hs0
    by (induction name "[b]" hs0 rule: set_loop.induct) (auto simp: Let_def)
  then obtain hs where hs: "set_headers (js ''app1'') [?b] (jp_headers j) = Inr hs" unfolding set_headers_def by blast
  then have "jp_headers (jpeg_setExif tags j) = hs" using assms(1) by (simp add: jpeg_setExif_def Let_def)
  moreover have "length (filter (\<lambda>h. seg_name h = ?n) (jp_headers j)) = Suc (length ss)"
    using assms(2) by (metis get_headers_def length_Cons length_map)
  then have "map segment (filter (\<lambda>h. seg_name h = ?n) hs) = ?b # ss"
    using set_loop_segments [of ?n "[?b]" "jp_headers j" hs] hs assms(2)
    by (simp add: set_headers_def get_headers_def Let_def)
  ultimately show ?thesis by (simp add: get_headers_def)
qed

end
