(* ===== verification/JS_Objects.thy ===== *)
theory JS_Objects
  imports HB_Utils
begin

text \<open>
  Reading properties of ordinary objects and splitting strings, as the upload libraries do it: an
  object gives the members of \<open>Object.prototype\<close> for names that it does not have itself, and strings
  are split at a character or at commas with the white space around them.
\<close>

section \<open>Properties\<close>

datatype 'v member = Own 'v | Inherited jstr

definition read_prop :: "(jstr \<times> 'v) list \<Rightarrow> jstr \<Rightarrow> 'v member option" where
  "read_prop ob k =
     (case map_of ob k of
        Some v \<Rightarrow> Some (Own v)
      | None \<Rightarrow> if k \<in> set object_prototype then Some (Inherited k) else None)"

text \<open>An assignment of a value that is no object to \<open>__proto__\<close> has no effect.\<close>

definition put_prop :: "(jstr \<times> 'v) list \<Rightarrow> jstr \<Rightarrow> 'v \<Rightarrow> (jstr \<times> 'v) list" where
  "put_prop ob k v = (if k = js ''__proto__'' then ob else obj_set ob k v)"

lemma map_of_put_prop [simp]:
  "map_of (put_prop ob k v) = (if k = js ''__proto__'' then map_of ob else (map_of ob)(k \<mapsto> v))"
  by (simp add: put_prop_def del: js_Cons)

lemma read_prop_Own [simp]: "read_prop ob k = Some (Own v) \<longleftrightarrow> map_of ob k = Some v"
  by (auto simp: read_prop_def split: option.splits)

section \<open>Splitting\<close>

fun split_on :: "jchar \<Rightarrow> jstr \<Rightarrow> jstr list" where
  "split_on c [] = [[]]"
| "split_on c (x # xs) =
     (if x = c then [] # split_on c xs
      else (case split_on c xs of [] \<Rightarrow> [[x]] | p # ps \<Rightarrow> (x # p) # ps))"

text \<open>The pieces at commas lose the white space next to a comma.\<close>

fun trim_pieces :: "bool \<Rightarrow> jstr list \<Rightarrow> jstr list" where
  "trim_pieces first [] = []"
| "trim_pieces first (p # ps) =
     (let q = (if first then p else trim_left p)
      in (if ps = [] then q else trim_right q) # trim_pieces False ps)"

definition split_commas :: "jstr \<Rightarrow> jstr list" where
  "split_commas s = trim_pieces True (split_on 44 s)"

lemma split_on_not_Nil [simp]: "split_on c s \<noteq> []"
  by (induction s) (auto split: list.splits)

lemma split_on_free: "c \<notin> set s \<Longrightarrow> split_on c s = [s]"
  by (induction s) auto

lemma split_on_append: "c \<notin> set p \<Longrightarrow> split_on c (p @ c # s) = p # split_on c s"
  by (induction p) auto

lemma split_on_pieces: "p \<in> set (split_on c s) \<Longrightarrow> c \<notin> set p \<and> set p \<subseteq> set s"
proof (induction s arbitrary: p)
  case (Cons x xs)
  obtain q qs where q: "split_on c xs = q # qs" by (cases "split_on c xs") auto
  show ?case using Cons.IH [of p] Cons.IH [of q] Cons.prems by (auto simp: q split: if_splits)
qed simp

lemma split_on_join:
  "ps \<noteq> [] \<Longrightarrow> \<forall>p \<in> set ps. c \<notin> set p \<Longrightarrow> split_on c (join ps [c]) = ps"
  by (induction ps "[c]" rule: join.induct) (auto simp: split_on_free split_on_append)

lemma join_split_on: "join (split_on c s) [c] = s"
proof (induction s)
  case (Cons x xs)
  then show ?case by (cases "split_on c xs"; cases "tl (split_on c xs)") auto
qed simp

lemma length_trim_pieces [simp]: "length (trim_pieces b ps) = length ps"
  by (induction b ps rule: trim_pieces.induct) (auto simp: Let_def)

lemma trim_free: "\<forall>c \<in> set s. \<not> js_space c \<Longrightarrow> trim_left s = s \<and> trim_right s = s"
proof -
  have "dropWhile js_space t = t" if "\<forall>c \<in> set t. \<not> js_space c" for t using that by (cases t) auto
  from this [of s] this [of "rev s"] show "\<forall>c \<in> set s. \<not> js_space c \<Longrightarrow> ?thesis"
    by (simp add: trim_left_def trim_right_def)
qed

lemma trim_pieces_free: "\<forall>p \<in> set ps. \<forall>c \<in> set p. \<not> js_space c \<Longrightarrow> trim_pieces b ps = ps"
  by (induction b ps rule: trim_pieces.induct) (auto simp: Let_def trim_free)

lemma split_commas_join:
  "ps \<noteq> [] \<Longrightarrow> \<forall>p \<in> set ps. \<forall>c \<in> set p. c \<noteq> 44 \<and> \<not> js_space c \<Longrightarrow> split_commas (join ps [44]) = ps"
  unfolding split_commas_def by (subst split_on_join) (auto intro!: trim_pieces_free)

end
