(* ===== verification/Url.thy ===== *)
theory Url
  imports JS_Objects Moxie
begin

text \<open>
  Addresses in \<open>resources/plugins/oss/lib/plupload-2.1.2/js/moxie.js\<close>: the module \<open>Url\<close> (lines 4049 to 4162).

  The address of the page, \<open>document.location.href\<close>, is a parameter; it is absolute.  The regular expression
  is given by the parts it takes from the front; where a part could match in several ways, backtracking changes
  nothing, because all that follows may be empty.  Schemes are not named like members of \<open>Object.prototype\<close>.
  The port is the number that its digits denote; in the code it is a double, which is this number below \<open>2 ^ 53\<close>
  and rounded from there on, so that what is proved is stated for smaller ports.
\<close>

section \<open>The parts of an address\<close>

text \<open>Parts that are empty are not set; the port is a number in the end.\<close>

record uri =
  u_scheme :: "jstr option"
  u_user :: "jstr option"
  u_pass :: "jstr option"
  u_host :: "jstr option"
  u_portText :: "jstr option"
  u_port :: int
  u_path :: "jstr option"
  u_query :: "jstr option"
  u_fragment :: "jstr option"

definition nonempty :: "jstr \<Rightarrow> jstr option" where
  "nonempty s = (if s = [] then None else Some s)"

definition scheme_part :: "jstr \<Rightarrow> jstr \<times> jstr" where
  "scheme_part s =
     (let a = takeWhile (\<lambda>c. c \<notin> {58, 47, 63, 35}) s; r = dropWhile (\<lambda>c. c \<notin> {58, 47, 63, 35}) s
      in if a \<noteq> [] \<and> r \<noteq> [] \<and> hd r = 58 then (a, tl r) else ([], s))"

text \<open>User and password, if an at sign follows them.\<close>

definition user_part :: "jstr \<Rightarrow> (jstr \<times> jstr) \<times> jstr" where
  "user_part s =
     (let u = takeWhile (\<lambda>c. c \<noteq> 58 \<and> c \<noteq> 64) s; r = dropWhile (\<lambda>c. c \<noteq> 58 \<and> c \<noteq> 64) s;
          r = (if r \<noteq> [] \<and> hd r = 58 then tl r else r);
          p = takeWhile (\<lambda>c. c \<noteq> 58 \<and> c \<noteq> 64) r; q = dropWhile (\<lambda>c. c \<noteq> 58 \<and> c \<noteq> 64) r
      in if q \<noteq> [] \<and> hd q = 64 then ((u, p), tl q) else (([], []), s))"

definition port_part :: "jstr \<Rightarrow> jstr \<times> jstr" where
  "port_part s =
     (if s \<noteq> [] \<and> hd s = 58 then (takeWhile is_digit (tl s), dropWhile is_digit (tl s)) else ([], s))"

definition authority_part :: "jstr \<Rightarrow> (jstr \<times> jstr \<times> jstr \<times> jstr) \<times> jstr" where
  "authority_part s =
     (if take 2 s = [47, 47] then
        let ((u, p), r) = user_part (drop 2 s);
            h = takeWhile (\<lambda>c. c \<notin> {58, 47, 63, 35}) r;
            (t, r') = port_part (dropWhile (\<lambda>c. c \<notin> {58, 47, 63, 35}) r)
        in ((u, p, h, t), r')
      else (([], [], [], []), s))"

text \<open>The query keeps its question mark: what is optional in front of it is a backslash.\<close>

definition query_part :: "jstr \<Rightarrow> jstr \<times> jstr" where
  "query_part s =
     (let r = (if s \<noteq> [] \<and> hd s = 92 then tl s else s) in (takeWhile (\<lambda>c. c \<noteq> 35) r, dropWhile (\<lambda>c. c \<noteq> 35) r))"

definition line_end :: "jchar \<Rightarrow> bool" where
  "line_end c \<longleftrightarrow> c \<in> {10, 13, 0x2028, 0x2029}"

definition fragment_part :: "jstr \<Rightarrow> jstr" where
  "fragment_part s = (if s \<noteq> [] \<and> hd s = 35 then takeWhile (\<lambda>c. \<not> line_end c) (tl s) else [])"

definition url_match :: "jstr \<Rightarrow> uri" where
  "url_match url =
     (let (scheme, r) = scheme_part url;
          ((user, pass, host, port), r) = authority_part r;
          path = takeWhile (\<lambda>c. c \<noteq> 63 \<and> c \<noteq> 35) r;
          (query, r) = query_part (dropWhile (\<lambda>c. c \<noteq> 63 \<and> c \<noteq> 35) r)
      in \<lparr>u_scheme = nonempty scheme, u_user = nonempty user, u_pass = nonempty pass, u_host = nonempty host,
          u_portText = nonempty port, u_port = 0, u_path = nonempty path, u_query = nonempty query,
          u_fragment = nonempty (fragment_part r)\<rparr>)"

section \<open>parseUrl\<close>

definition default_ports :: "(jstr \<times> int) list" where
  "default_ports = [(js ''http'', 80), (js ''https'', 443)]"

definition scheme_port :: "jstr option \<Rightarrow> int option" where
  "scheme_port s = (case s of None \<Rightarrow> None | Some k \<Rightarrow> map_of default_ports k)"

text \<open>The end of the function: the port and the path.\<close>

definition finish_url :: "uri \<Rightarrow> uri" where
  "finish_url u =
     u\<lparr>u_port := (case u_portText u of
                    Some t \<Rightarrow> decimal t
                  | None \<Rightarrow> (case scheme_port (u_scheme u) of Some n \<Rightarrow> n | None \<Rightarrow> 80)),
       u_path := (case u_path u of Some p \<Rightarrow> Some p | None \<Rightarrow> Some [47])\<rparr>"

text \<open>Whether a path ends with a slash, or with a slash and characters that are no dots.\<close>

definition ends_plain :: "jstr \<Rightarrow> bool" where
  "ends_plain path \<longleftrightarrow>
     47 \<in> set path \<and> (46 \<notin> set (takeWhile (\<lambda>c. c \<noteq> 47) (rev path)))"

definition strip_name :: "jstr \<Rightarrow> jstr" where
  "strip_name path =
     (if 47 \<in> set path \<and> last path \<noteq> 47 then rev (dropWhile (\<lambda>c. c \<noteq> 47) (rev path)) else path)"

definition base_path :: "jstr \<Rightarrow> jstr" where
  "base_path path = (if \<not> ends_plain path then strip_name path else path @ [47])"

text \<open>
  A relative address takes scheme, host and port from the current one, which here is parsed.  Testing a path
  that is not set tests the text \<open>undefined\<close>, which does not begin with a slash.
\<close>

definition relative_to :: "uri \<Rightarrow> uri \<Rightarrow> uri" where
  "relative_to current u =
     (let path = (case u_path u of
                    Some (c # cs) \<Rightarrow> if c \<noteq> 47 then base_path (the (u_path current)) else []
                  | _ \<Rightarrow> base_path (the (u_path current)))
      in u\<lparr>u_scheme := u_scheme current, u_host := u_host current,
           u_portText := (if u_port current = 0 then None else Some (intToString (u_port current))),
           u_path := nonempty (path @ (case u_path u of Some p \<Rightarrow> p | None \<Rightarrow> []))\<rparr>)"

definition current_uri :: "jstr \<Rightarrow> uri" where
  "current_uri location = finish_url (url_match location)"

definition parseUrl :: "jstr \<Rightarrow> jstr \<Rightarrow> uri" where
  "parseUrl location url =
     (let u = url_match url
      in finish_url (if u_scheme u = None then relative_to (current_uri location) u else u))"

section \<open>resolveUrl and hasSameOrigin\<close>

definition text_of :: "jstr option \<Rightarrow> jstr" where
  "text_of s = (case s of Some t \<Rightarrow> t | None \<Rightarrow> js ''undefined'')"

definition resolveUrl :: "jstr \<Rightarrow> jstr \<Rightarrow> jstr" where
  "resolveUrl location url =
     (let u = parseUrl location url
      in text_of (u_scheme u) @ js ''://'' @ text_of (u_host u) @
         (if Some (u_port u) \<noteq> scheme_port (u_scheme u) then 58 # intToString (u_port u) else []) @
         text_of (u_path u) @ (case u_query u of Some q \<Rightarrow> q | None \<Rightarrow> []))"

definition origin :: "uri \<Rightarrow> jstr" where
  "origin u = join [case u_scheme u of Some s \<Rightarrow> s | None \<Rightarrow> [], case u_host u of Some h \<Rightarrow> h | None \<Rightarrow> [], intToString (u_port u)] [47]"

definition hasSameOrigin :: "jstr \<Rightarrow> uri \<Rightarrow> bool" where
  "hasSameOrigin location u \<longleftrightarrow> origin (parseUrl location []) = origin u"

section \<open>Absolute addresses\<close>

text \<open>An address put together from its parts.\<close>

definition assemble :: "jstr \<Rightarrow> jstr \<Rightarrow> jstr option \<Rightarrow> jstr \<Rightarrow> jstr \<Rightarrow> jstr option \<Rightarrow> jstr" where
  "assemble scheme host port path query fragment =
     scheme @ [58, 47, 47] @ host @ (case port of Some t \<Rightarrow> 58 # t | None \<Rightarrow> []) @ path @ query @
     (case fragment of Some f \<Rightarrow> 35 # f | None \<Rightarrow> [])"

definition name_ok :: "jstr \<Rightarrow> bool" where
  "name_ok s \<longleftrightarrow> s \<noteq> [] \<and> set s \<inter> {58, 47, 63, 35, 64} = {}"

definition parts_ok :: "jstr \<Rightarrow> jstr \<Rightarrow> jstr option \<Rightarrow> jstr \<Rightarrow> jstr \<Rightarrow> jstr option \<Rightarrow> bool" where
  "parts_ok scheme host port path query fragment \<longleftrightarrow>
     name_ok scheme \<and> name_ok host \<and>
     (case port of Some t \<Rightarrow> t \<noteq> [] \<and> list_all is_digit t \<and> decimal t < 2 ^ 53 | None \<Rightarrow> True) \<and>
     path \<noteq> [] \<and> hd path = 47 \<and> set path \<inter> {63, 35, 64} = {} \<and>
     (query = [] \<or> hd query = 63) \<and> set query \<inter> {35, 64} = {} \<and>
     (case fragment of Some f \<Rightarrow> f \<noteq> [] \<and> 64 \<notin> set f \<and> (\<forall>c \<in> set f. \<not> line_end c) | None \<Rightarrow> True)"

lemma span_append:
  "\<forall>c \<in> set a. P c \<Longrightarrow> b = [] \<or> \<not> P (hd b) \<Longrightarrow> takeWhile P (a @ b) = a \<and> dropWhile P (a @ b) = b"
  by (cases b) (auto simp: takeWhile_append dropWhile_append)

lemma not_in_dropWhile: "x \<notin> set t \<Longrightarrow> x \<notin> set (dropWhile A t)"
  using set_dropWhileD by metis

lemma not_in_tl: "x \<notin> set t \<Longrightarrow> x \<notin> set (tl t)"
  by (cases t) auto

lemma not_hd: "x \<notin> set t \<Longrightarrow> \<not> (t \<noteq> [] \<and> hd t = x)"
  by (cases t) auto

lemma user_part_none: "64 \<notin> set s \<Longrightarrow> user_part s = (([], []), s)"
proof -
  assume s: "64 \<notin> set s"
  define r where "r = dropWhile (\<lambda>c. c \<noteq> 58 \<and> c \<noteq> 64) s"
  define r2 where "r2 = (if r \<noteq> [] \<and> hd r = 58 then tl r else r)"
  have "64 \<notin> set r" unfolding r_def by (rule not_in_dropWhile [OF s])
  then have "64 \<notin> set r2" unfolding r2_def by (simp add: not_in_tl)
  then have "\<not> (dropWhile (\<lambda>c. c \<noteq> 58 \<and> c \<noteq> 64) r2 \<noteq> [] \<and> hd (dropWhile (\<lambda>c. c \<noteq> 58 \<and> c \<noteq> 64) r2) = 64)"
    by (intro not_hd not_in_dropWhile)
  then show ?thesis unfolding user_part_def Let_def r_def [symmetric] r2_def [symmetric] by (simp only: if_False)
qed

lemma digit_not_slash: "is_digit c \<Longrightarrow> c \<noteq> 64 \<and> c \<noteq> 47"
  by (auto simp: is_digit_def)

lemma url_match_assemble:
  assumes "parts_ok scheme host port path query fragment"
  shows "url_match (assemble scheme host port path query fragment) =
    \<lparr>u_scheme = Some scheme, u_user = None, u_pass = None, u_host = Some host, u_portText = port, u_port = 0,
     u_path = Some path, u_query = nonempty query, u_fragment = fragment\<rparr>"
proof -
  let ?f = "case fragment of Some f \<Rightarrow> 35 # f | None \<Rightarrow> []"
  let ?p = "case port of Some t \<Rightarrow> 58 # t | None \<Rightarrow> []"
  let ?r = "path @ query @ ?f"
  have ok: "name_ok scheme" "name_ok host" "path \<noteq> []" "hd path = 47" "set path \<inter> {63, 35, 64} = {}"
      "query = [] \<or> hd query = 63" "set query \<inter> {35, 64} = {}"
    using assms by (auto simp: parts_ok_def)
  have fr: "?f = [] \<or> hd ?f = 35" by (cases fragment) auto
  have sp: "scheme_part (scheme @ 58 # r) = (scheme, r)" for r
  proof -
    have "\<forall>c \<in> set scheme. c \<notin> {58, 47, 63, 35}" using ok(1) by (auto simp: name_ok_def)
    then have t: "takeWhile (\<lambda>c. c \<notin> {58, 47, 63, 35}) (scheme @ 58 # r) = scheme"
        "dropWhile (\<lambda>c. c \<notin> {58, 47, 63, 35}) (scheme @ 58 # r) = 58 # r"
      using span_append [of scheme "\<lambda>c. c \<notin> {58, 47, 63, 35}" "58 # r"] by auto
    show ?thesis unfolding scheme_part_def Let_def t using ok(1) by (simp add: name_ok_def)
  qed
  have "64 \<notin> set (host @ ?p @ ?r)"
    using assms digit_not_slash by (auto simp: parts_ok_def name_ok_def list_all_iff split: option.splits)
  then have up: "user_part (host @ ?p @ ?r) = (([], []), host @ ?p @ ?r)" by (rule user_part_none)
  have h: "takeWhile (\<lambda>c. c \<notin> {58, 47, 63, 35}) (host @ ?p @ ?r) = host \<and>
      dropWhile (\<lambda>c. c \<notin> {58, 47, 63, 35}) (host @ ?p @ ?r) = ?p @ ?r"
    using ok(2-4) by (intro span_append) (auto simp: name_ok_def hd_append split: option.splits)
  have pp: "port_part (?p @ ?r) = (case port of Some t \<Rightarrow> t | None \<Rightarrow> [], ?r)"
  proof (cases port)
    case None
    then show ?thesis using ok(3,4) by (cases path) (auto simp: port_part_def)
  next
    case (Some t)
    then have "\<forall>c \<in> set t. is_digit c" using assms by (auto simp: parts_ok_def list_all_iff)
    moreover have "\<not> is_digit (hd ?r)" using ok(3,4) by (cases path) (auto simp: is_digit_def)
    ultimately have "takeWhile is_digit (t @ ?r) = t \<and> dropWhile is_digit (t @ ?r) = ?r" by (intro span_append) auto
    then show ?thesis by (simp add: Some port_part_def)
  qed
  have ap: "authority_part (47 # 47 # host @ ?p @ ?r) = (([], [], host, case port of Some t \<Rightarrow> t | None \<Rightarrow> []), ?r)"
    using up h pp by (simp add: authority_part_def Let_def)
  have path: "takeWhile (\<lambda>c. c \<noteq> 63 \<and> c \<noteq> 35) ?r = path \<and> dropWhile (\<lambda>c. c \<noteq> 63 \<and> c \<noteq> 35) ?r = query @ ?f"
    using ok(5,6) fr by (intro span_append) (auto simp: hd_append)
  have "takeWhile (\<lambda>c. c \<noteq> 35) (query @ ?f) = query \<and> dropWhile (\<lambda>c. c \<noteq> 35) (query @ ?f) = ?f"
    using ok(7) fr by (intro span_append) auto
  moreover have "query @ ?f = [] \<or> hd (query @ ?f) \<noteq> 92" using ok(6) fr by (auto simp: hd_append)
  ultimately have q: "query_part (query @ ?f) = (query, ?f)" by (auto simp: query_part_def)
  have "fragment_part ?f = (case fragment of Some f \<Rightarrow> f | None \<Rightarrow> [])"
    using assms by (auto simp: fragment_part_def parts_ok_def takeWhile_eq_all_conv split: option.splits)
  moreover have "nonempty (case fragment of Some f \<Rightarrow> f | None \<Rightarrow> []) = fragment"
      "nonempty (case port of Some t \<Rightarrow> t | None \<Rightarrow> []) = port"
    using assms by (auto simp: nonempty_def parts_ok_def split: option.splits)
  moreover have "nonempty scheme = Some scheme" "nonempty host = Some host" "nonempty path = Some path" "nonempty [] = None"
    using ok(1-3) by (auto simp: nonempty_def name_ok_def)
  ultimately show ?thesis
    unfolding url_match_def assemble_def using sp [of "47 # 47 # host @ ?p @ ?r"] ap path q by simp
qed

definition port_number :: "jstr \<Rightarrow> jstr option \<Rightarrow> int" where
  "port_number scheme port =
     (case port of Some t \<Rightarrow> decimal t | None \<Rightarrow> (case map_of default_ports scheme of Some n \<Rightarrow> n | None \<Rightarrow> 80))"

definition port_shown :: "jstr \<Rightarrow> int \<Rightarrow> jstr option" where
  "port_shown scheme n = (if Some n \<noteq> map_of default_ports scheme then Some (intToString n) else None)"

lemma decimal_nonneg: "list_all is_digit t \<Longrightarrow> 0 \<le> decimal t"
proof (induction t rule: rev_induct)
  case (snoc d t)
  then have "0 \<le> uint d - 48" by (auto simp: is_digit_def word_le_def)
  with snoc show ?case by (simp add: decimal_append)
qed (simp add: decimal_def)

lemma port_number_nonneg: "parts_ok scheme host port path query fragment \<Longrightarrow> 0 \<le> port_number scheme port"
  by (auto simp: port_number_def parts_ok_def decimal_nonneg default_ports_def split: option.splits)

lemma port_number_exact: "parts_ok scheme host port path query fragment \<Longrightarrow> port_number scheme port < 2 ^ 53"
  by (auto simp: port_number_def parts_ok_def default_ports_def split: option.splits)

lemma intToString_digits: "0 \<le> n \<Longrightarrow> intToString n \<noteq> [] \<and> list_all is_digit (intToString n) \<and> decimal (intToString n) = n"
  using natToString_digits [of "nat n"] by (simp add: intToString_def)

lemma parts_ok_shown:
  "parts_ok scheme host port path query fragment \<Longrightarrow>
   parts_ok scheme host (port_shown scheme (port_number scheme port)) path query None"
  using port_number_nonneg [of scheme host port path query fragment] port_number_exact [of scheme host port path query fragment]
    intToString_digits [of "port_number scheme port"]
  by (auto simp: parts_ok_def port_shown_def)

lemma parseUrl_assemble:
  assumes "parts_ok scheme host port path query fragment"
  shows "parseUrl location (assemble scheme host port path query fragment) =
    \<lparr>u_scheme = Some scheme, u_user = None, u_pass = None, u_host = Some host, u_portText = port,
     u_port = port_number scheme port, u_path = Some path, u_query = nonempty query, u_fragment = fragment\<rparr>"
  using url_match_assemble [OF assms]
  by (simp add: parseUrl_def finish_url_def port_number_def scheme_port_def split: option.splits)

lemma resolveUrl_assemble:
  assumes "parts_ok scheme host port path query fragment"
  shows "resolveUrl location (assemble scheme host port path query fragment) =
    assemble scheme host (port_shown scheme (port_number scheme port)) path query None"
  unfolding resolveUrl_def parseUrl_assemble [OF assms]
  by (simp add: assemble_def text_of_def scheme_port_def port_shown_def nonempty_def)

text \<open>
  C34.  An absolute address that is put together from its parts, none of them with an at sign and the port below
  \<open>2 ^ 53\<close>, is taken apart into these parts, with the port as a number or the default of the scheme; resolving it
  drops the fragment and a port that is the default of the scheme and keeps the rest, and resolving it again
  changes nothing.
\<close>

theorem url_parts:
  assumes "parts_ok scheme host port path query fragment"
  defines "url \<equiv> assemble scheme host port path query fragment"
  shows "parseUrl location url =
      \<lparr>u_scheme = Some scheme, u_user = None, u_pass = None, u_host = Some host, u_portText = port,
       u_port = port_number scheme port, u_path = Some path, u_query = nonempty query, u_fragment = fragment\<rparr> \<and>
    resolveUrl location url = assemble scheme host (port_shown scheme (port_number scheme port)) path query None \<and>
    resolveUrl location (resolveUrl location url) = resolveUrl location url"
proof -
  let ?s = "port_shown scheme (port_number scheme port)"
  have n: "0 \<le> port_number scheme port" using port_number_nonneg [OF assms(1)] .
  have "port_number scheme ?s = port_number scheme port"
    using intToString_digits [OF n] by (auto simp: port_shown_def port_number_def split: option.splits)
  then have "resolveUrl location (assemble scheme host ?s path query None) = assemble scheme host ?s path query None"
    using resolveUrl_assemble [OF parts_ok_shown [OF assms(1)]] by simp
  then show ?thesis using parseUrl_assemble [OF assms(1)] resolveUrl_assemble [OF assms(1)] by (simp add: url_def)
qed

theorem url_parts_witness:
  "parseUrl (js ''http://site.com/'') (js ''https://site.com:8080/dir/a.html?x=1#top'') =
     \<lparr>u_scheme = Some (js ''https''), u_user = None, u_pass = None, u_host = Some (js ''site.com''),
      u_portText = Some (js ''8080''), u_port = 8080, u_path = Some (js ''/dir/a.html''),
      u_query = Some (js ''?x=1''), u_fragment = Some (js ''top'')\<rparr>"
proof -
  let ?u = "assemble (js ''https'') (js ''site.com'') (Some (js ''8080'')) (js ''/dir/a.html'') (js ''?x=1'') (Some (js ''top''))"
  have ok: "parts_ok (js ''https'') (js ''site.com'') (Some (js ''8080'')) (js ''/dir/a.html'') (js ''?x=1'') (Some (js ''top''))"
    by (simp add: parts_ok_def name_ok_def is_digit_def line_end_def decimal_def)
  have "?u = js ''https://site.com:8080/dir/a.html?x=1#top''" by (simp add: assemble_def)
  moreover have "port_number (js ''https'') (Some (js ''8080'')) = 8080" by (simp add: port_number_def decimal_def)
  moreover have "nonempty (js ''?x=1'') = Some (js ''?x=1'')" by (simp add: nonempty_def)
  ultimately show ?thesis using conjunct1 [OF url_parts [OF ok, of "js ''http://site.com/''"]] by (simp only:)
qed

section \<open>Addresses that are misread\<close>

definition page :: jstr where
  "page = js ''http://site.com/dir/''"

text \<open>
  An address without a scheme but with a host is taken to be on the host of the page; an at sign in a query makes
  what follows it the host; and a name relative to a directory gets a second slash.
\<close>

lemma url_misread:
  "resolveUrl page (js ''//evil.com/x'') = js ''http://site.com/x''"
  "hasSameOrigin page (parseUrl page (js ''//evil.com/x''))"
  "u_host (parseUrl page (js ''http://site.com/?a=@evil.com'')) = Some (js ''evil.com'')"
  "resolveUrl page (js ''a.html'') = js ''http://site.com/dir//a.html''"
  by code_simp+

end
