(* ===== verification/MoxieEncode.thy ===== *)
theory MoxieEncode
  imports Base64
begin

text \<open>
  Encodings in \<open>resources/plugins/oss/lib/plupload-2.1.2/js/moxie.js\<close>: the module \<open>Encode\<close> (lines 2018 to
  2180), over the standard functions \<open>encodeURIComponent\<close>, \<open>decodeURIComponent\<close>, \<open>escape\<close> and \<open>unescape\<close>.

  The standard functions throw a \<open>URIError\<close>, here \<open>None\<close>, on text that is not well-formed.  The methods
  \<open>atob\<close> and \<open>btoa\<close> of the window, where there are any, are parameters.
\<close>

section \<open>Standard functions\<close>

definition hexUpper :: "nat \<Rightarrow> jchar" where
  "hexUpper n = of_nat (if n < 10 then 48 + n else 55 + n)"

definition hexVal :: "jchar \<Rightarrow> nat option" where
  "hexVal c =
     (let n = unat c
      in if 48 \<le> n \<and> n \<le> 57 then Some (n - 48) else if 65 \<le> n \<and> n \<le> 70 then Some (n - 55)
         else if 97 \<le> n \<and> n \<le> 102 then Some (n - 87) else None)"

definition pct :: "nat \<Rightarrow> jstr" where
  "pct b = [37, hexUpper (b div 16), hexUpper (b mod 16)]"

text \<open>The code points of a string; \<open>None\<close> when a surrogate stands alone.\<close>

definition lead_surrogate :: "nat \<Rightarrow> bool" where
  "lead_surrogate n \<longleftrightarrow> 0xD800 \<le> n \<and> n < 0xDC00"

definition trail_surrogate :: "nat \<Rightarrow> bool" where
  "trail_surrogate n \<longleftrightarrow> 0xDC00 \<le> n \<and> n < 0xE000"

fun code_points :: "jstr \<Rightarrow> nat list option" where
  "code_points [] = Some []"
| "code_points (c # cs) =
     (if trail_surrogate (unat c) then None
      else if lead_surrogate (unat c) then
        (case cs of
           [] \<Rightarrow> None
         | d # ds \<Rightarrow>
             if trail_surrogate (unat d)
             then map_option ((#) ((unat c - 0xD800) * 1024 + (unat d - 0xDC00) + 0x10000)) (code_points ds) else None)
      else map_option ((#) (unat c)) (code_points cs))"

definition code_units :: "nat \<Rightarrow> jstr" where
  "code_units n =
     (if n < 0x10000 then [of_nat n]
      else [of_nat (0xD800 + (n - 0x10000) div 1024), of_nat (0xDC00 + (n - 0x10000) mod 1024)])"

definition utf8_bytes :: "nat \<Rightarrow> nat list" where
  "utf8_bytes n =
     (if n < 0x80 then [n]
      else if n < 0x800 then [0xC0 + n div 64, 0x80 + n mod 64]
      else if n < 0x10000 then [0xE0 + n div 4096, 0x80 + n div 64 mod 64, 0x80 + n mod 64]
      else [0xF0 + n div 262144, 0x80 + n div 4096 mod 64, 0x80 + n div 64 mod 64, 0x80 + n mod 64])"

definition uri_unescaped :: "nat \<Rightarrow> bool" where
  "uri_unescaped n \<longleftrightarrow>
     (48 \<le> n \<and> n \<le> 57) \<or> (65 \<le> n \<and> n \<le> 90) \<or> (97 \<le> n \<and> n \<le> 122) \<or>
     n \<in> {45, 95, 46, 33, 126, 42, 39, 40, 41}"

definition encodeURIComponent :: "jstr \<Rightarrow> jstr option" where
  "encodeURIComponent s =
     map_option
       (\<lambda>ps. concat (map (\<lambda>n. if uri_unescaped n then [of_nat n] else concat (map pct (utf8_bytes n))) ps))
       (code_points s)"

text \<open>One escape sequence at the front, and the continuation bytes of a sequence.\<close>

definition pct_at :: "jstr \<Rightarrow> (nat \<times> jstr) option" where
  "pct_at s =
     (case s of
        p # a # b # rest \<Rightarrow>
          if p = 37 then
            (case (hexVal a, hexVal b) of (Some x, Some y) \<Rightarrow> Some (x * 16 + y, rest) | _ \<Rightarrow> None)
          else None
      | _ \<Rightarrow> None)"

fun continuation :: "nat \<Rightarrow> nat \<Rightarrow> jstr \<Rightarrow> (nat \<times> jstr) option" where
  "continuation 0 n s = Some (n, s)"
| "continuation (Suc k) n s =
     (case pct_at s of
        Some (b, rest) \<Rightarrow> if 0x80 \<le> b \<and> b < 0xC0 then continuation k (n * 64 + (b - 0x80)) rest else None
      | None \<Rightarrow> None)"

definition decode_sequence :: "jstr \<Rightarrow> (jstr \<times> jstr) option" where
  "decode_sequence s =
     (case pct_at s of
        None \<Rightarrow> None
      | Some (b, rest) \<Rightarrow>
          let finish = (\<lambda>low r. case r of
                          Some (n, rest) \<Rightarrow>
                            if low \<le> n \<and> n < 0x110000 \<and> \<not> (0xD800 \<le> n \<and> n < 0xE000) then Some (code_units n, rest) else None
                        | None \<Rightarrow> None)
          in if b < 0x80 then Some ([of_nat b], rest)
             else if 0xC0 \<le> b \<and> b < 0xE0 then finish 0x80 (continuation 1 (b - 0xC0) rest)
             else if 0xE0 \<le> b \<and> b < 0xF0 then finish 0x800 (continuation 2 (b - 0xE0) rest)
             else if 0xF0 \<le> b \<and> b < 0xF8 then finish 0x10000 (continuation 3 (b - 0xF0) rest)
             else None)"

lemma pct_at_length: "pct_at s = Some (b, rest) \<Longrightarrow> length rest < length s"
  by (auto simp: pct_at_def split: list.splits if_splits option.splits)

lemma continuation_length: "continuation k n s = Some (m, rest) \<Longrightarrow> length rest \<le> length s"
proof (induction k arbitrary: n s)
  case (Suc k)
  then obtain b r where "pct_at s = Some (b, r)" "continuation k (n * 64 + (b - 0x80)) r = Some (m, rest)"
    by (auto split: option.splits if_splits)
  with Suc.IH pct_at_length show ?case by fastforce
qed simp

lemma decode_sequence_length: "decode_sequence s = Some (cs, rest) \<Longrightarrow> length rest < length s"
  by (auto simp: decode_sequence_def Let_def split: option.splits if_splits
      dest!: pct_at_length continuation_length)

function decodeURIComponent :: "jstr \<Rightarrow> jstr option" where
  "decodeURIComponent [] = Some []"
| "decodeURIComponent (c # cs) =
     (if c = 37 then
        (case decode_sequence (c # cs) of
           None \<Rightarrow> None
         | Some (us, rest) \<Rightarrow> map_option ((@) us) (decodeURIComponent rest))
      else map_option ((#) c) (decodeURIComponent cs))"
  by pat_completeness auto
termination
  by (relation "measure length") (auto dest: decode_sequence_length)

definition escape_unescaped :: "nat \<Rightarrow> bool" where
  "escape_unescaped n \<longleftrightarrow>
     (48 \<le> n \<and> n \<le> 57) \<or> (65 \<le> n \<and> n \<le> 90) \<or> (97 \<le> n \<and> n \<le> 122) \<or>
     n \<in> {64, 42, 95, 43, 45, 46, 47}"

definition escape_js :: "jstr \<Rightarrow> jstr" where
  "escape_js s =
     concat (map (\<lambda>c. let n = unat c
        in if escape_unescaped n then [c] else if n < 256 then pct n
           else [37, 117, hexUpper (n div 4096), hexUpper (n div 256 mod 16), hexUpper (n div 16 mod 16), hexUpper (n mod 16)]) s)"

definition hex4 :: "jstr \<Rightarrow> (jchar \<times> jstr) option" where
  "hex4 s =
     (case s of
        a # b # c # d # rest \<Rightarrow>
          (case (hexVal a, hexVal b, hexVal c, hexVal d) of
             (Some w, Some x, Some y, Some z) \<Rightarrow> Some (of_nat (w * 4096 + x * 256 + y * 16 + z), rest)
           | _ \<Rightarrow> None)
      | _ \<Rightarrow> None)"

lemma hex4_length: "hex4 s = Some (c, rest) \<Longrightarrow> length rest < length s"
  by (auto simp: hex4_def split: list.splits option.splits)

function unescape_js :: "jstr \<Rightarrow> jstr" where
  "unescape_js [] = []"
| "unescape_js (c # cs) =
     (if c = 37 then
        (case (if cs \<noteq> [] \<and> hd cs = 117 then hex4 (tl cs) else None) of
           Some (u, rest) \<Rightarrow> u # unescape_js rest
         | None \<Rightarrow>
             (case pct_at (c # cs) of
                Some (b, rest) \<Rightarrow> of_nat b # unescape_js rest
              | None \<Rightarrow> c # unescape_js cs))
      else c # unescape_js cs)"
  by pat_completeness auto
termination
  by (relation "measure length") (auto split: if_splits dest!: pct_at_length hex4_length simp: neq_Nil_conv)

section \<open>Encode\<close>

text \<open>\<open>utf8_encode\<close> and \<open>utf8_decode\<close>.\<close>

definition utf8_enc :: "jstr \<Rightarrow> jstr option" where
  "utf8_enc str = map_option unescape_js (encodeURIComponent str)"

definition utf8_dec :: "jstr \<Rightarrow> jstr option" where
  "utf8_dec str_data = decodeURIComponent (escape_js str_data)"

text \<open>\<open>atob\<close>: \<open>charAt\<close> past the end is the empty string, which is found at 0.\<close>

definition atob_group :: "jstr \<Rightarrow> jstr \<Rightarrow> jstr \<Rightarrow> jstr \<Rightarrow> jstr" where
  "atob_group k1 k2 k3 k4 =
     (let h1 = indexOfKey k1; h2 = indexOfKey k2; h3 = indexOfKey k3; h4 = indexOfKey k4;
          bits = js_shl h1 18 OR js_shl h2 12 OR js_shl h3 6 OR h4;
          o1 = js_shr bits 16 AND 0xff;
          o2 = js_shr bits 8 AND 0xff;
          o3 = bits AND 0xff
      in if h3 = 64 then fromCharCode o1 else if h4 = 64 then fromCharCode o1 @ fromCharCode o2
         else fromCharCode o1 @ fromCharCode o2 @ fromCharCode o3)"

function atob_loop :: "jstr \<Rightarrow> nat \<Rightarrow> jstr \<Rightarrow> jstr" where
  "atob_loop s i acc =
     (let acc = acc @ atob_group (charAt s i) (charAt s (i + 1)) (charAt s (i + 2)) (charAt s (i + 3))
      in if i + 4 < length s then atob_loop s (i + 4) acc else acc)"
  by auto
termination by (relation "measure (\<lambda>(s, i, _). length s - i)") auto

declare atob_loop.simps [simp del]

definition atob :: "(jstr \<Rightarrow> jstr option) option \<Rightarrow> jstr \<Rightarrow> bool \<Rightarrow> jstr option" where
  "atob native d utf8 =
     (case native of
        Some f \<Rightarrow> (if utf8 then Option.bind (f d) utf8_dec else f d)
      | None \<Rightarrow>
          if d = [] then Some d
          else let dec = atob_loop d 0 [] in if utf8 then utf8_dec dec else Some dec)"

definition btoa_group :: "int32 option \<Rightarrow> int32 option \<Rightarrow> int32 option \<Rightarrow> jstr" where
  "btoa_group o1 o2 o3 =
     (let bits = js_shl (toInt32 o1) 16 OR js_shl (toInt32 o2) 8 OR toInt32 o3;
          h1 = js_shr bits 18 AND 0x3f;
          h2 = js_shr bits 12 AND 0x3f;
          h3 = js_shr bits 6 AND 0x3f;
          h4 = bits AND 0x3f
      in charAt keyStr (unat h1) @ charAt keyStr (unat h2) @ charAt keyStr (unat h3) @ charAt keyStr (unat h4))"

function btoa_loop :: "jstr \<Rightarrow> nat \<Rightarrow> jstr \<Rightarrow> jstr" where
  "btoa_loop s i acc =
     (let acc = acc @ btoa_group (charCodeAt s i) (charCodeAt s (i + 1)) (charCodeAt s (i + 2))
      in if i + 3 < length s then btoa_loop s (i + 3) acc else acc)"
  by auto
termination by (relation "measure (\<lambda>(s, i, _). length s - i)") auto

declare btoa_loop.simps [simp del]

definition btoa :: "(jstr \<Rightarrow> jstr option) option \<Rightarrow> jstr \<Rightarrow> bool \<Rightarrow> jstr option" where
  "btoa native d utf8 =
     (if utf8 \<and> utf8_enc d = None then None
      else case native of
             Some f \<Rightarrow> f d
           | None \<Rightarrow>
               if d = [] then Some d
               else let enc = btoa_loop d 0 []; r = length d mod 3
                    in Some ((if r \<noteq> 0 then take (length enc - (3 - r)) enc else enc) @
                             slice_from (js ''==='') (if r \<noteq> 0 then int r else 3)))"

section \<open>Base64 of the two codecs\<close>

lemma word32_eqI:
  fixes a b :: int32
  assumes "list_all (\<lambda>n. bit a (nat n) = bit b (nat n)) [0..31]"
  shows "a = b"
proof (rule bit_word_eqI)
  fix n :: nat assume "n < LENGTH(32)"
  then have "int n \<in> set [0..31]" unfolding set_upto by simp
  with assms have "bit a (nat (int n)) = bit b (nat (int n))" unfolding list_all_iff by blast
  then show "bit a n = bit b n" by simp
qed

lemma sextets_of_bits:
  assumes "byte a" "byte b" "byte c"
  defines "bits \<equiv> js_shl (ucast a) 16 OR js_shl (ucast b) 8 OR ucast c :: int32"
  shows "js_shr bits 18 AND 0x3f = js_shr (ucast a) 2"
    "js_shr bits 12 AND 0x3f = js_shl (ucast a AND 3) 4 OR js_shr (ucast b) 4"
    "js_shr bits 6 AND 0x3f = js_shl (ucast b AND 15) 2 OR js_shr (ucast c) 6"
    "bits AND 0x3f = ucast c AND 63"
  unfolding bits_def by (rule word32_eqI, simp add: upto.simps shift_simps byte_bits assms(1-3))+

lemma key_64: "keyStr ! 64 = 61"
  by (simp add: keyStr_def)

lemma btoa_group_encode:
  "byte a \<Longrightarrow> byte b \<Longrightarrow> byte c \<Longrightarrow> btoa_group (Some (ucast a)) (Some (ucast b)) (Some (ucast c)) =
     encode_group (Some (ucast a)) (Some (ucast b)) (Some (ucast c))"
  "byte a \<Longrightarrow> byte b \<Longrightarrow> encode_group (Some (ucast a)) (Some (ucast b)) None =
     take 3 (btoa_group (Some (ucast a)) (Some (ucast b)) None) @ [61]"
  "byte a \<Longrightarrow> encode_group (Some (ucast a)) None None = take 2 (btoa_group (Some (ucast a)) None None) @ [61, 61]"
proof -
  assume "byte a" "byte b" "byte c"
  then show "btoa_group (Some (ucast a)) (Some (ucast b)) (Some (ucast c)) =
     encode_group (Some (ucast a)) (Some (ucast b)) (Some (ucast c))"
    by (simp add: btoa_group_def encode_group_def Let_def sextets_of_bits)
next
  assume ab: "byte a" "byte b"
  show "encode_group (Some (ucast a)) (Some (ucast b)) None =
     take 3 (btoa_group (Some (ucast a)) (Some (ucast b)) None) @ [61]"
    using sextets [OF ab byte_0] sextets_of_bits [OF ab byte_0]
    by (simp add: btoa_group_def encode_group_def Let_def charAt_key key_64 js_shr_def)
next
  assume a: "byte a"
  show "encode_group (Some (ucast a)) None None = take 2 (btoa_group (Some (ucast a)) None None) @ [61, 61]"
    using sextets [OF a byte_0 byte_0] sextets_of_bits [OF a byte_0 byte_0]
    by (simp add: btoa_group_def encode_group_def Let_def charAt_key key_64 js_shr_def js_shl_def)
qed

text \<open>The groups before the padding is put in.\<close>

fun raw_list :: "jstr \<Rightarrow> jstr" where
  "raw_list [] = []"
| "raw_list [a] = btoa_group (Some (ucast a)) None None"
| "raw_list [a, b] = btoa_group (Some (ucast a)) (Some (ucast b)) None"
| "raw_list (a # b # c # cs) = btoa_group (Some (ucast a)) (Some (ucast b)) (Some (ucast c)) @ raw_list cs"

lemma btoa_loop_list: "cs \<noteq> [] \<Longrightarrow> btoa_loop (pre @ cs) (length pre) acc = acc @ raw_list cs"
proof (induction cs arbitrary: pre acc rule: raw_list.induct)
  case (4 a b c cs)
  show ?case
  proof (cases cs)
    case Nil
    then show ?thesis by (subst btoa_loop.simps) (simp add: charCodeAt_def nth_append eval_nat_numeral)
  next
    case (Cons d ds)
    with 4(1) [of "pre @ [a, b, c]"] show ?thesis
      by (subst btoa_loop.simps) (simp add: charCodeAt_def nth_append eval_nat_numeral)
  qed
qed (subst btoa_loop.simps; simp add: charCodeAt_def nth_append eval_nat_numeral)+

lemma length_btoa_group: "length (btoa_group (Some x) y z) = 4"
proof -
  have "unat (w AND 0x3f :: int32) \<le> 64" for w
  proof -
    have "unat (w AND 0x3f) < 64" by (rule bounded_bits) (simp add: upt_rec bit_simps)
    then show ?thesis by simp
  qed
  then show ?thesis by (simp add: btoa_group_def Let_def charAt_key)
qed

lemma raw_list_long: "cs \<noteq> [] \<Longrightarrow> 4 \<le> length (raw_list cs)"
  by (cases cs rule: raw_list.cases) (simp_all add: length_btoa_group)

lemma enc_list_raw:
  "list_all byte cs \<Longrightarrow>
   enc_list cs = (let r = length cs mod 3
     in (if r \<noteq> 0 then take (length (raw_list cs) - (3 - r)) (raw_list cs) else raw_list cs) @
        slice_from (js ''==='') (if r \<noteq> 0 then int r else 3))"
proof (induction cs rule: enc_list.induct)
  case (4 a b c cs)
  have m: "length (a # b # c # cs) mod 3 = length cs mod 3" by simp
  have "length cs mod 3 \<noteq> 0 \<Longrightarrow> 4 \<le> length (raw_list cs)" by (intro raw_list_long) auto
  then show ?case
    using 4 length_btoa_group
    by (simp add: m Let_def btoa_group_encode [symmetric] del: length_Cons)
      (auto simp: slice_from_def)
qed (simp_all add: btoa_group_encode length_btoa_group slice_from_def Let_def)

text \<open>Reading back: a group of characters, padded or not.\<close>

lemma octets_of_bits:
  assumes "byte a" "byte b" "byte c"
  defines "e1 \<equiv> js_shr (ucast a) 2 :: int32"
    and "e2 \<equiv> js_shl (ucast a AND 3) 4 OR js_shr (ucast b) 4 :: int32"
    and "e3 \<equiv> js_shl (ucast b AND 15) 2 OR js_shr (ucast c) 6 :: int32" and "e4 \<equiv> ucast c AND 63 :: int32"
  shows "ucast (js_shr (js_shl e1 18 OR js_shl e2 12 OR js_shl e3 6 OR e4) 16 AND 0xff) = a"
    "ucast (js_shr (js_shl e1 18 OR js_shl e2 12 OR js_shl e3 6 OR e4) 8 AND 0xff) = b"
    "ucast ((js_shl e1 18 OR js_shl e2 12 OR js_shl e3 6 OR e4) AND 0xff) = c"
    "c = 0 \<Longrightarrow> ucast (js_shr (js_shl e1 18 OR js_shl e2 12 OR js_shl e3 6 OR 64) 8 AND 0xff) = b"
    "b = 0 \<Longrightarrow> ucast (js_shr (js_shl e1 18 OR js_shl e2 12 OR js_shl 64 6 OR 64) 16 AND 0xff) = a"
    "ucast (js_shr (js_shl e1 18 OR js_shl e2 12 OR js_shl e3 6 OR 64) 16 AND 0xff) = a"
  unfolding e1_def e2_def e3_def e4_def
  by (rule word16_eqI, simp add: upto.simps shift_simps byte_bits assms(1-3))+

lemma atob_group_bytes:
  assumes "byte a" "byte b" "byte c"
  shows "\<exists>k1 k2 k3 k4. encode_group (Some (ucast a)) (Some (ucast b)) (Some (ucast c)) = [k1, k2, k3, k4] \<and>
           atob_group [k1] [k2] [k3] [k4] = [a, b, c]"
    "\<exists>k1 k2 k3 k4. encode_group (Some (ucast a)) (Some (ucast b)) None = [k1, k2, k3, k4] \<and>
           atob_group [k1] [k2] [k3] [k4] = [a, b]"
    "\<exists>k1 k2 k3 k4. encode_group (Some (ucast a)) None None = [k1, k2, k3, k4] \<and>
           atob_group [k1] [k2] [k3] [k4] = [a]"
  subgoal using sextets [OF assms] octets_of_bits(1-3) [OF assms]
    by (simp add: encode_group_def atob_group_def charAt_key fromCharCode_def unat_ne_64 Let_def)
  subgoal using sextets [OF assms(1,2) byte_0] octets_of_bits(4,6) [OF assms(1,2) byte_0] index_key_nth [of 64]
    by (simp add: encode_group_def atob_group_def charAt_key fromCharCode_def unat_ne_64 Let_def js_shr_def)
  subgoal using sextets [OF assms(1) byte_0 byte_0] octets_of_bits(5) [OF assms(1) byte_0 byte_0] index_key_nth [of 64]
    by (simp add: encode_group_def atob_group_def charAt_key fromCharCode_def unat_ne_64 Let_def js_shr_def)
  done

lemma atob_loop_list:
  "list_all byte cs \<Longrightarrow> cs \<noteq> [] \<Longrightarrow> atob_loop (pre @ enc_list cs) (length pre) acc = acc @ cs"
proof (induction cs arbitrary: pre acc rule: enc_list.induct)
  case (2 a)
  then obtain k1 k2 k3 k4 where "enc_list [a] = [k1, k2, k3, k4]" "atob_group [k1] [k2] [k3] [k4] = [a]"
    using atob_group_bytes(3) [of a 0 0] byte_0 by auto
  then show ?case by (subst atob_loop.simps) (simp add: charAt_def nth_append)
next
  case (3 a b)
  then obtain k1 k2 k3 k4 where "enc_list [a, b] = [k1, k2, k3, k4]" "atob_group [k1] [k2] [k3] [k4] = [a, b]"
    using atob_group_bytes(2) [of a b 0] byte_0 by auto
  then show ?case by (subst atob_loop.simps) (simp add: charAt_def nth_append)
next
  case (4 a b c cs)
  then obtain k1 k2 k3 k4 where k: "encode_group (Some (ucast a)) (Some (ucast b)) (Some (ucast c)) = [k1, k2, k3, k4]"
      "atob_group [k1] [k2] [k3] [k4] = [a, b, c]"
    using atob_group_bytes(1) [of a b c] by auto
  show ?case
  proof (cases cs)
    case Nil
    then show ?thesis by (subst atob_loop.simps) (simp add: charAt_def nth_append k eval_nat_numeral)
  next
    case (Cons d ds)
    have "enc_list cs \<noteq> []"
      using length_enc_list [of cs] 4(2) Cons by auto
    with 4(1) [of "pre @ [k1, k2, k3, k4]" "acc @ [a, b, c]"] 4(2) Cons show ?thesis
      by (subst atob_loop.simps) (simp add: charAt_def nth_append k eval_nat_numeral)
  qed
qed simp

lemma code_points_bytes: "list_all byte s \<Longrightarrow> code_points s = Some (map unat s)"
  by (induction s) (auto simp: byte_def lead_surrogate_def trail_surrogate_def)

text \<open>
  C37.  Without the functions of the browser, encoding a binary string gives exactly what the loop of
  \<open>base64.js\<close> gives for it, whether or not UTF-8 is asked for, and decoding gives the string back; the two
  codecs of the upload pages agree.
\<close>

theorem btoa_atob_bytes:
  assumes "list_all byte s"
  shows "btoa None s utf8 = Some (encode_loop s 0 []) \<and> atob None (encode_loop s 0 []) False = Some s \<and>
         decode_loop (encode_loop s 0 []) 0 [] = s"
proof -
  have e: "encode_loop s 0 [] = enc_list s" using encode_loop_list [of "[]" s "[]"] by simp
  have "utf8_enc s \<noteq> None" using code_points_bytes [OF assms] by (simp add: utf8_enc_def encodeURIComponent_def)
  moreover have "s \<noteq> [] \<Longrightarrow> btoa_loop s 0 [] = raw_list s" using btoa_loop_list [of s "[]" "[]"] by simp
  ultimately have "btoa None s utf8 = Some (enc_list s)"
    using enc_list_raw [OF assms] by (cases "s = []") (auto simp: btoa_def Let_def)
  moreover have "atob None (enc_list s) False = Some s"
  proof (cases "s = []")
    case False
    then have "enc_list s \<noteq> []" using length_enc_list [OF assms] by (cases s) auto
    then show ?thesis using atob_loop_list [OF assms False, of "[]" "[]"] by (simp add: atob_def)
  qed (simp add: atob_def)
  ultimately show ?thesis using decode_loop_list [OF assms, of "[]" "[]"] by (simp add: e)
qed

theorem btoa_atob_bytes_witness:
  "list_all byte [0, 255, 16, 7] \<and> btoa None [0, 255, 16, 7] True = Some (js ''AP8QBw=='')"
proof -
  have b: "list_all byte [0, 255, 16, 7]" by (simp add: byte_def)
  have "encode_loop [0, 255, 16, 7] 0 [] = js ''AP8QBw==''" by code_simp
  then show ?thesis using btoa_atob_bytes [OF b, of True] b by simp
qed

section \<open>UTF-8 by percent encoding\<close>

text \<open>The code points that a well-formed string can have.\<close>

definition scalar :: "nat \<Rightarrow> bool" where
  "scalar n \<longleftrightarrow> n < 0x110000 \<and> \<not> (0xD800 \<le> n \<and> n < 0xE000)"

lemma code_points_scalar: "code_points s = Some ps \<Longrightarrow> list_all scalar ps \<and> concat (map code_units ps) = s"
proof (induction s arbitrary: ps rule: code_points.induct)
  case (2 c cs)
  have c: "unat c < 65536" using unsigned_less [of c] by simp
  show ?case
  proof (cases "lead_surrogate (unat c)")
    case True
    then obtain d ds qs where d: "cs = d # ds" "trail_surrogate (unat d)" "code_points ds = Some qs"
      "ps = ((unat c - 0xD800) * 1024 + (unat d - 0xDC00) + 0x10000) # qs"
      using 2(3) by (auto split: if_splits list.splits)
    have "\<not> trail_surrogate (unat c)" using True by (simp add: lead_surrogate_def trail_surrogate_def)
    then have IH: "list_all scalar qs \<and> concat (map code_units qs) = ds" using 2(1) [OF _ True d(1,2,3)] by simp
    let ?a = "unat c - 0xD800" and ?b = "unat d - 0xDC00"
    have ab: "?a < 1024" "?b < 1024" "unat c = 0xD800 + ?a" "unat d = 0xDC00 + ?b"
      using True d(2) by (auto simp: lead_surrogate_def trail_surrogate_def)
    have "(?a * 1024 + ?b) div 1024 = ?a" "(?a * 1024 + ?b) mod 1024 = ?b" using ab(2) by simp_all
    then have "code_units (?a * 1024 + ?b + 0x10000) = [c, d]"
    proof -
      have "(of_nat (0xD800 + ?a) :: jchar) = c" "(of_nat (0xDC00 + ?b) :: jchar) = d"
        by (simp_all only: ab(3,4) [symmetric]) simp_all
      with \<open>(?a * 1024 + ?b) div 1024 = ?a\<close> \<open>(?a * 1024 + ?b) mod 1024 = ?b\<close> show ?thesis
        by (simp only: code_units_def if_False add_diff_cancel_right' not_less [symmetric] not_less_iff_gr_or_eq)
          simp
    qed
    moreover have "scalar (?a * 1024 + ?b + 0x10000)" using ab(1,2) by (simp add: scalar_def)
    ultimately show ?thesis using IH d(1,4) by simp
  next
    case False
    then obtain qs where q: "code_points cs = Some qs" "ps = unat c # qs" "\<not> trail_surrogate (unat c)"
      using 2(3) by (auto split: if_splits)
    have "list_all scalar qs \<and> concat (map code_units qs) = cs" using 2(2) [OF q(3) False q(1)] .
    moreover have "scalar (unat c)" using c False q(3) by (auto simp: scalar_def lead_surrogate_def trail_surrogate_def)
    moreover have "code_units (unat c) = [c]" using c by (simp add: code_units_def)
    ultimately show ?thesis using q(2) by simp
  qed
qed simp

lemma hexVal_hexUpper: "n < 16 \<Longrightarrow> hexVal (hexUpper n) = Some n"
  by (simp add: hexVal_def hexUpper_def Let_def unat_of_nat)

lemma pct_at_pct: "b < 256 \<Longrightarrow> pct_at (pct b @ rest) = Some (b, rest)"
  by (simp add: pct_at_def pct_def hexVal_hexUpper)

lemma hexUpper_not_u: "n < 16 \<Longrightarrow> hexUpper n \<noteq> 117"
  by (simp add: hexUpper_def word_unat_eq_iff unat_of_nat)

lemma unescape_pct: "b < 256 \<Longrightarrow> unescape_js (pct b @ rest) = of_nat b # unescape_js rest"
  using pct_at_pct [of b rest] hexUpper_not_u [of "b div 16"] by (simp add: pct_def)

lemma unescape_pcts: "\<forall>b \<in> set bs. b < 256 \<Longrightarrow> unescape_js (concat (map pct bs) @ rest) = map of_nat bs @ unescape_js rest"
  by (induction bs) (auto simp: unescape_pct)

lemma utf8_bytes_range: "n < 0x110000 \<Longrightarrow> b \<in> set (utf8_bytes n) \<Longrightarrow> b < 256"
  by (auto simp: utf8_bytes_def split: if_splits)

definition enc_point :: "nat \<Rightarrow> jstr" where
  "enc_point n = (if uri_unescaped n then [of_nat n] else concat (map pct (utf8_bytes n)))"

lemma uri_unescaped_range: "uri_unescaped n \<Longrightarrow> n < 128 \<and> n \<noteq> 37"
  by (auto simp: uri_unescaped_def)

lemma of_nat_37: "n < 65536 \<Longrightarrow> (of_nat n :: jchar) = 37 \<longleftrightarrow> n = 37"
  by (simp add: word_unat_eq_iff unat_of_nat)

lemma unescape_point: "scalar n \<Longrightarrow> unescape_js (enc_point n @ rest) = map of_nat (utf8_bytes n) @ unescape_js rest"
proof (cases "uri_unescaped n")
  case True
  then have "n < 128" "n \<noteq> 37" using uri_unescaped_range by auto
  then show ?thesis using True of_nat_37 [of n] by (simp add: enc_point_def utf8_bytes_def)
next
  case False
  moreover assume "scalar n"
  ultimately show ?thesis using utf8_bytes_range by (auto simp: enc_point_def scalar_def intro!: unescape_pcts)
qed

lemma continuation_pct:
  "b < 64 \<Longrightarrow> continuation (Suc k) n (pct (0x80 + b) @ rest) = continuation k (n * 64 + b) rest"
  by (simp add: pct_at_pct)

lemma sixty_four: "n div 64 * 64 + n mod 64 = n" "n div 4096 * 64 + n div 64 mod 64 = n div 64"
  "n div 262144 * 64 + n div 4096 mod 64 = n div 4096" for n :: nat
proof -
  have "n div 4096 = n div 64 div 64" "n div 262144 = n div 4096 div 64" by (simp_all add: div_mult2_eq [symmetric])
  then show "n div 64 * 64 + n mod 64 = n" "n div 4096 * 64 + n div 64 mod 64 = n div 64"
    "n div 262144 * 64 + n div 4096 mod 64 = n div 4096" by (simp_all only: div_mult_mod_eq)
qed

lemma decode_sequence_point:
  assumes "scalar n"
  shows "decode_sequence (concat (map pct (utf8_bytes n)) @ rest) = Some (code_units n, rest)"
proof -
  have sc: "n < 0x110000" "\<not> (0xD800 \<le> n \<and> n < 0xE000)" using assms by (auto simp: scalar_def)
  consider "n < 0x80" | "0x80 \<le> n" "n < 0x800" | "0x800 \<le> n" "n < 0x10000" | "0x10000 \<le> n" by linarith
  then show ?thesis
  proof cases
    case 1
    then show ?thesis by (simp add: utf8_bytes_def decode_sequence_def pct_at_pct code_units_def)
  next
    case 2
    have "0xC0 + n div 64 < 0xE0" using 2 by simp
    moreover have "continuation 1 (n div 64) (pct (0x80 + n mod 64) @ rest) = Some (n, rest)"
      using continuation_pct [of "n mod 64" 0 "n div 64" rest] by (simp add: sixty_four)
    ultimately show ?thesis using 2 sc
      by (simp add: utf8_bytes_def decode_sequence_def pct_at_pct Let_def)
  next
    case 3
    have "0xE0 + n div 4096 < 0xF0" using 3 by simp
    moreover have "continuation 2 (n div 4096) (pct (0x80 + n div 64 mod 64) @ pct (0x80 + n mod 64) @ rest) = Some (n, rest)"
      using continuation_pct [of "n div 64 mod 64" 1 "n div 4096"] continuation_pct [of "n mod 64" 0 "n div 64" rest]
      by (simp add: sixty_four numeral_2_eq_2 del: continuation.simps(2))
    ultimately show ?thesis using 3 sc
      by (simp add: utf8_bytes_def decode_sequence_def pct_at_pct Let_def)
  next
    case 4
    have "0xF0 + n div 262144 < 0xF8" using sc by simp
    moreover have "continuation 3 (n div 262144) (pct (0x80 + n div 4096 mod 64) @ pct (0x80 + n div 64 mod 64) @ pct (0x80 + n mod 64) @ rest) = Some (n, rest)"
      using continuation_pct [of "n div 4096 mod 64" 2 "n div 262144"] continuation_pct [of "n div 64 mod 64" 1 "n div 4096"]
        continuation_pct [of "n mod 64" 0 "n div 64" rest]
      by (simp add: sixty_four numeral_2_eq_2 numeral_3_eq_3 del: continuation.simps(2))
    ultimately show ?thesis using 4 sc
      by (simp add: utf8_bytes_def decode_sequence_def pct_at_pct Let_def)
  qed
qed

lemma decode_pcts:
  assumes "scalar n"
  shows "decodeURIComponent (concat (map pct (utf8_bytes n)) @ rest) = map_option ((@) (code_units n)) (decodeURIComponent rest)"
proof -
  obtain xs where "concat (map pct (utf8_bytes n)) @ rest = 37 # xs"
    by (cases "utf8_bytes n") (auto simp: utf8_bytes_def pct_def split: if_splits)
  then show ?thesis using decode_sequence_point [OF assms, of rest] by simp
qed

lemma decode_plain: "n < 128 \<Longrightarrow> n \<noteq> 37 \<Longrightarrow>
    decodeURIComponent (of_nat n # rest) = map_option ((@) (code_units n)) (decodeURIComponent rest)"
  using of_nat_37 [of n] by (cases "decodeURIComponent rest") (simp_all add: code_units_def)

lemma decode_point: "scalar n \<Longrightarrow> decodeURIComponent (enc_point n @ rest) = map_option ((@) (code_units n)) (decodeURIComponent rest)"
  using decode_plain [of n rest] decode_pcts [of n rest] uri_unescaped_range [of n] by (auto simp: enc_point_def)

lemma encodeURI_points: "encodeURIComponent s = map_option (\<lambda>ps. concat (map enc_point ps)) (code_points s)"
  unfolding encodeURIComponent_def enc_point_def ..

lemma decode_encodeURI: "encodeURIComponent s = Some t \<Longrightarrow> decodeURIComponent t = Some s"
proof -
  assume "encodeURIComponent s = Some t"
  then obtain ps where ps: "code_points s = Some ps" "t = concat (map enc_point ps)" by (auto simp: encodeURI_points)
  have "list_all scalar ps \<Longrightarrow> decodeURIComponent (concat (map enc_point ps)) = Some (concat (map code_units ps))" for ps
    by (induction ps) (simp_all add: decode_point)
  with code_points_scalar [OF ps(1)] ps(2) show ?thesis by simp
qed

lemma escape_js_append: "escape_js (s @ t) = escape_js s @ escape_js t"
  by (simp add: escape_js_def)

lemma escape_bytes:
  assumes "scalar n"
  shows "escape_js (map of_nat (utf8_bytes n)) =
    (if n < 128 \<and> escape_unescaped n then [of_nat n] else concat (map pct (utf8_bytes n)))"
proof -
  have u: "unat (of_nat b :: jchar) = b" if "b < 256" for b using that by (simp add: unat_of_nat)
  have hi: "escape_js (map of_nat bs) = concat (map pct bs)" if "\<forall>b \<in> set bs. 128 \<le> b \<and> b < 256" for bs
    using that by (induction bs) (auto simp: escape_js_def u Let_def escape_unescaped_def)
  show ?thesis
  proof (cases "n < 128")
    case True
    then show ?thesis by (simp add: utf8_bytes_def escape_js_def u Let_def)
  next
    case False
    have "n < 0x110000" using assms by (simp add: scalar_def)
    moreover have "b \<in> set (utf8_bytes n) \<Longrightarrow> 128 \<le> b" for b
      using False by (auto simp: utf8_bytes_def split: if_splits)
    ultimately have "\<forall>b \<in> set (utf8_bytes n). 128 \<le> b \<and> b < 256"
      using utf8_bytes_range by blast
    with hi False show ?thesis by simp
  qed
qed

lemma decode_escaped:
  "scalar n \<Longrightarrow> decodeURIComponent (escape_js (map of_nat (utf8_bytes n)) @ rest) = map_option ((@) (code_units n)) (decodeURIComponent rest)"
  using decode_plain [of n rest] decode_pcts [of n rest] by (auto simp: escape_bytes escape_unescaped_def)

text \<open>
  C38.  The UTF-8 encoder returns, for a string in which no surrogate stands alone, the bytes of its code
  points, and the decoder gives the string back; for any other string it throws.
\<close>

theorem utf8_round_trip:
  "case code_points s of
     None \<Rightarrow> utf8_enc s = None
   | Some ps \<Rightarrow> utf8_enc s = Some (concat (map (\<lambda>n. map of_nat (utf8_bytes n)) ps)) \<and>
                list_all byte (the (utf8_enc s)) \<and> utf8_dec (the (utf8_enc s)) = Some s"
proof (cases "code_points s")
  case None
  then show ?thesis by (simp add: utf8_enc_def encodeURI_points)
next
  case (Some ps)
  note sc = code_points_scalar [OF Some]
  have "list_all scalar ps \<Longrightarrow> unescape_js (concat (map enc_point ps)) = concat (map (\<lambda>n. map of_nat (utf8_bytes n)) ps)" for ps
    by (induction ps) (simp_all add: unescape_point)
  then have e: "utf8_enc s = Some (concat (map (\<lambda>n. map of_nat (utf8_bytes n)) ps))"
    using sc Some by (simp add: utf8_enc_def encodeURI_points)
  have "list_all scalar ps \<Longrightarrow> decodeURIComponent (escape_js (concat (map (\<lambda>n. map of_nat (utf8_bytes n)) ps))) =
      Some (concat (map code_units ps))" for ps
    by (induction ps) (simp_all add: escape_js_append decode_escaped, simp add: escape_js_def)
  moreover have "list_all byte (concat (map (\<lambda>n. map of_nat (utf8_bytes n)) ps))"
    using sc utf8_bytes_range by (fastforce simp: list_all_iff byte_def scalar_def unat_of_nat)
  ultimately show ?thesis using e sc Some by (simp add: utf8_dec_def)
qed

end
