(* ===== verification/MoxieBasic.thy ===== *)
theory MoxieBasic
  imports JS_Objects Moxie
begin

text \<open>
  Objects and languages in \<open>resources/plugins/oss/lib/plupload-2.1.2/js/moxie.js\<close>: \<open>typeOf\<close>, \<open>each\<close>,
  \<open>extend\<close>, \<open>isEmptyObj\<close> and \<open>toArray\<close> of module \<open>Basic\<close> (lines 107 to 485) and the module \<open>I18n\<close>
  (lines 490 to 540).

  Values are those of \<open>HB_Utils\<close>.  A callback that is called for each item is modelled by the list of the
  items.  Objects do not have a property \<open>hasOwnProperty\<close> or \<open>__proto__\<close> of their own, arrays have only
  their elements, and a property \<open>length\<close> of an object is a number, a flag or null where there is one.
  What \<open>extend\<close> returns is given as a value: that it shares the objects it does not merge is left out.
\<close>

section \<open>Types and items\<close>

definition prop_of :: "(jstr \<times> jsval) list \<Rightarrow> jstr \<Rightarrow> jsval" where
  "prop_of kvs k = (case map_of kvs k of Some v \<Rightarrow> v | None \<Rightarrow> JUndefined)"

definition typeOf :: "jsval \<Rightarrow> jstr" where
  "typeOf v =
     (case v of
        JUndefined \<Rightarrow> js ''undefined''
      | JNull \<Rightarrow> js ''null''
      | JBool _ \<Rightarrow> js ''boolean''
      | JNum _ \<Rightarrow> js ''number''
      | JNaN \<Rightarrow> js ''number''
      | JStr _ \<Rightarrow> js ''string''
      | JArr _ \<Rightarrow> js ''array''
      | JObj kvs \<Rightarrow> if truthy (prop_of kvs (js ''nodeType'')) then js ''node'' else js ''object''
      | JSafe _ \<Rightarrow> js ''object''
      | JFun _ \<Rightarrow> js ''function'')"

definition loop_length :: "jsval \<Rightarrow> nat" where
  "loop_length v = (case v of JNum n \<Rightarrow> nat n | JBool b \<Rightarrow> (if b then 1 else 0) | _ \<Rightarrow> 0)"

text \<open>The values and keys of \<open>each\<close>: by index as soon as there is a length.\<close>

definition each_items :: "jsval \<Rightarrow> (jsval \<times> jsval) list" where
  "each_items v =
     (case v of
        JStr s \<Rightarrow> map (\<lambda>i. (JStr [s ! i], JNum (int i))) [0..<length s]
      | JArr vs \<Rightarrow> map (\<lambda>i. (vs ! i, JNum (int i))) [0..<length vs]
      | JObj kvs \<Rightarrow>
          if prop_of kvs (js ''length'') = JUndefined then map (\<lambda>(k, w). (w, JStr k)) kvs
          else map (\<lambda>i. (prop_of kvs (natToString i), JNum (int i))) [0..<loop_length (prop_of kvs (js ''length''))]
      | JSafe w \<Rightarrow> [(w, JStr (js ''string''))]
      | _ \<Rightarrow> [])"

definition isEmptyObj :: "jsval \<Rightarrow> bool" where
  "isEmptyObj v =
     (if \<not> truthy v \<or> typeOf v \<noteq> js ''object'' then True
      else (case v of JObj kvs \<Rightarrow> kvs = [] | _ \<Rightarrow> False))"

definition toArray :: "jsval \<Rightarrow> jsval result" where
  "toArray v =
     (case v of
        JUndefined \<Rightarrow> Inl TypeErr
      | JNull \<Rightarrow> Inl TypeErr
      | JStr s \<Rightarrow> Inr (JArr (map (\<lambda>c. JStr [c]) s))
      | JArr vs \<Rightarrow> Inr (JArr vs)
      | JObj kvs \<Rightarrow>
          Inr (JArr (map (\<lambda>i. prop_of kvs (natToString i)) [0..<loop_length (prop_of kvs (js ''length''))]))
      | _ \<Rightarrow> Inr (JArr []))"

section \<open>extend\<close>

definition key_string :: "jsval \<Rightarrow> jstr" where
  "key_string k = (case k of JStr s \<Rightarrow> s | JNum n \<Rightarrow> intToString n | _ \<Rightarrow> [])"

text \<open>\<open>target[key]\<close> and its assignment; an assignment past the end of an array leaves holes.\<close>

definition get_key :: "jsval \<Rightarrow> jsval \<Rightarrow> jsval" where
  "get_key t k =
     (case t of
        JObj kvs \<Rightarrow> prop_of kvs (key_string k)
      | JArr vs \<Rightarrow> (case k of JNum n \<Rightarrow> if 0 \<le> n \<and> nat n < length vs then vs ! nat n else JUndefined | _ \<Rightarrow> JUndefined)
      | _ \<Rightarrow> JUndefined)"

definition set_key :: "jsval \<Rightarrow> jsval \<Rightarrow> jsval \<Rightarrow> jsval" where
  "set_key t k v =
     (case t of
        JObj kvs \<Rightarrow> JObj (obj_set kvs (key_string k) v)
      | JArr vs \<Rightarrow>
          (case k of
             JNum n \<Rightarrow> JArr (if nat n < length vs then vs[nat n := v]
                             else vs @ replicate (nat n - length vs) JUndefined @ [v])
           | _ \<Rightarrow> t)
      | _ \<Rightarrow> t)"

definition mergeable :: "jsval \<Rightarrow> jsval \<Rightarrow> bool" where
  "mergeable old new \<longleftrightarrow>
     typeOf old = typeOf new \<and> inArray (typeOf new) [js ''array'', js ''object''] \<noteq> -1"

text \<open>The items are smaller than the object, whichever way it is looped over.\<close>

abbreviation size_entries :: "(jstr \<times> jsval) list \<Rightarrow> nat" where
  "size_entries \<equiv> size_list (size_prod (\<lambda>x. 0) size)"

lemma natToString_inj: "inj natToString"
proof (rule injI)
  fix m n :: nat assume "natToString m = natToString n"
  then have "int m = int n" by (metis natToString_digits)
  then show "m = n" by simp
qed

lemma size_prop_of: "size (prop_of kvs k) \<le> size_entries (filter (\<lambda>p. fst p = k) kvs)"
  by (induction kvs) (auto simp: prop_of_def split: option.splits)

lemma size_filter_disjoint:
  "size_list f (filter P xs) + size_list f (filter (\<lambda>x. \<not> P x \<and> Q x) xs) \<le> size_list f (filter (\<lambda>x. P x \<or> Q x) xs)"
  by (induction xs) auto

lemma size_filter: "size_list f (filter P xs) \<le> size_list f xs"
  by (induction xs) auto

lemma size_indices:
  "distinct ns \<Longrightarrow> (\<Sum>i\<leftarrow>ns. size (prop_of kvs (natToString i))) \<le>
     size_entries (filter (\<lambda>p. fst p \<in> natToString ` set ns) kvs)"
proof (induction ns)
  case (Cons n ns)
  let ?P = "\<lambda>p::jstr \<times> jsval. fst p = natToString n" and ?Q = "\<lambda>p::jstr \<times> jsval. fst p \<in> natToString ` set ns"
  have "natToString n \<notin> natToString ` set ns"
    using Cons.prems by (simp add: inj_image_mem_iff [OF natToString_inj])
  then have eq: "filter (\<lambda>p. \<not> ?P p \<and> ?Q p) kvs = filter ?Q kvs" by (intro filter_cong refl) metis
  have "size_entries (filter ?P kvs) + size_entries (filter ?Q kvs) \<le> size_entries (filter (\<lambda>p. ?P p \<or> ?Q p) kvs)"
    using size_filter_disjoint [of "size_prod (\<lambda>x. 0) size" ?P kvs ?Q] by (simp only: eq)
  moreover have "(\<Sum>i\<leftarrow>ns. size (prop_of kvs (natToString i))) \<le> size_entries (filter ?Q kvs)"
    using Cons by simp
  ultimately show ?case using size_prop_of [of kvs "natToString n"] by simp
qed simp

lemma sum_list_nth: "(\<Sum>i\<leftarrow>[0..<length vs]. f (vs ! i)) = (\<Sum>x\<leftarrow>vs. f x)"
  by (metis map_map map_nth comp_apply map_cong)

lemma size_each_items: "mergeable old v \<Longrightarrow> (\<Sum>(w, k)\<leftarrow>each_items v. size w) < size v"
proof (cases v)
  case (JObj kvs)
  have "(\<Sum>x\<leftarrow>kvs. size (snd x)) \<le> size_entries kvs" by (induction kvs) auto
  moreover have "(\<Sum>i\<leftarrow>[0..<n]. size (prop_of kvs (natToString i))) \<le> size_entries kvs" for n
    using size_indices [of "[0..<n]" kvs] size_filter le_trans by fastforce
  ultimately show ?thesis
    by (auto simp: JObj each_items_def comp_def case_prod_beta less_Suc_eq_le)
next
  case (JArr vs)
  have "(\<Sum>x\<leftarrow>vs. size x) \<le> size_list size vs" by (induction vs) auto
  then show ?thesis by (simp add: JArr each_items_def comp_def sum_list_nth [of size vs] less_Suc_eq_le)
qed (auto simp: each_items_def mergeable_def typeOf_def split: if_splits)

function extend_items :: "jsval \<Rightarrow> (jsval \<times> jsval) list \<Rightarrow> jsval" where
  "extend_items target [] = target"
| "extend_items target ((v, k) # rest) =
     extend_items
       (if v = JUndefined then target
        else if mergeable (get_key target k) v then set_key target k (extend_items (get_key target k) (each_items v))
        else set_key target k v) rest"
  by pat_completeness auto
termination
  by (relation "measures [\<lambda>(t, items). \<Sum>(w, k)\<leftarrow>items. size w, \<lambda>(t, items). length items]")
    (use size_each_items in fastforce)+

definition extend_val :: "jsval \<Rightarrow> jsval list \<Rightarrow> jsval" where
  "extend_val target args = foldl (\<lambda>t a. extend_items t (each_items a)) target args"

text \<open>What is behind a key afterwards: two objects or two arrays are merged, any other defined value wins.\<close>

lemma prop_of_obj_set [simp]: "prop_of (obj_set kvs k v) j = (if j = k then v else prop_of kvs j)"
  by (simp add: prop_of_def)

lemma prop_of_Cons: "prop_of ((k, v) # kvs) j = (if j = k then v else prop_of kvs j)"
  by (simp add: prop_of_def)

lemma prop_of_other: "k \<notin> fst ` set kvs \<Longrightarrow> prop_of kvs k = JUndefined"
  by (induction kvs) (auto simp: prop_of_def)

definition merged :: "jsval \<Rightarrow> jsval \<Rightarrow> jsval" where
  "merged old new =
     (if new = JUndefined then old
      else if mergeable old new then extend_items old (each_items new) else new)"

lemma extend_items_obj:
  "distinct (map fst kvs) \<Longrightarrow>
   \<exists>rs. extend_items (JObj tvs) (map (\<lambda>(k, w). (w, JStr k)) kvs) = JObj rs \<and>
        (\<forall>k. prop_of rs k = merged (prop_of tvs k) (prop_of kvs k))"
proof (induction kvs arbitrary: tvs)
  case Nil
  then show ?case by (simp add: prop_of_def merged_def)
next
  case (Cons p kvs)
  obtain k v where p: "p = (k, v)" by force
  let ?t = "if v = JUndefined then tvs else obj_set tvs k (merged (prop_of tvs k) v)"
  have "extend_items (JObj tvs) (map (\<lambda>(k, w). (w, JStr k)) (p # kvs)) =
      extend_items (JObj ?t) (map (\<lambda>(k, w). (w, JStr k)) kvs)"
    by (simp add: p merged_def get_key_def set_key_def key_string_def)
  moreover obtain rs where "extend_items (JObj ?t) (map (\<lambda>(k, w). (w, JStr k)) kvs) = JObj rs"
      "\<forall>j. prop_of rs j = merged (prop_of ?t j) (prop_of kvs j)"
    using Cons by fastforce
  moreover have "prop_of kvs k = JUndefined" using Cons.prems p by (auto intro: prop_of_other)
  ultimately show ?case by (auto simp: p prop_of_Cons merged_def)
qed

section \<open>Languages\<close>

definition addI18n :: "(jstr \<times> jsval) list \<Rightarrow> jsval \<Rightarrow> (jstr \<times> jsval) list" where
  "addI18n i18n pack = (case extend_val (JObj i18n) [pack] of JObj kvs \<Rightarrow> kvs | _ \<Rightarrow> i18n)"

definition translate :: "(jstr \<times> jsval) list \<Rightarrow> jstr \<Rightarrow> jsval member" where
  "translate i18n str =
     (case read_prop i18n str of
        Some (Own v) \<Rightarrow> if truthy v then Own v else Own (JStr str)
      | Some (Inherited k) \<Rightarrow> Inherited k
      | None \<Rightarrow> Own (JStr str))"

function sprintf :: "(nat \<Rightarrow> jstr) \<Rightarrow> jstr \<Rightarrow> jsval list \<Rightarrow> jstr" where
  "sprintf src [] args = []"
| "sprintf src (c # cs) args =
     (if c = 37 \<and> cs \<noteq> [] \<and> 97 \<le> hd cs \<and> hd cs \<le> 122 then
        (let v = (case args of [] \<Rightarrow> JUndefined | a # _ \<Rightarrow> a)
         in (if typeOf v \<noteq> js ''undefined'' then toStr src v else [])) @ sprintf src (tl cs) (drop 1 args)
      else c # sprintf src cs args)"
  by pat_completeness auto
termination by (relation "measure (\<lambda>(_, s, _). length s)") auto

text \<open>
  A language pack is asked before the text itself; a name that every object has is found as well, so the
  translation of such a text is no string.
\<close>

lemma translate_added:
  assumes "distinct (map fst pack)" "prop_of pack (js ''length'') = JUndefined" "prop_of pack str = JStr t" "t \<noteq> []"
  shows "translate (addI18n i18n (JObj pack)) str = Own (JStr t)"
proof -
  obtain rs where rs: "extend_items (JObj i18n) (map (\<lambda>(k, w). (w, JStr k)) pack) = JObj rs"
      "\<forall>k. prop_of rs k = merged (prop_of i18n k) (prop_of pack k)"
    using extend_items_obj [OF assms(1)] by blast
  have "prop_of rs str = JStr t" using rs(2) assms(3) by (simp add: merged_def mergeable_def typeOf_def inArray_found)
  then have "map_of rs str = Some (JStr t)" by (auto simp: prop_of_def split: option.splits)
  with rs(1) assms(2,4) show ?thesis
    by (simp add: translate_def addI18n_def extend_val_def each_items_def del: js_Cons)
      (simp add: read_prop_def)
qed

lemma translate_unknown:
  "map_of i18n str = None \<Longrightarrow> translate i18n str = (if str \<in> set object_prototype then Inherited str else Own (JStr str))"
  by (simp add: translate_def read_prop_def)

text \<open>Tokens are replaced from the left; those without an argument vanish.\<close>

lemma sprintf_token:
  "37 \<notin> set s \<Longrightarrow> 97 \<le> c \<Longrightarrow> c \<le> 122 \<Longrightarrow>
   sprintf src (s @ 37 # c # rest) (JStr a # args) = s @ a @ sprintf src rest args"
  by (induction s) (auto simp: typeOf_def)

lemma sprintf_plain: "37 \<notin> set s \<Longrightarrow> sprintf src s args = s"
  by (induction s) auto

end
