(* ===== verification/Mime.thy ===== *)
theory Mime
  imports MoxieBasic "HOL-Library.Sublist"
begin

text \<open>
  File types in \<open>resources/plugins/oss/lib/plupload-2.1.2/js/moxie.js\<close>: the module \<open>Mime\<close> (lines 555 to
  734), which turns lists of extensions into lists of types and back.

  Types given to \<open>addMimeType\<close> are not \<open>__proto__\<close>.  \<open>toLowerCase\<close> is that of ASCII.
\<close>

section \<open>Tables\<close>

definition mime_text :: string where
  "mime_text =
     ''application/msword,doc dot,'' @
     ''application/pdf,pdf,'' @
     ''application/pgp-signature,pgp,'' @
     ''application/postscript,ps ai eps,'' @
     ''application/rtf,rtf,'' @
     ''application/vnd.ms-excel,xls xlb,'' @
     ''application/vnd.ms-powerpoint,ppt pps pot,'' @
     ''application/zip,zip,'' @
     ''application/x-shockwave-flash,swf swfl,'' @
     ''application/vnd.openxmlformats-officedocument.wordprocessingml.document,docx,'' @
     ''application/vnd.openxmlformats-officedocument.wordprocessingml.template,dotx,'' @
     ''application/vnd.openxmlformats-officedocument.spreadsheetml.sheet,xlsx,'' @
     ''application/vnd.openxmlformats-officedocument.presentationml.presentation,pptx,'' @
     ''application/vnd.openxmlformats-officedocument.presentationml.template,potx,'' @
     ''application/vnd.openxmlformats-officedocument.presentationml.slideshow,ppsx,'' @
     ''application/x-javascript,js,'' @
     ''application/json,json,'' @
     ''audio/mpeg,mp3 mpga mpega mp2,'' @
     ''audio/x-wav,wav,'' @
     ''audio/x-m4a,m4a,'' @
     ''audio/ogg,oga ogg,'' @
     ''audio/aiff,aiff aif,'' @
     ''audio/flac,flac,'' @
     ''audio/aac,aac,'' @
     ''audio/ac3,ac3,'' @
     ''audio/x-ms-wma,wma,'' @
     ''image/bmp,bmp,'' @
     ''image/gif,gif,'' @
     ''image/jpeg,jpg jpeg jpe,'' @
     ''image/photoshop,psd,'' @
     ''image/png,png,'' @
     ''image/svg+xml,svg svgz,'' @
     ''image/tiff,tiff tif,'' @
     ''text/plain,asc txt text diff log,'' @
     ''text/html,htm html xhtml,'' @
     ''text/css,css,'' @
     ''text/csv,csv,'' @
     ''text/rtf,rtf,'' @
     ''video/mpeg,mpeg mpg mpe m2v,'' @
     ''video/quicktime,qt mov,'' @
     ''video/mp4,mp4,'' @
     ''video/x-m4v,m4v,'' @
     ''video/x-flv,flv,'' @
     ''video/x-ms-wmv,wmv,'' @
     ''video/avi,avi,'' @
     ''video/webm,webm,'' @
     ''video/3gpp,3gpp 3gp,'' @
     ''video/3gpp2,3g2,'' @
     ''video/vnd.rn-realvideo,rv,'' @
     ''video/ogg,ogv,'' @
     ''video/x-matroska,mkv,'' @
     ''application/vnd.oasis.opendocument.formula-template,otf,'' @
     ''application/octet-stream,exe''"

definition mimeData :: jstr where
  "mimeData = js mime_text"

record mime_tables =
  mimes :: "(jstr \<times> jstr) list"
  extensions :: "(jstr \<times> jstr list) list"

definition add_type :: "jstr \<Rightarrow> jstr list \<Rightarrow> mime_tables \<Rightarrow> mime_tables" where
  "add_type t ext m =
     m\<lparr>mimes := foldl (\<lambda>tab e. put_prop tab e t) (mimes m) ext,
       extensions := obj_set (extensions m) t ext\<rparr>"

text \<open>An odd number of items ends with an exception: the list of extensions of the last type is not there.\<close>

fun add_items :: "jstr list \<Rightarrow> mime_tables \<Rightarrow> unit result \<times> mime_tables" where
  "add_items [] m = (Inr (), m)"
| "add_items [t] m = (Inl TypeErr, m)"
| "add_items (t # ext # items) m = add_items items (add_type t (split_on 32 ext) m)"

definition addMimeType :: "jstr \<Rightarrow> mime_tables \<Rightarrow> unit result \<times> mime_tables" where
  "addMimeType d m = add_items (split_on 44 d) m"

definition new_mime :: mime_tables where
  "new_mime = snd (addMimeType mimeData \<lparr>mimes = [], extensions = []\<rparr>)"

section \<open>Extensions to types\<close>

definition word_char :: "jchar \<Rightarrow> bool" where
  "word_char c \<longleftrightarrow> (48 \<le> c \<and> c \<le> 57) \<or> (65 \<le> c \<and> c \<le> 90) \<or> (97 \<le> c \<and> c \<le> 122) \<or> c = 95"

definition word :: "jstr \<Rightarrow> bool" where
  "word s \<longleftrightarrow> s \<noteq> [] \<and> list_all word_char s"

definition star :: jstr where
  "star = [42]"

text \<open>\<open>None\<close> stands for the early returns of the empty list, which accepts all.\<close>

fun ext_types :: "mime_tables \<Rightarrow> bool \<Rightarrow> jstr list \<Rightarrow> jstr member list \<Rightarrow> jstr member list option" where
  "ext_types m add [] acc = Some acc"
| "ext_types m add (e # es) acc =
     (if e = star then None
      else (let known = (case read_prop (mimes m) e of Some (Own []) \<Rightarrow> None | t \<Rightarrow> t)
            in case known of
                 None \<Rightarrow> if add \<and> word e then ext_types m add es (acc @ [Own (46 # e)]) else None
               | Some t \<Rightarrow> ext_types m add es (if inArray t acc = -1 then acc @ [t] else acc)))"

definition extList2mimes :: "mime_tables \<Rightarrow> jstr list \<Rightarrow> bool \<Rightarrow> jstr member list" where
  "extList2mimes m filters addMissingExtensions =
     (case ext_types m addMissingExtensions (concat (map split_commas filters)) [] of Some l \<Rightarrow> l | None \<Rightarrow> [])"

section \<open>Types to extensions\<close>

text \<open>The match of a type: a word, a slash, and a word or an asterisk.\<close>

definition mime_match :: "jstr \<Rightarrow> (jstr \<times> jstr) option" where
  "mime_match s =
     (let p = takeWhile (\<lambda>c. c \<noteq> 47) s; r = dropWhile (\<lambda>c. c \<noteq> 47) s
      in case r of
           [] \<Rightarrow> None
         | _ # q \<Rightarrow> if word p \<and> (q = star \<or> word q) then Some (p, q) else None)"

definition mime_exts :: "mime_tables \<Rightarrow> jstr \<Rightarrow> jstr list" where
  "mime_exts m mime =
     (case mime_match mime of
        None \<Rightarrow> []
      | Some (p, q) \<Rightarrow>
          if q = star then concat (map snd (filter (\<lambda>(t, _). prefix (p @ [47]) t) (extensions m)))
          else (case map_of (extensions m) mime of Some es \<Rightarrow> es | None \<Rightarrow> []))"

fun types_exts :: "mime_tables \<Rightarrow> jstr list \<Rightarrow> jstr list \<Rightarrow> jstr list" where
  "types_exts m [] exts = exts"
| "types_exts m (mime # rest) exts = (if mime = star then [] else types_exts m rest (exts @ mime_exts m mime))"

definition mimes2exts :: "mime_tables \<Rightarrow> jstr list \<Rightarrow> jstr list" where
  "mimes2exts m ms = types_exts m ms []"

text \<open>The filter that a list of types stands for, with the list itself.\<close>

record accept =
  a_title :: "jsval member"
  a_extensions :: jstr
  a_mimes :: "jstr list"

datatype types_arg = TypesText jstr | TypesList "jstr list"

definition mimes2extList :: "(jstr \<times> jsval) list \<Rightarrow> mime_tables \<Rightarrow> types_arg \<Rightarrow> accept" where
  "mimes2extList i18n m arg =
     (let ms = (case arg of TypesText s \<Rightarrow> split_commas (trim s) | TypesList l \<Rightarrow> l);
          exts = mimes2exts m ms
      in \<lparr>a_title = translate i18n (js ''Files''),
          a_extensions = (if exts \<noteq> [] then join exts [44] else star), a_mimes = ms\<rparr>)"

section \<open>File names\<close>

text \<open>What follows the last dot, unless that is the end of the name.\<close>

definition getFileExtension :: "jstr \<Rightarrow> jstr" where
  "getFileExtension fileName =
     (let e = rev (takeWhile (\<lambda>c. c \<noteq> 46) (rev fileName))
      in if 46 \<in> set fileName \<and> e \<noteq> [] then map toLower e else [])"

definition getFileMime :: "mime_tables \<Rightarrow> jstr \<Rightarrow> jstr member" where
  "getFileMime m fileName =
     (case read_prop (mimes m) (getFileExtension fileName) of Some t \<Rightarrow> t | None \<Rightarrow> Own [])"

section \<open>Well-formed tables\<close>

text \<open>
  Every extension has a type that lists it, every listed extension has a type, and no type is the asterisk.
\<close>

definition mime_wf :: "mime_tables \<Rightarrow> bool" where
  "mime_wf m \<longleftrightarrow>
     (\<forall>e t. map_of (mimes m) e = Some t \<longrightarrow> (\<exists>es. map_of (extensions m) t = Some es \<and> e \<in> set es)) \<and>
     (\<forall>t es. map_of (extensions m) t = Some es \<longrightarrow>
        t \<noteq> star \<and> (\<forall>e \<in> set es. e = js ''__proto__'' \<or> map_of (mimes m) e \<noteq> None)) \<and>
     distinct (map fst (extensions m))"

lemma map_of_put_all:
  "map_of (foldl (\<lambda>tab e. put_prop tab e t) tab es) e =
   (if e \<in> set es \<and> e \<noteq> js ''__proto__'' then Some t else map_of tab e)"
  by (induction es arbitrary: tab) (auto simp del: js_Cons)

lemma wf_add_type:
  "mime_wf m \<Longrightarrow> map_of (extensions m) t = None \<Longrightarrow> t \<noteq> star \<Longrightarrow> mime_wf (add_type t es m)"
  unfolding mime_wf_def add_type_def
  by (auto simp: map_of_put_all distinct_obj_set simp del: js_Cons split: if_splits) fastforce+

fun types_of :: "'a list \<Rightarrow> 'a list" where
  "types_of (t # ext # items) = t # types_of items"
| "types_of _ = []"

lemma keys_add_type: "dom (map_of (extensions (add_type t es m))) = insert t (dom (map_of (extensions m)))"
  by (auto simp: add_type_def)

text \<open>Adding types that are not known yet keeps the tables well-formed, also when it ends with an exception.\<close>

lemma wf_add_items:
  "mime_wf m \<Longrightarrow> distinct (types_of items) \<Longrightarrow> star \<notin> set (types_of items) \<Longrightarrow>
   set (types_of items) \<inter> dom (map_of (extensions m)) = {} \<Longrightarrow> mime_wf (snd (add_items items m))"
proof (induction items m rule: add_items.induct)
  case (3 t ext items m)
  have "mime_wf (add_type t (split_on 32 ext) m)" using 3(2-5) by (intro wf_add_type) auto
  moreover have "set (types_of items) \<inter> dom (map_of (extensions (add_type t (split_on 32 ext) m))) = {}"
    using 3(3,5) by (auto simp: keys_add_type)
  ultimately show ?case using 3 by auto
qed auto

section \<open>The default tables\<close>

text \<open>The text of the default types, split as a list of characters.\<close>

fun split_str :: "char \<Rightarrow> string \<Rightarrow> string list" where
  "split_str c [] = [[]]"
| "split_str c (x # xs) =
     (if x = c then [] # split_str c xs
      else (case split_str c xs of [] \<Rightarrow> [[x]] | p # ps \<Rightarrow> (x # p) # ps))"

lemma unat_of_char: "unat (of_char x :: jchar) = of_char x"
proof -
  have "(of_char x :: nat) < 256" using of_char_mod_256 [of x, where 'a = nat] by (metis mod_less_divisor zero_less_numeral)
  then have "(of_char x :: nat) < 65536" by linarith
  then have "unat (of_nat (of_char x) :: jchar) = of_char x" by (simp add: unat_of_nat mod_less del: of_nat_of_char of_char_mod_256)
  then show ?thesis by (simp only: of_nat_of_char)
qed

lemma of_char_16_inj: "(of_char c :: jchar) = of_char d \<longleftrightarrow> c = d"
  by (metis unat_of_char of_char_eq_iff)

lemma js_inj: "js s = js t \<longleftrightarrow> s = t"
  by (auto simp: js_def of_char_16_inj inj_def dest: map_injective)

lemma split_on_js: "split_on (of_char c) (js s) = map js (split_str c s)"
  by (induction s) (auto simp: of_char_16_inj split: list.splits)

lemma split_str_not_Nil [simp]: "split_str c s \<noteq> []"
  by (induction s) (auto split: list.splits)

lemma split_str_append: "split_str c (p @ c # s) = split_str c p @ split_str c s"
proof (induction p)
  case (Cons x xs)
  then show ?case by (cases "split_str c xs") (use split_str_not_Nil in auto)
qed simp

lemma split_str_chunk:
  "chunk \<noteq> [] \<Longrightarrow> last chunk = c \<Longrightarrow> split_str c (chunk @ s) = split_str c (butlast chunk) @ split_str c s"
  using split_str_append [of c "butlast chunk" s] by (metis append_Cons append_Nil append_assoc append_butlast_last_id)

lemma mime_text_items:
  "split_str CHR '','' mime_text =
     [''application/msword'', ''doc dot'',
      ''application/pdf'', ''pdf'',
      ''application/pgp-signature'', ''pgp'',
      ''application/postscript'', ''ps ai eps'',
      ''application/rtf'', ''rtf'',
      ''application/vnd.ms-excel'', ''xls xlb'',
      ''application/vnd.ms-powerpoint'', ''ppt pps pot'',
      ''application/zip'', ''zip'',
      ''application/x-shockwave-flash'', ''swf swfl'',
      ''application/vnd.openxmlformats-officedocument.wordprocessingml.document'', ''docx'',
      ''application/vnd.openxmlformats-officedocument.wordprocessingml.template'', ''dotx'',
      ''application/vnd.openxmlformats-officedocument.spreadsheetml.sheet'', ''xlsx'',
      ''application/vnd.openxmlformats-officedocument.presentationml.presentation'', ''pptx'',
      ''application/vnd.openxmlformats-officedocument.presentationml.template'', ''potx'',
      ''application/vnd.openxmlformats-officedocument.presentationml.slideshow'', ''ppsx'',
      ''application/x-javascript'', ''js'',
      ''application/json'', ''json'',
      ''audio/mpeg'', ''mp3 mpga mpega mp2'',
      ''audio/x-wav'', ''wav'',
      ''audio/x-m4a'', ''m4a'',
      ''audio/ogg'', ''oga ogg'',
      ''audio/aiff'', ''aiff aif'',
      ''audio/flac'', ''flac'',
      ''audio/aac'', ''aac'',
      ''audio/ac3'', ''ac3'',
      ''audio/x-ms-wma'', ''wma'',
      ''image/bmp'', ''bmp'',
      ''image/gif'', ''gif'',
      ''image/jpeg'', ''jpg jpeg jpe'',
      ''image/photoshop'', ''psd'',
      ''image/png'', ''png'',
      ''image/svg+xml'', ''svg svgz'',
      ''image/tiff'', ''tiff tif'',
      ''text/plain'', ''asc txt text diff log'',
      ''text/html'', ''htm html xhtml'',
      ''text/css'', ''css'',
      ''text/csv'', ''csv'',
      ''text/rtf'', ''rtf'',
      ''video/mpeg'', ''mpeg mpg mpe m2v'',
      ''video/quicktime'', ''qt mov'',
      ''video/mp4'', ''mp4'',
      ''video/x-m4v'', ''m4v'',
      ''video/x-flv'', ''flv'',
      ''video/x-ms-wmv'', ''wmv'',
      ''video/avi'', ''avi'',
      ''video/webm'', ''webm'',
      ''video/3gpp'', ''3gpp 3gp'',
      ''video/3gpp2'', ''3g2'',
      ''video/vnd.rn-realvideo'', ''rv'',
      ''video/ogg'', ''ogv'',
      ''video/x-matroska'', ''mkv'',
      ''application/vnd.oasis.opendocument.formula-template'', ''otf'',
      ''application/octet-stream'', ''exe'']"
  unfolding mime_text_def
  by (simp only: split_str_chunk list.simps last.simps if_True if_False simp_thms) simp

lemma types_of_map: "types_of (map f xs) = map f (types_of xs)"
  by (induction xs rule: types_of.induct) auto

lemma default_types: "distinct (types_of (split_str CHR '','' mime_text)) \<and> ''*'' \<notin> set (types_of (split_str CHR '','' mime_text))"
  unfolding mime_text_items by simp

lemma mimeData_items: "split_on 44 mimeData = map js (split_str CHR '','' mime_text)"
  using split_on_js [of "CHR '',''" mime_text] by (simp add: mimeData_def)

lemma new_mime_wf: "mime_wf new_mime"
proof -
  have "star = js ''*''" by (simp add: star_def)
  then have "star \<notin> set (types_of (split_on 44 mimeData))" "distinct (types_of (split_on 44 mimeData))"
    using default_types
    by (auto simp: \<open>star = js ''*''\<close> mimeData_items types_of_map distinct_map inj_on_def js_inj simp del: js_Cons)
  then show ?thesis
    unfolding new_mime_def addMimeType_def by (intro wf_add_items) (auto simp: mime_wf_def)
qed

section \<open>Lists of extensions and lists of types\<close>

lemma ext_types_known:
  assumes "\<forall>e \<in> set es. e \<noteq> star \<and> (\<exists>t. map_of (mimes m) e = Some t \<and> t \<noteq> [])" "distinct acc"
  shows "\<exists>ts. ext_types m add es (map Own acc) = Some (map Own ts) \<and> distinct ts \<and>
    set ts = set acc \<union> (\<lambda>e. the (map_of (mimes m) e)) ` set es"
  using assms
proof (induction es arbitrary: acc)
  case (Cons e es)
  then obtain t where t: "map_of (mimes m) e = Some t" "t \<noteq> []" "e \<noteq> star" by auto
  have "read_prop (mimes m) e = Some (Own t)" using t(1) by simp
  then have "ext_types m add (e # es) (map Own acc) =
      ext_types m add es (map Own (if t \<in> set acc then acc else acc @ [t]))"
    using t(2,3) by (cases t) (auto simp: Let_def inArray_found simp del: read_prop_Own)
  moreover have "distinct (if t \<in> set acc then acc else acc @ [t])" using Cons.prems(2) by simp
  moreover have "\<forall>e \<in> set es. e \<noteq> star \<and> (\<exists>t. map_of (mimes m) e = Some t \<and> t \<noteq> [])"
    using Cons.prems(1) by simp
  ultimately obtain ts where "ext_types m add (e # es) (map Own acc) = Some (map Own ts)" "distinct ts"
      "set ts = set (if t \<in> set acc then acc else acc @ [t]) \<union> (\<lambda>e. the (map_of (mimes m) e)) ` set es"
    using Cons.IH by metis
  moreover have "set (if t \<in> set acc then acc else acc @ [t]) \<union> (\<lambda>e. the (map_of (mimes m) e)) ` set es =
      set acc \<union> (\<lambda>e. the (map_of (mimes m) e)) ` set (e # es)"
    using t(1) by auto
  ultimately show ?case by metis
qed auto

lemma types_exts_concat: "star \<notin> set ms \<Longrightarrow> types_exts m ms exts = exts @ concat (map (mime_exts m) ms)"
  by (induction ms arbitrary: exts) auto

lemma types_exts_sub: "set (types_exts m ms exts) \<subseteq> set exts \<union> \<Union> (set ` mime_exts m ` set ms)"
  by (induction m ms exts rule: types_exts.induct) auto

lemma mime_match_eq: "mime_match s = Some (p, q) \<Longrightarrow> s = p @ 47 # q"
proof -
  assume m: "mime_match s = Some (p, q)"
  then obtain c where c: "dropWhile (\<lambda>c. c \<noteq> 47) s = c # q" "takeWhile (\<lambda>c. c \<noteq> 47) s = p"
    by (auto simp: mime_match_def Let_def split: list.splits if_splits)
  then have "c = 47" by (simp add: dropWhile_eq_Cons_conv)
  with c show ?thesis using takeWhile_dropWhile_id [of "\<lambda>c. c \<noteq> 47" s] by simp
qed

text \<open>The extensions of a type that has the simple form are among those that the type stands for.\<close>

lemma mime_exts_type:
  assumes "map_of (extensions m) t = Some es" "mime_match t \<noteq> None"
  shows "set es \<subseteq> set (mime_exts m t)"
proof -
  obtain p q where pq: "mime_match t = Some (p, q)" using assms(2) by auto
  have "prefix (p @ [47]) t" using mime_match_eq [OF pq] by simp
  moreover have "(t, es) \<in> set (extensions m)" using assms(1) by (rule map_of_SomeD)
  ultimately show ?thesis using pq assms(1) by (force simp: mime_exts_def)
qed

lemma mime_exts_listed:
  assumes "mime_wf m" "x \<in> set (mime_exts m t)"
  shows "\<exists>t' es. map_of (extensions m) t' = Some es \<and> x \<in> set es"
proof -
  obtain p q where pq: "mime_match t = Some (p, q)" using assms(2) by (cases "mime_match t") (auto simp: mime_exts_def)
  show ?thesis
  proof (cases "q = star")
    case True
    then obtain t' es where "(t', es) \<in> set (extensions m)" "x \<in> set es"
      using assms(2) pq by (auto simp: mime_exts_def)
    then show ?thesis using assms(1) by (auto simp: mime_wf_def)
  next
    case False
    then obtain es where "map_of (extensions m) t = Some es" "x \<in> set es"
      using assms(2) pq by (cases "map_of (extensions m) t") (auto simp: mime_exts_def)
    then show ?thesis by blast
  qed
qed

text \<open>
  C40.  Over well-formed tables, a list of filters whose extensions are all known and not the asterisk
  gives exactly the types of the extensions, each once; turning the types back into extensions gives every
  extension whose type has the form of two words, and only extensions that have a type.
\<close>

theorem mime_lists_back:
  assumes "mime_wf m"
    "\<forall>e \<in> set (concat (map split_commas filters)). e \<noteq> star \<and> (\<exists>t. map_of (mimes m) e = Some t \<and> t \<noteq> [])"
  shows "\<exists>ts. extList2mimes m filters add = map Own ts \<and> distinct ts \<and>
    set ts = (\<lambda>e. the (map_of (mimes m) e)) ` set (concat (map split_commas filters)) \<and>
    (\<forall>e \<in> set (concat (map split_commas filters)).
       mime_match (the (map_of (mimes m) e)) \<noteq> None \<longrightarrow> e \<in> set (mimes2exts m ts)) \<and>
    (\<forall>e \<in> set (mimes2exts m ts). e = js ''__proto__'' \<or> map_of (mimes m) e \<noteq> None)"
proof -
  let ?es = "concat (map split_commas filters)"
  obtain ts where ts: "extList2mimes m filters add = map Own ts" "distinct ts"
      "set ts = (\<lambda>e. the (map_of (mimes m) e)) ` set ?es"
    using ext_types_known [OF assms(2), of "[]" add] by (auto simp: extList2mimes_def)
  have listed: "map_of (mimes m) e = Some t \<Longrightarrow> \<exists>es. map_of (extensions m) t = Some es \<and> e \<in> set es \<and> t \<noteq> star" for e t
    using assms(1) unfolding mime_wf_def by blast
  have "star \<notin> set ts"
  proof
    assume "star \<in> set ts"
    then obtain e where "e \<in> set ?es" "star = the (map_of (mimes m) e)" using ts(3) by auto
    then show False using assms(2) listed by fastforce
  qed
  then have m2e: "mimes2exts m ts = concat (map (mime_exts m) ts)" by (simp add: mimes2exts_def types_exts_concat)
  have "e \<in> set (mimes2exts m ts)" if e: "e \<in> set ?es" "mime_match (the (map_of (mimes m) e)) \<noteq> None" for e
  proof -
    obtain t where t: "map_of (mimes m) e = Some t" using assms(2) e(1) by blast
    then obtain es where "map_of (extensions m) t = Some es" "e \<in> set es" using listed by blast
    then have "e \<in> set (mime_exts m t)" using mime_exts_type e(2) t by fastforce
    moreover have "t \<in> set ts" using ts(3) e(1) t by force
    ultimately show ?thesis by (auto simp: m2e)
  qed
  moreover have "e = js ''__proto__'' \<or> map_of (mimes m) e \<noteq> None" if "e \<in> set (mimes2exts m ts)" for e
  proof -
    obtain t0 where "e \<in> set (mime_exts m t0)" using \<open>e \<in> set (mimes2exts m ts)\<close> unfolding m2e by auto
    then obtain t es where "map_of (extensions m) t = Some es" "e \<in> set es"
      using mime_exts_listed [OF assms(1)] by blast
    then show ?thesis using assms(1) unfolding mime_wf_def by blast
  qed
  ultimately show ?thesis using ts by blast
qed

lemma split_on_blank: "split_on 32 (js s) = map js (split_str CHR '' '' s)"
  using split_on_js [of "CHR '' ''" s] by simp

fun find_exts :: "string list \<Rightarrow> string \<Rightarrow> string option" where
  "find_exts (t # ext # items) k = (case find_exts items k of None \<Rightarrow> if t = k then Some ext else None | r \<Rightarrow> r)"
| "find_exts _ k = None"

fun find_type :: "string list \<Rightarrow> string \<Rightarrow> string option" where
  "find_type (t # ext # items) k =
     (case find_type items k of None \<Rightarrow> if k \<in> set (split_str CHR '' '' ext) then Some t else None | r \<Rightarrow> r)"
| "find_type _ k = None"

lemma find_exts_tables:
  "map_of (extensions (snd (add_items (map js items) m))) (js k) =
   (case find_exts items k of Some e \<Rightarrow> Some (map js (split_str CHR '' '' e)) | None \<Rightarrow> map_of (extensions m) (js k))"
  by (induction items k arbitrary: m rule: find_exts.induct)
    (auto simp: add_type_def js_inj split_on_blank split: option.splits simp del: js_Cons)

lemma find_type_tables:
  "k \<noteq> ''__proto__'' \<Longrightarrow>
   map_of (mimes (snd (add_items (map js items) m))) (js k) =
   (case find_type items k of Some t \<Rightarrow> Some (js t) | None \<Rightarrow> map_of (mimes m) (js k))"
  by (induction items k arbitrary: m rule: find_type.induct)
    (auto simp: add_type_def js_inj split_on_blank map_of_put_all image_iff split: option.splits simp del: js_Cons)

lemma default_exts:
  "map_of (extensions new_mime) (js k) = map_option (\<lambda>e. map js (split_str CHR '' '' e)) (find_exts (split_str CHR '','' mime_text) k)"
  unfolding new_mime_def addMimeType_def mimeData_items find_exts_tables by (simp split: option.splits)

lemma default_type:
  "k \<noteq> ''__proto__'' \<Longrightarrow> map_of (mimes new_mime) (js k) = map_option js (find_type (split_str CHR '','' mime_text) k)"
  unfolding new_mime_def addMimeType_def mimeData_items by (simp add: find_type_tables split: option.splits)

lemma default_svg: "map_of (extensions new_mime) (js ''image/svg+xml'') = Some [js ''svg'', js ''svgz'']"
  unfolding default_exts mime_text_items by simp

lemma default_known:
  "map_of (mimes new_mime) (js ''rtf'') = Some (js ''text/rtf'')"
  "map_of (mimes new_mime) (js ''jpg'') = Some (js ''image/jpeg'')"
  by (subst default_type; simp add: mime_text_items del: js_Cons)+

text \<open>
  Types with a hyphen, a dot or a plus have extensions in the table but stand for none, so that a field which
  accepts only such types accepts every file.
\<close>

lemma mimes2exts_forgets:
  "map_of (extensions new_mime) (js ''image/svg+xml'') \<noteq> None \<and>
   a_extensions (mimes2extList i18n new_mime (TypesList [js ''image/svg+xml''])) = star"
proof -
  have "mime_match (js ''image/svg+xml'') = None" by code_simp
  then show ?thesis by (simp add: default_svg mimes2extList_def mimes2exts_def mime_exts_def star_def del: js_Cons)
qed

text \<open>A file whose extension is the name of something every object has gets that thing as its type.\<close>

lemma getFileMime_inherited: "getFileMime new_mime (js ''photo.constructor'') = Inherited (js ''constructor'')"
proof -
  have "getFileExtension (js ''photo.constructor'') = js ''constructor''" by code_simp
  moreover have "map_of (mimes new_mime) (js ''constructor'') = None"
    by (subst default_type) (simp_all add: mime_text_items)
  ultimately show ?thesis by (simp add: getFileMime_def read_prop_def object_prototype_def del: js_Cons)
qed

theorem mime_lists_back_witness:
  "\<exists>ts. extList2mimes new_mime [js ''rtf , jpg''] False = map Own ts \<and> js ''jpg'' \<in> set (mimes2exts new_mime ts)"
proof -
  have f: "concat (map split_commas [js ''rtf , jpg'']) = [js ''rtf'', js ''jpg'']" by code_simp
  have "\<forall>e \<in> set [js ''rtf'', js ''jpg'']. e \<noteq> star \<and> (\<exists>t. map_of (mimes new_mime) e = Some t \<and> t \<noteq> [])"
    by (simp add: default_known del: js_Cons) (simp add: star_def)
  moreover have "mime_match (js ''image/jpeg'') \<noteq> None" by code_simp
  ultimately show ?thesis
    using mime_lists_back [OF new_mime_wf, of "[js ''rtf , jpg'']" False] unfolding f
    by (auto simp: default_known simp del: js_Cons)
qed

end
