(* ===== verification/PluploadUtils.thy ===== *)
theory PluploadUtils
  imports MoxieEncode Mime
begin

text \<open>
  The helpers of \<open>resources/plugins/oss/lib/plupload-2.1.2/js/plupload.dev.js\<close>: \<open>normalizeCaps\<close> (lines 30 to
  79), \<open>xmlEncode\<close>, \<open>cleanName\<close>, \<open>buildUrl\<close> and \<open>formatSize\<close> (lines 352 to 572).

  Features and settings are not named like members of \<open>Object.prototype\<close>.  Sizes are below $2^{49}$, where
  the quotients that \<open>formatSize\<close> rounds are exact.
\<close>

section \<open>Required features\<close>

definition feature_map :: "(jstr \<times> jstr) list" where
  "feature_map =
     [(js ''chunks'', js ''slice_blob''), (js ''jpgresize'', js ''send_binary_string''),
      (js ''pngresize'', js ''send_binary_string''), (js ''progress'', js ''report_upload_progress''),
      (js ''multi_selection'', js ''select_multiple''), (js ''dragdrop'', js ''drag_and_drop''),
      (js ''drop_element'', js ''drag_and_drop''), (js ''headers'', js ''send_custom_headers''),
      (js ''urlstream_upload'', js ''send_binary_string''), (js ''canSendBinary'', js ''send_binary''),
      (js ''triggerDialog'', js ''summon_file_dialog'')]"

type_synonym caps = "(jstr \<times> jsval) list"

definition resolve_feature :: "jstr \<Rightarrow> jsval \<Rightarrow> bool \<Rightarrow> caps \<Rightarrow> caps" where
  "resolve_feature feature v strict caps =
     (case map_of feature_map feature of
        Some cap \<Rightarrow> obj_set caps cap v
      | None \<Rightarrow> if \<not> strict then obj_set caps feature v else caps)"

text \<open>
  The features are a list in a string, an object, or \<open>true\<close>, which asks the settings.  The size of chunks is
  a number or a flag; a missing \<open>resize\<close> has no property \<open>enabled\<close>.
\<close>

definition positive :: "jsval \<Rightarrow> bool" where
  "positive v = (case v of JNum n \<Rightarrow> 0 < n | JBool b \<Rightarrow> b | _ \<Rightarrow> False)"

definition enabled :: "jsval \<Rightarrow> bool result" where
  "enabled resize =
     (case resize of
        JUndefined \<Rightarrow> Inl TypeErr
      | JNull \<Rightarrow> Inl TypeErr
      | JObj kvs \<Rightarrow> Inr (truthy (prop_of kvs (js ''enabled'')))
      | _ \<Rightarrow> Inr False)"

definition normalizeCaps :: "(jstr \<times> jsval) list \<Rightarrow> caps result" where
  "normalizeCaps settings =
     (case prop_of settings (js ''required_features'') of
        JStr s \<Rightarrow> Inr (foldl (\<lambda>caps f. resolve_feature f (JBool True) False caps) [] (split_commas s))
      | JBool True \<Rightarrow>
          (let caps = (if positive (prop_of settings (js ''chunk_size'')) then [(js ''slice_blob'', JBool True)] else [])
           in bindR (enabled (prop_of settings (js ''resize'')))
                (\<lambda>resize.
                   let caps = (if resize \<or> \<not> truthy (prop_of settings (js ''multipart''))
                               then obj_set caps (js ''send_binary_string'') (JBool True) else caps)
                   in Inr (foldl (\<lambda>caps (v, k). resolve_feature (key_string k) (JBool (truthy v)) True caps) caps
                             (each_items (JObj settings)))))
      | JBool False \<Rightarrow> Inr []
      | JUndefined \<Rightarrow> Inr []
      | JNum _ \<Rightarrow> Inr []
      | JNaN \<Rightarrow> Inr []
      | JFun _ \<Rightarrow> Inr []
      | obj \<Rightarrow> Inr (foldl (\<lambda>caps (v, k). resolve_feature (key_string k) v False caps) [] (each_items obj)))"

section \<open>Text\<close>

definition xmlEncodeChars :: "(jchar \<times> jstr) list" where
  "xmlEncodeChars = [(60, js ''lt''), (62, js ''gt''), (38, js ''amp''), (34, js ''quot''), (39, js ''#39'')]"

definition xmlEncode :: "(nat \<Rightarrow> jstr) \<Rightarrow> jsval \<Rightarrow> jsval" where
  "xmlEncode src str =
     (if truthy str
      then JStr (concat (map (\<lambda>chr. case map_of xmlEncodeChars chr of
                                      Some e \<Rightarrow> [38] @ e @ [59]
                                    | None \<Rightarrow> [chr]) (toStr src str)))
      else str)"

text \<open>The ranges of national letters with what replaces them, in order.\<close>

definition diacritics :: "((jchar \<times> jchar) \<times> jchar) list" where
  "diacritics =
     [((0xC0, 0xC6), 65), ((0xE0, 0xE6), 97), ((0xC7, 0xC7), 67), ((0xE7, 0xE7), 99),
      ((0xC8, 0xCB), 69), ((0xE8, 0xEB), 101), ((0xCC, 0xCF), 73), ((0xEC, 0xEF), 105),
      ((0xD1, 0xD1), 78), ((0xF1, 0xF1), 110), ((0xD2, 0xD8), 79), ((0xF2, 0xF8), 111),
      ((0xD9, 0xDC), 85), ((0xF9, 0xFC), 117)]"

definition replace_range :: "(jchar \<times> jchar) \<times> jchar \<Rightarrow> jstr \<Rightarrow> jstr" where
  "replace_range r s = map (\<lambda>c. if fst (fst r) \<le> c \<and> c \<le> snd (fst r) then snd r else c) s"

function underscore_spaces :: "jstr \<Rightarrow> jstr" where
  "underscore_spaces [] = []"
| "underscore_spaces (c # cs) =
     (if js_space c then 95 # underscore_spaces (dropWhile js_space cs) else c # underscore_spaces cs)"
  by pat_completeness auto
termination by (relation "measure length") (auto simp: length_dropWhile_le le_imp_less_Suc)

definition name_char :: "jchar \<Rightarrow> bool" where
  "name_char c \<longleftrightarrow> word_char c \<or> c = 45 \<or> c = 46"

definition cleanName :: "jstr \<Rightarrow> jstr" where
  "cleanName name =
     filter name_char (underscore_spaces (foldl (\<lambda>s r. replace_range r s) name diacritics))"

section \<open>Addresses\<close>

definition encode_value :: "(nat \<Rightarrow> jstr) \<Rightarrow> jsval \<Rightarrow> jstr option" where
  "encode_value src v = encodeURIComponent (toStr src v)"

fun query_loop :: "(nat \<Rightarrow> jstr) \<Rightarrow> (jsval \<times> jsval) list \<Rightarrow> jstr \<Rightarrow> jstr option" where
  "query_loop src [] query = Some query"
| "query_loop src ((v, name) # items) query =
     (case encode_value src name of
        None \<Rightarrow> None
      | Some n \<Rightarrow>
          (case encode_value src v of
             None \<Rightarrow> None
           | Some w \<Rightarrow> query_loop src items (query @ (if query \<noteq> [] then [38] else []) @ n @ [61] @ w)))"

text \<open>\<open>url.indexOf('?') > 0\<close>\<close>

definition has_query :: "jstr \<Rightarrow> bool" where
  "has_query url = (case url of [] \<Rightarrow> False | c # cs \<Rightarrow> c \<noteq> 63 \<and> 63 \<in> set cs)"

definition buildUrl :: "(nat \<Rightarrow> jstr) \<Rightarrow> jstr \<Rightarrow> jsval \<Rightarrow> jstr option" where
  "buildUrl src url items =
     map_option
       (\<lambda>query. if query \<noteq> [] then url @ (if has_query url then [38] else [63]) @ query else url)
       (query_loop src (each_items items) [])"

section \<open>Sizes\<close>

text \<open>The number of tenths, printed with at most one digit after the point.\<close>

definition tenths :: "nat \<Rightarrow> jstr" where
  "tenths n = natToString (n div 10) @ (if n mod 10 = 0 then [] else 46 # natToString (n mod 10))"

definition word_in :: "(nat \<Rightarrow> jstr) \<Rightarrow> (jstr \<times> jsval) list \<Rightarrow> jstr \<Rightarrow> jstr" where
  "word_in src i18n s = (case translate i18n s of Own v \<Rightarrow> toStr src v | Inherited k \<Rightarrow> k)"

definition formatSize :: "(nat \<Rightarrow> jstr) \<Rightarrow> (jstr \<times> jsval) list \<Rightarrow> int option \<Rightarrow> jstr" where
  "formatSize src i18n sz =
     (case sz of
        None \<Rightarrow> word_in src i18n (js ''N/A'')
      | Some n \<Rightarrow>
          if n < 0 then word_in src i18n (js ''N/A'')
          else let m = nat n;
                   in_tenths = (\<lambda>boundary unit. tenths ((20 * m + boundary) div (2 * boundary)) @ [32] @ word_in src i18n unit)
               in if m > 1024 ^ 4 then in_tenths (1024 ^ 4) (js ''tb'')
                  else if m > 1024 ^ 3 then in_tenths (1024 ^ 3) (js ''gb'')
                  else if m > 1024 ^ 2 then in_tenths (1024 ^ 2) (js ''mb'')
                  else if m > 1024 then natToString ((2 * m + 1024) div 2048) @ [32] @ word_in src i18n (js ''kb'')
                  else natToString m @ [32] @ word_in src i18n (js ''b''))"

section \<open>Names and markup\<close>

lemma cleanName_chars: "list_all name_char (cleanName name)"
  by (simp add: cleanName_def list_all_iff)

text \<open>Letters of either case, hyphens and dots stay; the multiplication sign is taken for a letter.\<close>

lemma cleanName_example: "cleanName (js ''My File-1.JPG'' @ [0xD7]) = js ''My_File-1.JPGO''"
  by code_simp

lemma xmlEncode_safe:
  assumes "truthy v"
  shows "\<exists>s. xmlEncode src v = JStr s \<and> set s \<inter> {60, 62, 34, 39} = {}"
proof -
  have "set (case map_of xmlEncodeChars c of Some e \<Rightarrow> [38] @ e @ [59] | None \<Rightarrow> [c]) \<inter> {60, 62, 34, 39} = {}" for c
    by (auto simp: xmlEncodeChars_def split: if_splits)
  with assms show ?thesis by (fastforce simp: xmlEncode_def)
qed

section \<open>The query\<close>

text \<open>Reading a query: pairs between ampersands, split at the first equals sign and decoded.\<close>

definition parse_pair :: "jstr \<Rightarrow> jstr option \<times> jstr option" where
  "parse_pair s =
     (decodeURIComponent (takeWhile (\<lambda>c. c \<noteq> 61) s), decodeURIComponent (drop 1 (dropWhile (\<lambda>c. c \<noteq> 61) s)))"

definition parse_query :: "jstr \<Rightarrow> (jstr option \<times> jstr option) list" where
  "parse_query q = map parse_pair (split_on 38 q)"

definition uri_char :: "jchar \<Rightarrow> bool" where
  "uri_char c \<longleftrightarrow> uri_unescaped (unat c) \<or> c = 37"

lemma hexUpper_uri: "n < 16 \<Longrightarrow> uri_char (hexUpper n)"
  by (simp add: uri_char_def uri_unescaped_def hexUpper_def unat_of_nat)

lemma encoded_chars: "encodeURIComponent s = Some t \<Longrightarrow> list_all uri_char t"
proof -
  assume "encodeURIComponent s = Some t"
  then obtain ps where ps: "code_points s = Some ps" "t = concat (map enc_point ps)" by (auto simp: encodeURI_points)
  have "list_all uri_char (enc_point n)" if "scalar n" for n
  proof (cases "uri_unescaped n")
    case True
    then have "n < 128" using uri_unescaped_range by blast
    with True show ?thesis by (simp add: enc_point_def uri_char_def unat_of_nat)
  next
    case False
    have "n < 0x110000" using that by (simp add: scalar_def)
    moreover have "list_all uri_char (pct b)" if "b < 256" for b
      using that by (simp add: pct_def hexUpper_uri) (simp add: uri_char_def)
    ultimately have "\<forall>b \<in> set (utf8_bytes n). list_all uri_char (pct b)" using utf8_bytes_range by blast
    with False show ?thesis by (simp add: enc_point_def list_all_iff)
  qed
  with code_points_scalar [OF ps(1)] ps(2) show ?thesis by (auto simp: list_all_iff)
qed

lemma uri_char_not: "uri_char c \<Longrightarrow> c \<noteq> 38 \<and> c \<noteq> 61 \<and> c \<noteq> 63 \<and> c \<noteq> 35"
  by (auto simp: uri_char_def uri_unescaped_def)

definition pair_text :: "(nat \<Rightarrow> jstr) \<Rightarrow> jsval \<times> jsval \<Rightarrow> jstr" where
  "pair_text src p = the (encode_value src (snd p)) @ [61] @ the (encode_value src (fst p))"

definition encodable :: "(nat \<Rightarrow> jstr) \<Rightarrow> jsval \<Rightarrow> bool" where
  "encodable src v \<longleftrightarrow> code_points (toStr src v) \<noteq> None"

lemma encodable: "encodable src v \<longleftrightarrow> encode_value src v \<noteq> None"
  by (simp add: encodable_def encode_value_def encodeURIComponent_def)

lemma query_loop_join:
  "query_loop src items query =
     (if \<forall>(v, k) \<in> set items. encodable src v \<and> encodable src k
      then Some (query @ (if query \<noteq> [] \<and> items \<noteq> [] then [38] else []) @ join (map (pair_text src) items) [38])
      else None)"
proof (induction src items query rule: query_loop.induct)
  case (2 src v name items query)
  show ?case
  proof (cases "encode_value src name"; cases "encode_value src v")
    fix n w assume nw: "encode_value src name = Some n" "encode_value src v = Some w"
    have "pair_text src (v, name) = n @ 61 # w" using nw by (simp add: pair_text_def)
    with nw show ?thesis using 2 [OF nw] by (cases items) (auto simp: encodable)
  qed (auto simp: encodable)
qed simp

lemma parse_pair_text:
  assumes "encodable src v" "encodable src k"
  shows "parse_pair (pair_text src (v, k)) = (Some (toStr src k), Some (toStr src v)) \<and>
    set (pair_text src (v, k)) \<inter> {38, 63, 35} = {}"
proof -
  obtain n w where nw: "encodeURIComponent (toStr src k) = Some n" "encodeURIComponent (toStr src v) = Some w"
    using assms by (auto simp: encodable encode_value_def)
  have "61 \<notin> set n" using encoded_chars [OF nw(1)] uri_char_not by (auto simp: list_all_iff)
  then have "takeWhile (\<lambda>c. c \<noteq> 61) (n @ 61 # w) = n" "dropWhile (\<lambda>c. c \<noteq> 61) (n @ 61 # w) = 61 # w"
    by (auto simp: takeWhile_append dropWhile_append)
  moreover have "set (n @ 61 # w) \<inter> {38, 63, 35} = {}"
    using encoded_chars [OF nw(1)] encoded_chars [OF nw(2)] uri_char_not by (fastforce simp: list_all_iff)
  ultimately show ?thesis
    using nw decode_encodeURI [OF nw(1)] decode_encodeURI [OF nw(2)] by (simp add: parse_pair_def pair_text_def encode_value_def)
qed

text \<open>
  C39.  An address is built exactly when every name and value is well-formed text.  Then, unless there is
  nothing to add and it stays as it is, it is the given address, a separator, and a query that has no question mark and no hash and
  from which the names and values are read back in their order.
\<close>

theorem buildUrl_read_back:
  "(buildUrl src url items = None) =
     (\<exists>(v, k) \<in> set (each_items items). code_points (toStr src v) = None \<or> code_points (toStr src k) = None) \<and>
   (case buildUrl src url items of
      None \<Rightarrow> True
    | Some u \<Rightarrow>
        if each_items items = [] then u = url
        else \<exists>q. u = url @ (if has_query url then [38] else [63]) @ q \<and> set q \<inter> {63, 35} = {} \<and>
                 parse_query q = map (\<lambda>(v, k). (Some (toStr src k), Some (toStr src v))) (each_items items))"
proof (cases "\<forall>(v, k) \<in> set (each_items items). encodable src v \<and> encodable src k")
  case False
  then have "buildUrl src url items = None" by (auto simp: buildUrl_def query_loop_join)
  with False show ?thesis by (auto simp: encodable_def)
next
  case True
  let ?q = "join (map (pair_text src) (each_items items)) [38]"
  have b: "buildUrl src url items = Some (if ?q \<noteq> [] then url @ (if has_query url then [38] else [63]) @ ?q else url)"
    using True by (simp add: buildUrl_def query_loop_join)
  have w: "\<not> (\<exists>(v, k) \<in> set (each_items items). code_points (toStr src v) = None \<or> code_points (toStr src k) = None)"
    using True by (auto simp: encodable_def)
  show ?thesis
  proof (cases "each_items items")
    case Nil
    then show ?thesis by (simp add: b)
  next
    case (Cons p ps)
    have pieces: "set (pair_text src x) \<inter> {38, 63, 35} = {} \<and>
        parse_pair (pair_text src x) = (Some (toStr src (snd x)), Some (toStr src (fst x)))"
      if "x \<in> set (each_items items)" for x
      using parse_pair_text [of src "fst x" "snd x"] True that by (auto simp: case_prod_beta)
    have "split_on 38 ?q = map (pair_text src) (each_items items)"
      using pieces Cons by (intro split_on_join) auto
    then have "parse_query ?q = map (\<lambda>(v, k). (Some (toStr src k), Some (toStr src v))) (each_items items)"
      using pieces by (auto simp: parse_query_def case_prod_beta)
    moreover have "set (join ps [38]) \<subseteq> \<Union> (set ` set ps) \<union> {38}" for ps :: "jstr list"
      by (induction ps "[38::jchar]" rule: join.induct) auto
    then have "set ?q \<inter> {63, 35} = {}" using pieces by fastforce
    moreover have "?q \<noteq> []" by (cases ps) (simp_all add: Cons pair_text_def)
    ultimately show ?thesis using b Cons w by simp
  qed
qed

text \<open>A question mark in front is not seen, so a second one is put in.\<close>

lemma buildUrl_second_mark: "buildUrl src (js ''?a=1'') (JObj [(js ''b'', JStr (js ''2''))]) = Some (js ''?a=1?b=2'')"
  by (simp add: buildUrl_def each_items_def prop_of_def encode_value_def encodeURIComponent_def
      uri_unescaped_def lead_surrogate_def trail_surrogate_def has_query_def)

section \<open>Sizes in words\<close>

lemma word_in_plain [simp]:
  "word_in src [] (js ''b'') = js ''b''" "word_in src [] (js ''kb'') = js ''kb''" "word_in src [] (js ''mb'') = js ''mb''"
  by (simp_all add: word_in_def translate_def read_prop_def object_prototype_def)

lemma formatSize_bytes: "n \<le> 1024 \<Longrightarrow> formatSize src [] (Some (int n)) = natToString n @ js '' b''"
  by (simp add: formatSize_def Let_def del: js_Cons) simp

text \<open>1024 bytes are no kilobyte yet, and a size with a point is read back ten times as large.\<close>

lemma formatSize_surprises:
  "formatSize src [] (Some 1024) = js ''1024 b''"
  "formatSize src [] (Some 1572864) = js ''1.5 mb''"
  by (simp_all add: formatSize_def Let_def tenths_def natToString.simps [of "numeral k" for k] natToString.simps [of "Suc 0"] del: js_Cons) simp_all

lemma parseSizeStr_point: "parseSizeStr (js ''1.5 mb'') = Inr 15728640"
  by code_simp

end
