(* ===== verification/Version.thy ===== *)
theory Version
  imports JS_Objects Moxie
begin

text \<open>
  Comparing versions in \<open>resources/plugins/oss/lib/plupload-2.1.2/js/moxie.js\<close>: \<open>version_compare\<close> of
  module \<open>Env\<close> (lines 1150 to 1258).

  No part of a version is the name of a member of \<open>Object.prototype\<close>, and numbers in versions are below
  $2^{53}$.
\<close>

section \<open>Preparing a version\<close>

definition dashes :: "jstr \<Rightarrow> jstr" where
  "dashes v = map (\<lambda>c. if c = 95 \<or> c = 45 \<or> c = 43 then 46 else c) v"

definition plain :: "jchar \<Rightarrow> bool" where
  "plain c \<longleftrightarrow> c \<noteq> 46 \<and> \<not> is_digit c"

text \<open>Dots around every run of other characters.\<close>

function surround :: "jstr \<Rightarrow> jstr" where
  "surround [] = []"
| "surround (c # cs) =
     (if plain c then 46 # c # takeWhile plain cs @ 46 # surround (dropWhile plain cs) else c # surround cs)"
  by pat_completeness auto
termination by (relation "measure length") (auto simp: length_dropWhile_le le_imp_less_Suc)

fun squeeze :: "jstr \<Rightarrow> jstr" where
  "squeeze (a # b # cs) = (if a = 46 \<and> b = 46 then squeeze (b # cs) else a # squeeze (b # cs))"
| "squeeze cs = cs"

text \<open>The number for the empty version, and a component.\<close>

datatype vpart = VMin | VText jstr

definition prepVersion :: "jstr \<Rightarrow> vpart list" where
  "prepVersion v =
     (let w = squeeze (surround (dashes v)) in if w = [] then [VMin] else map VText (split_on 46 w))"

definition vm :: "(jstr \<times> int) list" where
  "vm = [(js ''dev'', -6), (js ''alpha'', -5), (js ''a'', -5), (js ''beta'', -4), (js ''b'', -4), (js ''RC'', -3),
         (js ''rc'', -3), (js ''#'', -2), (js ''p'', 1), (js ''pl'', 1)]"

text \<open>
  The number of a component, \<open>None\<close> for NaN: what counts as a number but does not begin with a digit, that
  is white space and infinity.
\<close>

definition nan_text :: "jstr \<Rightarrow> bool" where
  "nan_text s \<longleftrightarrow> trim s = [] \<or> trim s = js ''Infinity''"

definition numVersion :: "vpart option \<Rightarrow> int option" where
  "numVersion p =
     (case p of
        None \<Rightarrow> Some 0
      | Some VMin \<Rightarrow> Some (-8)
      | Some (VText s) \<Rightarrow>
          if s = [] then Some 0
          else if list_all is_digit s then Some (decimal s)
          else if nan_text s then None
          else Some (case map_of vm s of Some n \<Rightarrow> n | None \<Rightarrow> -7))"

section \<open>Comparing\<close>

definition part :: "vpart list \<Rightarrow> nat \<Rightarrow> vpart option" where
  "part v i = (if i < length v then Some (v ! i) else None)"

definition lower :: "int option \<Rightarrow> int option \<Rightarrow> bool" where
  "lower a b = (case (a, b) of (Some m, Some n) \<Rightarrow> m < n | _ \<Rightarrow> False)"

function compare_loop :: "vpart list \<Rightarrow> vpart list \<Rightarrow> nat \<Rightarrow> int" where
  "compare_loop v1 v2 i =
     (if i < max (length v1) (length v2) then
        (if part v1 i = part v2 i then compare_loop v1 v2 (i + 1)
         else if lower (numVersion (part v1 i)) (numVersion (part v2 i)) then -1
         else if lower (numVersion (part v2 i)) (numVersion (part v1 i)) then 1
         else compare_loop v1 v2 (i + 1))
      else 0)"
  by auto
termination by (relation "measure (\<lambda>(v1, v2, i). max (length v1) (length v2) - i)") auto

declare compare_loop.simps [simp del]

definition compare_versions :: "jstr \<Rightarrow> jstr \<Rightarrow> int" where
  "compare_versions v1 v2 = compare_loop (prepVersion v1) (prepVersion v2) 0"

datatype comparison = CNum int | CBool bool | CNull

definition version_compare :: "jstr \<Rightarrow> jstr \<Rightarrow> jstr \<Rightarrow> comparison" where
  "version_compare v1 v2 op =
     (let compare = compare_versions v1 v2
      in if op = [] then CNum compare
         else if op = js ''>'' \<or> op = js ''gt'' then CBool (compare > 0)
         else if op = js ''>='' \<or> op = js ''ge'' then CBool (compare \<ge> 0)
         else if op = js ''<='' \<or> op = js ''le'' then CBool (compare \<le> 0)
         else if op = js ''=='' \<or> op = js ''='' \<or> op = js ''eq'' then CBool (compare = 0)
         else if op = js ''<>'' \<or> op = js ''!='' \<or> op = js ''ne'' then CBool (compare \<noteq> 0)
         else if op = js ''<'' \<or> op = js ''lt'' then CBool (compare < 0)
         else CNull)"

section \<open>The order\<close>

text \<open>A version as an infinite sequence of numbers, and the lexicographic order of such sequences.\<close>

definition level :: "jstr \<Rightarrow> nat \<Rightarrow> int" where
  "level v i = the (numVersion (part (prepVersion v) i))"

definition comparable :: "jstr \<Rightarrow> bool" where
  "comparable v \<longleftrightarrow> list_all (\<lambda>p. numVersion (Some p) \<noteq> None) (prepVersion v)"

definition earlier :: "(nat \<Rightarrow> int) \<Rightarrow> (nat \<Rightarrow> int) \<Rightarrow> bool" where
  "earlier f g \<longleftrightarrow> (\<exists>k. f k < g k \<and> (\<forall>i < k. f i = g i))"

lemma earlier_trans: "earlier f g \<Longrightarrow> earlier g h \<Longrightarrow> earlier f h"
proof -
  assume "earlier f g" "earlier g h"
  then obtain j k where "f j < g j" "\<forall>i < j. f i = g i" "g k < h k" "\<forall>i < k. g i = h i" by (auto simp: earlier_def)
  then show ?thesis unfolding earlier_def by (intro exI [of _ "min j k"]) (cases j k rule: linorder_cases; simp)
qed

lemma earlier_total: "earlier f g \<or> earlier g f \<or> f = g"
proof (cases "f = g")
  case False
  then obtain i where i: "f i \<noteq> g i" by auto
  define k where "k = (LEAST i. f i \<noteq> g i)"
  have "f k \<noteq> g k" unfolding k_def by (rule LeastI [of "\<lambda>i. f i \<noteq> g i", OF i])
  moreover have "\<forall>j < k. f j = g j" unfolding k_def using not_less_Least by blast
  ultimately show ?thesis unfolding earlier_def using linorder_less_linear [of "f k" "g k"] by metis
qed simp

lemma earlier_asym: "earlier f g \<Longrightarrow> \<not> earlier g f"
  using earlier_trans [of f g f] by (auto simp: earlier_def)

lemma num_level: "comparable v \<Longrightarrow> numVersion (part (prepVersion v) i) = Some (level v i)"
  by (cases "i < length (prepVersion v)")
    (auto simp: comparable_def level_def part_def list_all_length numVersion_def)

lemma compare_loop_level:
  assumes "comparable a" "comparable b" "\<forall>j < i. level a j = level b j"
  shows "(compare_loop (prepVersion a) (prepVersion b) i = -1 \<longrightarrow> earlier (level a) (level b)) \<and>
         (compare_loop (prepVersion a) (prepVersion b) i = 1 \<longrightarrow> earlier (level b) (level a)) \<and>
         (compare_loop (prepVersion a) (prepVersion b) i = 0 \<longrightarrow> level a = level b) \<and>
         compare_loop (prepVersion a) (prepVersion b) i \<in> {-1, 0, 1}"
  using assms(3)
proof (induction "prepVersion a" "prepVersion b" i rule: compare_loop.induct)
  case (1 i)
  note before = 1(3)
  note step = compare_loop.simps [of "prepVersion a" "prepVersion b" i]
  show ?case
  proof (cases "i < max (length (prepVersion a)) (length (prepVersion b))")
    case False
    then have "level a j = level b j" for j
      using 1(3) by (cases "j < i") (auto simp: level_def part_def)
    then show ?thesis using False step by auto
  next
    case True
    consider "level a i < level b i" | "level b i < level a i" | "level a i = level b i" by linarith
    then show ?thesis
    proof cases
      case 3
      then have "\<forall>j < i + 1. level a j = level b j" using 1(3) by (metis Suc_eq_plus1 less_Suc_eq)
      moreover have "compare_loop (prepVersion a) (prepVersion b) i = compare_loop (prepVersion a) (prepVersion b) (i + 1)"
        using 3 True step num_level [OF assms(1)] num_level [OF assms(2)] by (simp add: lower_def)
      moreover have "\<not> lower (numVersion (part (prepVersion a) i)) (numVersion (part (prepVersion b) i))"
          "\<not> lower (numVersion (part (prepVersion b) i)) (numVersion (part (prepVersion a) i))"
        using 3 num_level [OF assms(1)] num_level [OF assms(2)] by (simp_all add: lower_def)
      ultimately show ?thesis using 1(1,2) True
        by (cases "part (prepVersion a) i = part (prepVersion b) i") simp_all
    next
      case 1
      moreover from 1 have "part (prepVersion a) i \<noteq> part (prepVersion b) i" by (auto simp: level_def)
      ultimately have "compare_loop (prepVersion a) (prepVersion b) i = -1"
        using True step num_level [OF assms(1), of i] num_level [OF assms(2), of i] by (simp add: lower_def)
      moreover have "earlier (level a) (level b)" using 1 before unfolding earlier_def by blast
      ultimately show ?thesis by simp
    next
      case 2
      moreover from 2 have "part (prepVersion a) i \<noteq> part (prepVersion b) i" by (auto simp: level_def)
      ultimately have "compare_loop (prepVersion a) (prepVersion b) i = 1"
        using True step num_level [OF assms(1), of i] num_level [OF assms(2), of i] by (simp add: lower_def)
      moreover have "earlier (level b) (level a)" using 2 before unfolding earlier_def by (metis)
      ultimately show ?thesis by simp
    qed
  qed
qed

text \<open>
  C29.  On versions all of whose components have numbers, the comparison is the lexicographic order of the
  sequences of these numbers, continued by zeros: it is -1 exactly when the first is earlier, 1 exactly when
  the second is, and 0 exactly when the sequences are the same.
\<close>

theorem version_order:
  assumes "comparable a" "comparable b"
  shows "version_compare a b [] = CNum (if earlier (level a) (level b) then -1 else if earlier (level b) (level a) then 1 else 0) \<and>
    (version_compare a b (js ''eq'') = CBool True \<longleftrightarrow> level a = level b)"
proof -
  let ?c = "compare_versions a b"
  have c: "?c = -1 \<longrightarrow> earlier (level a) (level b)" "?c = 1 \<longrightarrow> earlier (level b) (level a)" "?c = 0 \<longrightarrow> level a = level b"
      "?c = -1 \<or> ?c = 0 \<or> ?c = 1"
    using compare_loop_level [OF assms, of 0] by (auto simp: compare_versions_def)
  have irrefl: "\<not> earlier f f" for f by (simp add: earlier_def)
  have e: "version_compare a b (js ''eq'') = CBool (?c = 0)" by (simp add: version_compare_def)
  from c(4) show ?thesis
  proof (elim disjE)
    assume "?c = -1"
    with c(1) e irrefl show ?thesis by (auto simp: version_compare_def)
  next
    assume "?c = 0"
    with c(3) e irrefl show ?thesis by (auto simp: version_compare_def)
  next
    assume "?c = 1"
    with c(2) e irrefl earlier_asym show ?thesis by (auto simp: version_compare_def)
  qed
qed

theorem version_order_witness:
  "comparable (js ''1.10rc'') \<and> version_compare (js ''1.10rc'') (js ''1.9'') [] = CNum 1 \<and>
   version_compare (js ''1.0'') (js ''1'') [] = CNum 0"
proof -
  have parts: "prepVersion (js ''1.10rc'') = map VText [js ''1'', js ''10'', js ''rc'', []]"
      "prepVersion (js ''1.9'') = map VText [js ''1'', js ''9'']" "prepVersion (js ''1.0'') = map VText [js ''1'', js ''0'']"
      "prepVersion (js ''1'') = map VText [js ''1'']"
    by code_simp+
  have cmp: "comparable (js ''1.10rc'')" "comparable (js ''1.9'')" "comparable (js ''1.0'')" "comparable (js ''1'')"
    unfolding comparable_def parts by code_simp+
  have l: "level (js ''1.10rc'') 0 = 1" "level (js ''1.10rc'') 1 = 10" "level (js ''1.9'') 0 = 1" "level (js ''1.9'') 1 = 9"
    unfolding level_def parts by code_simp+
  have "earlier (level (js ''1.9'')) (level (js ''1.10rc''))"
    unfolding earlier_def by (intro exI [of _ 1]) (use l in \<open>auto simp: less_Suc_eq\<close>)
  moreover have "level (js ''1.0'') i = level (js ''1'') i" for i
    unfolding level_def parts by (cases i; cases "i - 1") (simp_all add: part_def numVersion_def is_digit_def decimal_def)
  then have "level (js ''1.0'') = level (js ''1'')" by (rule ext)
  ultimately show ?thesis
    using version_order [OF cmp(1,2)] version_order [OF cmp(3,4)] earlier_asym cmp(1) by (simp add: earlier_def del: js_Cons)
qed

text \<open>
  A component of white space has no number and is taken for the same as any other, so then the comparison is
  no order; and the empty version is earlier than a blank.
\<close>

lemma version_blank:
  "version_compare (js '' '') (js ''0.1'') [] = CNum 0" "version_compare (js '' '') (js ''0.2'') [] = CNum 0"
  "version_compare (js ''0.1'') (js ''0.2'') [] = CNum (-1)" "version_compare [] (js '' '') [] = CNum (-1)"
proof -
  have parts: "prepVersion (js '' '') = map VText [[], js '' '', []]" "prepVersion (js ''0.1'') = map VText [js ''0'', js ''1'']"
      "prepVersion (js ''0.2'') = map VText [js ''0'', js ''2'']" "prepVersion [] = [VMin]"
    by code_simp+
  have n: "numVersion (Some (VText (js '' ''))) = None" "numVersion (Some (VText (js ''0''))) = Some 0"
      "numVersion (Some (VText (js ''1''))) = Some 1" "numVersion (Some (VText (js ''2''))) = Some 2"
      "numVersion (Some (VText [])) = Some 0" "numVersion None = Some 0" "numVersion (Some VMin) = Some (-8)"
    by code_simp+
  have ne: "js '' '' \<noteq> js ''1''" "js '' '' \<noteq> js ''2''" "js ''1'' \<noteq> js ''2''" by simp_all
  note loop = compare_loop.simps [of _ _ 0] compare_loop.simps [of _ _ "Suc 0"] compare_loop.simps [of _ _ "Suc (Suc 0)"]
    compare_loop.simps [of _ _ "Suc (Suc (Suc 0))"]
  show "version_compare (js '' '') (js ''0.1'') [] = CNum 0" "version_compare (js '' '') (js ''0.2'') [] = CNum 0"
    "version_compare (js ''0.1'') (js ''0.2'') [] = CNum (-1)" "version_compare [] (js '' '') [] = CNum (-1)"
    unfolding version_compare_def compare_versions_def parts
    by (simp_all add: loop part_def n lower_def ne del: js_Cons)
qed

end
