(* ===== verification/Runtimes.thy ===== *)
theory Runtimes
  imports PluploadUtils Version
begin

text \<open>
  Choosing a runtime in \<open>resources/plugins/oss/lib/plupload-2.1.2/js/moxie.js\<close>: the module \<open>Runtime\<close> (lines
  2198 to 2774) with the tables of capabilities and modes of the runtimes \<open>html5\<close>, \<open>flash\<close>, \<open>silverlight\<close>
  and \<open>html4\<close> (lines 6079 to 6145, 8877 to 9003, 9571 to 9700 and 10066 to 10115).

  What the browser offers is a record of facts.  Capabilities are not named like members of
  \<open>Object.prototype\<close>; results of capability tests are given by their truth value.  The containers and shims of
  a runtime, which are elements of the page, are left out; so is the registry of instances, which a test of
  capabilities leaves as it was.
\<close>

section \<open>Modes\<close>

datatype mode = MBrowser | MClient

type_synonym mode_caps = "(jstr \<times> (jsval \<Rightarrow> mode list result)) list"

text \<open>What the capabilities seen so far leave: any mode, some modes, or a conflict.\<close>

datatype negotiated = AnyMode | Modes "mode list" | Conflict

fun mode_loop :: "mode_caps \<Rightarrow> (jsval \<times> jsval) list \<Rightarrow> negotiated \<Rightarrow> negotiated result" where
  "mode_loop modeCaps [] mode = Inr mode"
| "mode_loop modeCaps ((v, cap) # rest) mode =
     (case map_of modeCaps (key_string cap) of
        None \<Rightarrow> mode_loop modeCaps rest mode
      | Some f \<Rightarrow>
          bindR (f v)
            (\<lambda>capMode.
               case mode of
                 Modes ms \<Rightarrow>
                   (case arrayIntersect ms capMode of
                      None \<Rightarrow> Inr Conflict
                    | Some ms' \<Rightarrow> mode_loop modeCaps rest (Modes ms'))
               | _ \<Rightarrow> mode_loop modeCaps rest (Modes capMode)))"

text \<open>The mode is \<open>None\<close> where the code has \<open>false\<close>.\<close>

definition getMode :: "mode_caps \<Rightarrow> jsval \<Rightarrow> mode option \<Rightarrow> mode option result" where
  "getMode modeCaps requiredCaps defaultMode =
     (if truthy requiredCaps \<and> modeCaps \<noteq> [] then
        bindR (mode_loop modeCaps (each_items requiredCaps) AnyMode)
          (\<lambda>mode.
             case mode of
               Modes ms \<Rightarrow> Inr (case defaultMode of
                                Some d \<Rightarrow> if inArray d ms \<noteq> -1 then Some d else Some (hd ms)
                              | None \<Rightarrow> Some (hd ms))
             | Conflict \<Rightarrow> Inr None
             | AnyMode \<Rightarrow> Inr defaultMode)
      else Inr defaultMode)"

section \<open>Capabilities\<close>

datatype cap = Flag bool | Check "jsval \<Rightarrow> bool result"

definition capTrue :: cap where
  "capTrue = Check (\<lambda>_. Inr True)"

definition capTest :: "bool \<Rightarrow> cap" where
  "capTest expr = Check (\<lambda>_. Inr expr)"

definition parseCaps :: "jsval \<Rightarrow> jsval" where
  "parseCaps caps =
     (case caps of
        JStr s \<Rightarrow> JObj (foldl (\<lambda>ob key. obj_set ob key (JBool True)) [] (split_on 44 s))
      | v \<Rightarrow> if truthy v then v else JObj [])"

definition can_cap :: "(jstr \<times> cap) list \<Rightarrow> jstr \<Rightarrow> jsval \<Rightarrow> bool result" where
  "can_cap refCaps cap v =
     (case map_of refCaps cap of
        Some (Check f) \<Rightarrow> f v
      | Some (Flag b) \<Rightarrow> Inr (v = JBool b)
      | None \<Rightarrow> Inr (v = JUndefined))"

fun all_caps :: "(jstr \<Rightarrow> jsval \<Rightarrow> bool result) \<Rightarrow> (jstr \<times> jsval) list \<Rightarrow> bool result" where
  "all_caps test [] = Inr True"
| "all_caps test ((key, v) # rest) = bindR (test key v) (\<lambda>ok. if ok then all_caps test rest else Inr False)"

text \<open>
  A text without a value is a list of capabilities that should be there; so is a key of an object whose value
  is undefined.
\<close>

definition can_key :: "(jstr \<times> cap) list \<Rightarrow> jstr \<Rightarrow> jsval \<Rightarrow> bool result" where
  "can_key refCaps key v =
     (if v = JUndefined then
        (case parseCaps (JStr key) of JObj kvs \<Rightarrow> all_caps (can_cap refCaps) kvs | _ \<Rightarrow> Inr True)
      else can_cap refCaps key v)"

definition can :: "(jstr \<times> cap) list \<Rightarrow> jsval \<Rightarrow> jsval \<Rightarrow> bool result" where
  "can refCaps cap v =
     (case cap of
        JStr s \<Rightarrow> can_key refCaps s v
      | JObj kvs \<Rightarrow> all_caps (can_key refCaps) kvs
      | _ \<Rightarrow> can_cap refCaps (key_string cap) v)"

definition default_caps :: "(jstr \<times> cap) list" where
  "default_caps =
     [(js ''access_binary'', Flag False),
      (js ''access_image_binary'', Flag False),
      (js ''display_media'', Flag False),
      (js ''do_cors'', Flag False),
      (js ''drag_and_drop'', Flag False),
      (js ''filter_by_extension'', Flag True),
      (js ''resize_image'', Flag False),
      (js ''report_upload_progress'', Flag False),
      (js ''return_response_headers'', Flag False),
      (js ''return_response_type'', Flag False),
      (js ''return_status_code'', Flag True),
      (js ''send_custom_headers'', Flag False),
      (js ''select_file'', Flag False),
      (js ''select_folder'', Flag False),
      (js ''select_multiple'', Flag True),
      (js ''send_binary_string'', Flag False),
      (js ''send_browser_cookies'', Flag True),
      (js ''send_multipart'', Flag True),
      (js ''slice_blob'', Flag False),
      (js ''stream_upload'', Flag False),
      (js ''summon_file_dialog'', Flag False),
      (js ''upload_filesize'', Flag True),
      (js ''use_http_method'', Flag True)]"

section \<open>The constructor\<close>

record runtime_type =
  rt_caps :: "mode option \<Rightarrow> (jstr \<times> cap) list"
  rt_modes :: mode_caps
  rt_preferred :: mode
  rt_works :: bool

record runtime_options =
  required_caps :: jsval
  preferred_caps :: jsval

definition caps_of :: "runtime_type \<Rightarrow> mode option \<Rightarrow> (jstr \<times> cap) list" where
  "caps_of rt m = HB_Utils.extend default_caps (rt_caps rt m)"

text \<open>The mode of a new instance.\<close>

definition new_runtime :: "runtime_type \<Rightarrow> runtime_options \<Rightarrow> mode option result" where
  "new_runtime rt opts =
     bindR (if truthy (preferred_caps opts) then getMode (rt_modes rt) (preferred_caps opts) (Some (rt_preferred rt))
            else Inr (Some (rt_preferred rt)))
       (\<lambda>defaultMode.
          bindR (getMode (rt_modes rt) (required_caps opts) defaultMode)
            (\<lambda>mode.
               bindR (if mode \<noteq> None \<and> truthy (required_caps opts)
                      then can (caps_of rt mode) (required_caps opts) JUndefined else Inr True)
                 (\<lambda>ok. Inr (if ok \<and> rt_works rt then mode else None))))"

section \<open>What the browser offers\<close>

record browser =
  b_name :: jstr
  b_version :: "int option"
  b_os :: jstr
  b_osVersion :: jstr
  has_FileReader :: bool
  has_File :: bool
  has_getAsDataURL :: bool
  has_own_getAsDataURL :: bool
  has_slice :: bool
  has_canvas :: bool
  has_data_uri :: bool
  use_fileinput :: bool
  has_drag :: bool
  has_XHR :: bool
  has_credentials :: bool
  has_upload :: bool
  has_sendAsBinary :: bool
  has_typed_arrays :: bool
  has_FormData :: bool
  has_JSON :: bool
  takes_response_type :: "jsval \<Rightarrow> bool"
  flash_version :: "(int \<times> int) option"
  silverlight_control :: "bool option"
  silverlight_plugin :: "jstr option"

definition is_browser :: "browser \<Rightarrow> string \<Rightarrow> bool" where
  "is_browser b name \<longleftrightarrow> b_name b = js name"

text \<open>A comparison with a version that is not known is false.\<close>

definition version_from :: "browser \<Rightarrow> int \<Rightarrow> bool" where
  "version_from b n = (case b_version b of Some v \<Rightarrow> n \<le> v | None \<Rightarrow> False)"

definition create_canvas :: "browser \<Rightarrow> bool" where
  "create_canvas b = has_canvas b"

definition use_data_uri_over32kb :: "browser \<Rightarrow> bool" where
  "use_data_uri_over32kb b \<longleftrightarrow> has_data_uri b \<and> (\<not> is_browser b ''IE'' \<or> version_from b 9)"

definition env_response_type :: "browser \<Rightarrow> jsval \<Rightarrow> bool" where
  "env_response_type b v =
     (if inArray v (map JStr [[], js ''text'', js ''document'']) \<noteq> -1 then True
      else has_XHR b \<and> takes_response_type b v)"

text \<open>The shims of html5 and html4 both bring an extension for images.\<close>

definition image_extension :: bool where
  "image_extension = True"

definition filters_by_extension :: "browser \<Rightarrow> bool" where
  "filters_by_extension b \<longleftrightarrow>
     (is_browser b ''Chrome'' \<and> version_from b 28) \<or> (is_browser b ''IE'' \<and> version_from b 10)"

section \<open>html5\<close>

definition html5_access_binary :: "browser \<Rightarrow> bool" where
  "html5_access_binary b \<longleftrightarrow> has_FileReader b \<or> has_File b \<and> has_getAsDataURL b"

definition html5_select_file :: "browser \<Rightarrow> bool" where
  "html5_select_file b \<longleftrightarrow> use_fileinput b \<and> has_File b"

definition html5_select_multiple :: "browser \<Rightarrow> bool" where
  "html5_select_multiple b \<longleftrightarrow>
     html5_select_file b \<and> \<not> (is_browser b ''Safari'' \<and> b_os b = js ''Windows'') \<and>
     \<not> (b_os b = js ''iOS'' \<and> version_compare (b_osVersion b) (js ''7.0.4'') (js ''<'') = CBool True)"

definition html5_send_binary_string :: "browser \<Rightarrow> bool" where
  "html5_send_binary_string b \<longleftrightarrow> has_XHR b \<and> (has_sendAsBinary b \<or> has_typed_arrays b)"

definition html5_send_multipart :: "browser \<Rightarrow> bool" where
  "html5_send_multipart b \<longleftrightarrow> (has_XHR b \<and> has_upload b \<and> has_FormData b) \<or> html5_send_binary_string b"

definition html5_slice_blob :: "browser \<Rightarrow> bool" where
  "html5_slice_blob b \<longleftrightarrow> has_File b \<and> has_slice b"

definition html5_summon_file_dialog :: "browser \<Rightarrow> bool" where
  "html5_summon_file_dialog b \<longleftrightarrow>
     (is_browser b ''Firefox'' \<and> version_from b 4) \<or> (is_browser b ''Opera'' \<and> version_from b 12) \<or>
     (is_browser b ''IE'' \<and> version_from b 10) \<or> inArray (b_name b) [js ''Chrome'', js ''Safari''] \<noteq> -1"

definition html5_caps :: "browser \<Rightarrow> (jstr \<times> cap) list" where
  "html5_caps b =
     [(js ''access_binary'', capTest (html5_access_binary b)),
      (js ''access_image_binary'', capTest (html5_access_binary b \<and> image_extension)),
      (js ''display_media'', capTest (create_canvas b \<or> use_data_uri_over32kb b)),
      (js ''do_cors'', capTest (has_XHR b \<and> has_credentials b)),
      (js ''drag_and_drop'', capTest (has_drag b \<and> (\<not> is_browser b ''IE'' \<or> version_from b 10))),
      (js ''filter_by_extension'', capTest (filters_by_extension b)),
      (js ''return_response_headers'', capTrue),
      (js ''return_response_type'', Check (\<lambda>v. Inr (v = JStr (js ''json'') \<and> has_JSON b \<or> env_response_type b v))),
      (js ''return_status_code'', capTrue),
      (js ''report_upload_progress'', capTest (has_XHR b \<and> has_upload b)),
      (js ''resize_image'', capTest (html5_access_binary b \<and> create_canvas b)),
      (js ''select_file'', capTest (html5_select_file b)),
      (js ''select_folder'', capTest (html5_select_file b \<and> is_browser b ''Chrome'' \<and> version_from b 21)),
      (js ''select_multiple'', capTest (html5_select_multiple b)),
      (js ''send_binary_string'', capTest (html5_send_binary_string b)),
      (js ''send_custom_headers'', capTest (has_XHR b)),
      (js ''send_multipart'', capTest (html5_send_multipart b)),
      (js ''slice_blob'', capTest (html5_slice_blob b)),
      (js ''stream_upload'', capTest (html5_slice_blob b \<and> html5_send_multipart b)),
      (js ''summon_file_dialog'', capTest (html5_summon_file_dialog b)),
      (js ''upload_filesize'', capTrue)]"

definition html5 :: "browser \<Rightarrow> runtime_type" where
  "html5 b = \<lparr>rt_caps = (\<lambda>_. html5_caps b), rt_modes = [], rt_preferred = MBrowser, rt_works = True\<rparr>"

section \<open>flash\<close>

text \<open>\<open>Basic.arrayDiff\<close> of a value or a list with a list finds nothing.\<close>

definition within :: "jsval \<Rightarrow> jsval list \<Rightarrow> bool" where
  "within v array = (arrayDiff (case v of JArr vs \<Rightarrow> vs | _ \<Rightarrow> [v]) array = None)"

definition statuses :: "jsval list" where
  "statuses = [JNum 200, JNum 404]"

definition http_methods :: "jsval list" where
  "http_methods = [JStr (js ''GET''), JStr (js ''POST'')]"

text \<open>
  Sizes as numbers, \<open>None\<close> for NaN.  What is no text is compared as it is, so that it is turned into a number:
  an array through the text of its elements, in which an element that is null or undefined has no characters
  and several elements are separated by commas.  Of the texts in arrays, those in decimal notation without a
  point or an exponent are numbers.
\<close>

definition text_number :: "jstr \<Rightarrow> int option" where
  "text_number s =
     (let t = trim s; neg = (t \<noteq> [] \<and> hd t = 45); d = (if t \<noteq> [] \<and> hd t \<in> {43, 45} then tl t else t)
      in if t = [] then Some 0
         else if d \<noteq> [] \<and> list_all is_digit d then Some (if neg then - decimal d else decimal d)
         else None)"

fun coerced :: "jsval \<Rightarrow> int option" where
  "coerced (JNum n) = Some n"
| "coerced (JBool b) = Some (if b then 1 else 0)"
| "coerced JNull = Some 0"
| "coerced (JStr s) = text_number s"
| "coerced (JArr vs) =
     (case vs of
        [] \<Rightarrow> Some 0
      | [v] \<Rightarrow> (case v of JUndefined \<Rightarrow> Some 0 | JBool _ \<Rightarrow> None | _ \<Rightarrow> coerced v)
      | _ \<Rightarrow> None)"
| "coerced _ = None"

definition size_number :: "jsval \<Rightarrow> int option result" where
  "size_number v =
     (case v of
        JStr s \<Rightarrow> bindR (parseSizeStr s) (\<lambda>n. Inr (Some n))
      | _ \<Rightarrow> Inr (coerced v))"

definition at_most :: "int option \<Rightarrow> int \<Rightarrow> bool" where
  "at_most n k = (case n of Some i \<Rightarrow> i \<le> k | None \<Rightarrow> False)"

definition at_least :: "int option \<Rightarrow> int \<Rightarrow> bool" where
  "at_least n k = (case n of Some i \<Rightarrow> k \<le> i | None \<Rightarrow> False)"

definition flash_caps :: "browser \<Rightarrow> mode option \<Rightarrow> (jstr \<times> cap) list" where
  "flash_caps b m =
     [(js ''access_binary'', Check (\<lambda>v. Inr (truthy v \<and> m = Some MBrowser))),
      (js ''access_image_binary'', Check (\<lambda>v. Inr (truthy v \<and> m = Some MBrowser))),
      (js ''display_media'', capTrue),
      (js ''do_cors'', capTrue),
      (js ''drag_and_drop'', Flag False),
      (js ''report_upload_progress'', capTest (m = Some MClient)),
      (js ''resize_image'', capTrue),
      (js ''return_response_headers'', Flag False),
      (js ''return_response_type'', Check (\<lambda>v. Inr (v = JStr (js ''json'') \<and> has_JSON b \<or> within v (map JStr [[], js ''text'', js ''document'']) \<or> m = Some MBrowser))),
      (js ''return_status_code'', Check (\<lambda>v. Inr (m = Some MBrowser \<or> within v statuses))),
      (js ''select_file'', capTrue),
      (js ''select_multiple'', capTrue),
      (js ''send_binary_string'', Check (\<lambda>v. Inr (truthy v \<and> m = Some MBrowser))),
      (js ''send_browser_cookies'', Check (\<lambda>v. Inr (truthy v \<and> m = Some MBrowser))),
      (js ''send_custom_headers'', Check (\<lambda>v. Inr (truthy v \<and> m = Some MBrowser))),
      (js ''send_multipart'', capTrue),
      (js ''slice_blob'', Check (\<lambda>v. Inr (truthy v \<and> m = Some MBrowser))),
      (js ''stream_upload'', Check (\<lambda>v. Inr (truthy v \<and> m = Some MBrowser))),
      (js ''summon_file_dialog'', Flag False),
      (js ''upload_filesize'', Check (\<lambda>v. bindR (size_number v) (\<lambda>n. Inr (at_most n 2097152 \<or> m = Some MClient)))),
      (js ''use_http_method'', Check (\<lambda>v. Inr (within v http_methods)))]"

definition flash_modes :: mode_caps where
  "flash_modes =
     [(js ''access_binary'', (\<lambda>v. Inr [if truthy v then MBrowser else MClient])),
      (js ''access_image_binary'', (\<lambda>v. Inr [if truthy v then MBrowser else MClient])),
      (js ''report_upload_progress'', (\<lambda>v. Inr [if truthy v then MBrowser else MClient])),
      (js ''return_response_type'', (\<lambda>v. Inr (if within v (map JStr [[], js ''text'', js ''json'', js ''document'']) then [MClient, MBrowser] else [MBrowser]))),
      (js ''return_status_code'', (\<lambda>v. Inr (if within v statuses then [MClient, MBrowser] else [MBrowser]))),
      (js ''send_binary_string'', (\<lambda>v. Inr [if truthy v then MBrowser else MClient])),
      (js ''send_browser_cookies'', (\<lambda>v. Inr [if truthy v then MBrowser else MClient])),
      (js ''send_custom_headers'', (\<lambda>v. Inr [if truthy v then MBrowser else MClient])),
      (js ''stream_upload'', (\<lambda>v. Inr [if truthy v then MClient else MBrowser])),
      (js ''upload_filesize'', (\<lambda>v. bindR (size_number v) (\<lambda>n. Inr [if at_least n 2097152 then MClient else MBrowser])))]"

text \<open>A plug-in that is not there has version 0.0.\<close>

definition getShimVersion :: "browser \<Rightarrow> int \<times> int" where
  "getShimVersion b = (case flash_version b of Some v \<Rightarrow> v | None \<Rightarrow> (0, 0))"

definition flash :: "browser \<Rightarrow> runtime_type" where
  "flash b =
     \<lparr>rt_caps = flash_caps b, rt_modes = flash_modes, rt_preferred = MClient,
      rt_works = (\<not> fst (getShimVersion b) < 10)\<rparr>"

section \<open>silverlight\<close>

text \<open>
  \<open>isInstalled\<close>: the control answers for the version, else the parts of the version of the plug-in are
  compared with those required, up to the first difference.  The actual version has four parts, the last of
  them 0; a part is a number or, as NaN, \<open>None\<close>.
\<close>

definition parse_part :: "jstr \<Rightarrow> int option" where
  "parse_part s = (let ds = takeWhile is_digit (trim_left s) in if ds = [] then None else Some (decimal ds))"

definition actual_parts :: "jstr \<Rightarrow> int option list" where
  "actual_parts actualVer =
     (let v = (if actualVer = js ''1.0.30226.2'' then js ''2.0.30226.2'' else actualVer);
          parts = map parse_part (take 3 (split_on 46 v))
      in parts @ replicate (4 - length parts) (Some 0))"

fun parts_supported :: "int option list \<Rightarrow> int option list \<Rightarrow> bool" where
  "parts_supported [r] (a # _) = (case (r, a) of (Some m, Some n) \<Rightarrow> m \<le> n | _ \<Rightarrow> False)"
| "parts_supported (r # rs) (a # as) =
     (case (r, a) of
        (Some m, Some n) \<Rightarrow> if m = n then parts_supported rs as else m \<le> n
      | _ \<Rightarrow> False)"
| "parts_supported _ _ = False"

definition isInstalled :: "browser \<Rightarrow> jstr \<Rightarrow> bool" where
  "isInstalled b version =
     (case silverlight_control b of
        Some supported \<Rightarrow> supported
      | None \<Rightarrow>
          (case silverlight_plugin b of
             None \<Rightarrow> False
           | Some actualVer \<Rightarrow> parts_supported (map parse_part (take 4 (split_on 46 version))) (actual_parts actualVer)))"

definition silverlight_caps :: "browser \<Rightarrow> mode option \<Rightarrow> (jstr \<times> cap) list" where
  "silverlight_caps b m =
     [(js ''access_binary'', capTrue),
      (js ''access_image_binary'', capTrue),
      (js ''display_media'', capTrue),
      (js ''do_cors'', capTrue),
      (js ''drag_and_drop'', Flag False),
      (js ''report_upload_progress'', capTrue),
      (js ''resize_image'', capTrue),
      (js ''return_response_headers'', Check (\<lambda>v. Inr (truthy v \<and> m = Some MClient))),
      (js ''return_response_type'', Check (\<lambda>v. Inr (v \<noteq> JStr (js ''json'') \<or> has_JSON b))),
      (js ''return_status_code'', Check (\<lambda>v. Inr (m = Some MClient \<or> within v statuses))),
      (js ''select_file'', capTrue),
      (js ''select_multiple'', capTrue),
      (js ''send_binary_string'', capTrue),
      (js ''send_browser_cookies'', Check (\<lambda>v. Inr (truthy v \<and> m = Some MBrowser))),
      (js ''send_custom_headers'', Check (\<lambda>v. Inr (truthy v \<and> m = Some MClient))),
      (js ''send_multipart'', capTrue),
      (js ''slice_blob'', capTrue),
      (js ''stream_upload'', Flag True),
      (js ''summon_file_dialog'', Flag False),
      (js ''upload_filesize'', capTrue),
      (js ''use_http_method'', Check (\<lambda>v. Inr (m = Some MClient \<or> within v http_methods)))]"

definition silverlight_modes :: mode_caps where
  "silverlight_modes =
     [(js ''return_response_headers'', (\<lambda>v. Inr [if truthy v then MClient else MBrowser])),
      (js ''return_status_code'', (\<lambda>v. Inr (if within v statuses then [MClient, MBrowser] else [MClient]))),
      (js ''send_browser_cookies'', (\<lambda>v. Inr [if truthy v then MBrowser else MClient])),
      (js ''send_custom_headers'', (\<lambda>v. Inr [if truthy v then MClient else MBrowser])),
      (js ''use_http_method'', (\<lambda>v. Inr (if within v http_methods then [MClient, MBrowser] else [MClient])))]"

definition silverlight :: "browser \<Rightarrow> runtime_type" where
  "silverlight b =
     \<lparr>rt_caps = silverlight_caps b, rt_modes = silverlight_modes, rt_preferred = MBrowser,
      rt_works = (isInstalled b (js ''2.0.31005.0'') \<and> \<not> is_browser b ''Opera'')\<rparr>"

section \<open>html4\<close>

definition html4_summon_file_dialog :: "browser \<Rightarrow> bool" where
  "html4_summon_file_dialog b \<longleftrightarrow>
     (is_browser b ''Firefox'' \<and> version_from b 4) \<or> (is_browser b ''Opera'' \<and> version_from b 12) \<or>
     inArray (b_name b) [js ''Chrome'', js ''Safari''] \<noteq> -1"

definition html4_caps :: "browser \<Rightarrow> (jstr \<times> cap) list" where
  "html4_caps b =
     [(js ''access_binary'', capTest (has_FileReader b \<or> has_File b \<and> has_own_getAsDataURL b)),
      (js ''access_image_binary'', Flag False),
      (js ''display_media'', capTest (image_extension \<and> (create_canvas b \<or> use_data_uri_over32kb b))),
      (js ''do_cors'', Flag False),
      (js ''drag_and_drop'', Flag False),
      (js ''filter_by_extension'', capTest (filters_by_extension b)),
      (js ''resize_image'', capTest (image_extension \<and> (has_FileReader b \<or> has_File b \<and> has_own_getAsDataURL b) \<and> create_canvas b)),
      (js ''report_upload_progress'', Flag False),
      (js ''return_response_headers'', Flag False),
      (js ''return_response_type'', Check (\<lambda>v. Inr (v = JStr (js ''json'') \<and> has_JSON b \<or> inArray v (map JStr [js ''text'', js ''document'', []]) \<noteq> -1))),
      (js ''return_status_code'', Check (\<lambda>v. Inr (within v statuses))),
      (js ''select_file'', capTest (use_fileinput b)),
      (js ''select_multiple'', Flag False),
      (js ''send_binary_string'', Flag False),
      (js ''send_custom_headers'', Flag False),
      (js ''send_multipart'', Flag True),
      (js ''slice_blob'', Flag False),
      (js ''stream_upload'', capTest (use_fileinput b)),
      (js ''summon_file_dialog'', capTest (html4_summon_file_dialog b)),
      (js ''upload_filesize'', capTrue),
      (js ''use_http_method'', Check (\<lambda>v. Inr (within v http_methods)))]"

definition html4 :: "browser \<Rightarrow> runtime_type" where
  "html4 b = \<lparr>rt_caps = (\<lambda>_. html4_caps b), rt_modes = [], rt_preferred = MBrowser, rt_works = True\<rparr>"

section \<open>Choosing\<close>

definition runtimeConstructors :: "browser \<Rightarrow> (jstr \<times> runtime_type) list" where
  "runtimeConstructors b =
     [(js ''html5'', html5 b), (js ''flash'', flash b), (js ''silverlight'', silverlight b), (js ''html4'', html4 b)]"

text \<open>A type that every object has as a member is no constructor of a runtime.\<close>

definition runtime_can :: "browser \<Rightarrow> jstr \<Rightarrow> jsval \<Rightarrow> bool result" where
  "runtime_can b type caps =
     (case read_prop (runtimeConstructors b) type of
        Some (Own rt) \<Rightarrow> bindR (new_runtime rt \<lparr>required_caps = caps, preferred_caps = JUndefined\<rparr>) (\<lambda>mode. Inr (mode \<noteq> None))
      | Some (Inherited _) \<Rightarrow> Inl TypeErr
      | None \<Rightarrow> Inr False)"

definition runtime_order :: jstr where
  "runtime_order = js ''html5,flash,silverlight,html4''"

fun first_can :: "browser \<Rightarrow> jsval \<Rightarrow> jstr list \<Rightarrow> jstr option result" where
  "first_can b caps [] = Inr None"
| "first_can b caps (type # types) =
     bindR (runtime_can b type caps) (\<lambda>ok. if ok then Inr (Some type) else first_can b caps types)"

definition thatCan :: "browser \<Rightarrow> jsval \<Rightarrow> jstr \<Rightarrow> jstr option result" where
  "thatCan b caps runtimeOrder =
     first_can b caps (split_commas (if runtimeOrder \<noteq> [] then runtimeOrder else runtime_order))"

section \<open>Negotiating the mode\<close>

text \<open>What the required capabilities demand of the mode, each as a list of modes.\<close>

fun demands :: "mode_caps \<Rightarrow> (jsval \<times> jsval) list \<Rightarrow> mode list result list" where
  "demands modeCaps [] = []"
| "demands modeCaps ((v, cap) # rest) =
     (case map_of modeCaps (key_string cap) of
        None \<Rightarrow> demands modeCaps rest
      | Some f \<Rightarrow> f v # demands modeCaps rest)"

lemma arrayIntersect_cases:
  "arrayIntersect ms ns = None \<longleftrightarrow> set ms \<inter> set ns = {}"
  "arrayIntersect ms ns = Some l \<Longrightarrow> set l = set ms \<inter> set ns \<and> l \<noteq> []"
  by (auto simp: arrayIntersect_def inArray_found Let_def filter_empty_conv split: if_splits)

lemma mode_loop_modes:
  "demands modeCaps items = map Inr ds \<Longrightarrow> ms \<noteq> [] \<Longrightarrow>
   \<exists>r. mode_loop modeCaps items (Modes ms) = Inr r \<and>
     (if set ms \<inter> \<Inter> (set ` set ds) = {} then r = Conflict
      else \<exists>l. r = Modes l \<and> l \<noteq> [] \<and> set l = set ms \<inter> \<Inter> (set ` set ds))"
proof (induction items arbitrary: ms ds)
  case (Cons p rest)
  obtain v cap where p: "p = (v, cap)" by force
  show ?case
  proof (cases "map_of modeCaps (key_string cap)")
    case None
    then show ?thesis using Cons p by simp
  next
    case (Some f)
    then obtain d ds' where d: "ds = d # ds'" "f v = Inr d" "demands modeCaps rest = map Inr ds'"
      using Cons.prems(1) p by (auto simp: Cons_eq_map_conv)
    show ?thesis
    proof (cases "arrayIntersect ms d")
      case None
      then show ?thesis using d p Some arrayIntersect_cases(1) [of ms d] by auto
    next
      case int: (Some l)
      then have l: "set l = set ms \<inter> set d" "l \<noteq> []" using arrayIntersect_cases(2) by auto
      then have "set ms \<inter> \<Inter> (set ` set ds) = set l \<inter> \<Inter> (set ` set ds')" using d(1) by auto
      moreover have "mode_loop modeCaps (p # rest) (Modes ms) = mode_loop modeCaps rest (Modes l)"
        using Some p d(2) int by simp
      ultimately show ?thesis using Cons.IH [OF d(3) l(2)] by (simp only:)
    qed
  qed
qed simp

lemma mode_loop_any:
  "demands modeCaps items = map Inr ds \<Longrightarrow> \<forall>d \<in> set ds. d \<noteq> [] \<Longrightarrow>
   \<exists>r. mode_loop modeCaps items AnyMode = Inr r \<and>
     (if ds = [] then r = AnyMode
      else if \<Inter> (set ` set ds) = {} then r = Conflict
      else \<exists>l. r = Modes l \<and> l \<noteq> [] \<and> set l = \<Inter> (set ` set ds))"
proof (induction items arbitrary: ds)
  case (Cons p rest)
  obtain v cap where p: "p = (v, cap)" by force
  show ?case
  proof (cases "map_of modeCaps (key_string cap)")
    case None
    then show ?thesis using Cons p by simp
  next
    case (Some f)
    then obtain d ds' where d: "ds = d # ds'" "f v = Inr d" "demands modeCaps rest = map Inr ds'"
      using Cons.prems(1) p by (auto simp: Cons_eq_map_conv)
    then obtain r where r: "mode_loop modeCaps rest (Modes d) = Inr r"
        "if set d \<inter> \<Inter> (set ` set ds') = {} then r = Conflict
         else \<exists>l. r = Modes l \<and> l \<noteq> [] \<and> set l = set d \<inter> \<Inter> (set ` set ds')"
      using mode_loop_modes [OF d(3), of d] Cons.prems(2) by auto
    moreover have "\<Inter> (set ` set ds) = set d \<inter> \<Inter> (set ` set ds')" using d(1) by simp
    moreover have "mode_loop modeCaps (p # rest) AnyMode = Inr r" using Some p d(2) r(1) by simp
    ultimately show ?thesis using d(1) by (metis list.distinct(1))
  qed
qed simp

text \<open>
  C19.  For required capabilities whose demands on the mode are \<open>ds\<close>, each of them not empty, the negotiation
  keeps the default when nothing is demanded; otherwise it fails exactly when no mode meets all demands, gives
  a mode that meets them all when there is one, and prefers the default among these.
\<close>

theorem getMode_negotiates:
  assumes "truthy req" "modeCaps \<noteq> []" "demands modeCaps (each_items req) = map Inr ds" "\<forall>d \<in> set ds. d \<noteq> []"
  shows "\<exists>r. getMode modeCaps req d = Inr r \<and> (ds = [] \<longrightarrow> r = d) \<and>
    (ds \<noteq> [] \<longrightarrow> (r = None \<longleftrightarrow> \<Inter> (set ` set ds) = {}) \<and> (\<forall>m. r = Some m \<longrightarrow> m \<in> \<Inter> (set ` set ds)) \<and>
       (\<forall>m. d = Some m \<and> m \<in> \<Inter> (set ` set ds) \<longrightarrow> r = Some m))"
proof -
  obtain r where r: "mode_loop modeCaps (each_items req) AnyMode = Inr r"
      "if ds = [] then r = AnyMode
       else if \<Inter> (set ` set ds) = {} then r = Conflict
       else \<exists>l. r = Modes l \<and> l \<noteq> [] \<and> set l = \<Inter> (set ` set ds)"
    using mode_loop_any [OF assms(3,4)] by blast
  consider "ds = []" | "ds \<noteq> []" "\<Inter> (set ` set ds) = {}" | "ds \<noteq> []" "\<Inter> (set ` set ds) \<noteq> {}" by blast
  then show ?thesis
  proof cases
    case 3
    then obtain l where l: "r = Modes l" "l \<noteq> []" "set l = \<Inter> (set ` set ds)" using r(2) by auto
    have "hd l \<in> set l" using l(2) by simp
    then show ?thesis using assms(1,2) r(1) l 3
      by (auto simp: getMode_def inArray_found split: option.splits)
  qed (use assms(1,2) r in \<open>auto simp: getMode_def\<close>)
qed

section \<open>The chosen runtime\<close>

lemma all_caps_iff: "all_caps test kvs = Inr True \<longleftrightarrow> (\<forall>(k, v) \<in> set kvs. test k v = Inr True)"
proof (induction kvs)
  case (Cons p kvs)
  obtain k v where p: "p = (k, v)" by force
  show ?case using Cons by (cases "test k v") (auto simp: p)
qed simp

lemma can_key_defined: "v \<noteq> JUndefined \<Longrightarrow> can_key refCaps key v = can_cap refCaps key v"
  by (simp add: can_key_def)

lemma first_can_Some:
  "first_can b caps types = Inr (Some t) \<longleftrightarrow>
   (\<exists>before after. types = before @ t # after \<and> runtime_can b t caps = Inr True \<and> (\<forall>t' \<in> set before. runtime_can b t' caps = Inr False))"
proof (induction types)
  case (Cons u types)
  show ?case
  proof (cases "runtime_can b u caps")
    case (Inl e)
    then show ?thesis by (auto simp: Cons_eq_append_conv)
  next
    case (Inr ok)
    show ?thesis
    proof (cases ok)
      case True
      then show ?thesis using Inr by (auto simp: Cons_eq_append_conv)
    next
      case False
      then show ?thesis using Inr Cons by (auto simp: Cons_eq_append_conv) (metis append_Cons set_ConsD)
    qed
  qed
qed simp

lemma first_can_None: "first_can b caps types = Inr None \<longleftrightarrow> (\<forall>t \<in> set types. runtime_can b t caps = Inr False)"
proof (induction types)
  case (Cons u types)
  then show ?case by (cases "runtime_can b u caps") auto
qed simp

lemma new_runtime_mode:
  "new_runtime rt \<lparr>required_caps = req, preferred_caps = JUndefined\<rparr> = Inr (Some m) \<longleftrightarrow>
   getMode (rt_modes rt) req (Some (rt_preferred rt)) = Inr (Some m) \<and> rt_works rt \<and>
   (truthy req \<longrightarrow> can (caps_of rt (Some m)) req JUndefined = Inr True)"
  by (auto simp: new_runtime_def bindR_Inr_iff split: if_splits)

text \<open>No table demands a mode of which there is none.\<close>

definition modes_ok :: "mode_caps \<Rightarrow> bool" where
  "modes_ok mc \<longleftrightarrow> (\<forall>k f v ms. map_of mc k = Some f \<longrightarrow> f v = Inr ms \<longrightarrow> ms \<noteq> [])"

lemma modes_okI: "list_all (\<lambda>(k, f). \<forall>v ms. f v = Inr ms \<longrightarrow> ms \<noteq> []) mc \<Longrightarrow> modes_ok mc"
  unfolding modes_ok_def list_all_iff using map_of_SomeD by fastforce

lemma modes_ok_tables: "modes_ok []" "modes_ok flash_modes" "modes_ok silverlight_modes"
  by (rule modes_okI, auto simp: flash_modes_def silverlight_modes_def bindR_Inr_iff simp del: js_Cons split: if_splits)+

lemma constructors: "map_of (runtimeConstructors b) t = Some rt \<Longrightarrow> rt \<in> {html5 b, flash b, silverlight b, html4 b}"
  by (drule map_of_SomeD) (auto simp: runtimeConstructors_def simp del: js_Cons)

lemma constructors_ok: "map_of (runtimeConstructors b) t = Some rt \<Longrightarrow> modes_ok (rt_modes rt)"
  using constructors [of b t rt] by (auto simp: html5_def html4_def flash_def silverlight_def modes_ok_tables)

text \<open>What is left of the modes meets every demand.\<close>

definition meets :: "mode_caps \<Rightarrow> (jsval \<times> jsval) list \<Rightarrow> mode \<Rightarrow> bool" where
  "meets mc items m \<longleftrightarrow>
     (\<forall>(v, cap) \<in> set items. \<forall>f ms. map_of mc (key_string cap) = Some f \<longrightarrow> f v = Inr ms \<longrightarrow> m \<in> set ms)"

lemma meets_Cons:
  "meets mc ((v, cap) # rest) m \<longleftrightarrow>
   (\<forall>f ms. map_of mc (key_string cap) = Some f \<longrightarrow> f v = Inr ms \<longrightarrow> m \<in> set ms) \<and> meets mc rest m"
  by (auto simp: meets_def)

lemma mode_loop_Modes:
  "mode_loop mc items (Modes ms) = Inr r \<Longrightarrow> ms \<noteq> [] \<Longrightarrow>
   r \<noteq> AnyMode \<and> (\<forall>l. r = Modes l \<longrightarrow> l \<noteq> [] \<and> (\<forall>m \<in> set l. m \<in> set ms \<and> meets mc items m))"
proof (induction items arbitrary: ms)
  case (Cons p rest)
  obtain v cap where p: "p = (v, cap)" by force
  show ?case
  proof (cases "map_of mc (key_string cap)")
    case (Some f)
    then obtain d where d: "f v = Inr d" using Cons.prems(1) p by (auto simp: bindR_Inr_iff)
    show ?thesis
    proof (cases "arrayIntersect ms d")
      case (Some l)
      then show ?thesis
        using Cons.IH [of l] Cons.prems(1) p d \<open>map_of mc (key_string cap) = Some f\<close> arrayIntersect_cases(2) [of ms d l]
        by (auto simp: meets_Cons)
    qed (use Cons.prems(1) p d Some in auto)
  qed (use Cons p in \<open>auto simp: meets_Cons\<close>)
qed (auto simp: meets_def)

lemma mode_loop_meets:
  "mode_loop mc items AnyMode = Inr r \<Longrightarrow> modes_ok mc \<Longrightarrow>
   (r = AnyMode \<longrightarrow> (\<forall>m. meets mc items m)) \<and> (\<forall>l. r = Modes l \<longrightarrow> l \<noteq> [] \<and> (\<forall>m \<in> set l. meets mc items m))"
proof (induction items)
  case (Cons p rest)
  obtain v cap where p: "p = (v, cap)" by force
  show ?case
  proof (cases "map_of mc (key_string cap)")
    case (Some f)
    then obtain d where d: "f v = Inr d" using Cons.prems(1) p by (auto simp: bindR_Inr_iff)
    then have "d \<noteq> []" using Cons.prems(2) Some unfolding modes_ok_def by blast
    moreover have "mode_loop mc rest (Modes d) = Inr r" using Cons.prems(1) p Some d by simp
    ultimately show ?thesis using mode_loop_Modes [of mc rest d r] p Some d by (auto simp: meets_Cons)
  qed (use Cons p in \<open>auto simp: meets_Cons\<close>)
qed (auto simp: meets_def)

lemma getMode_meets:
  assumes "getMode mc req (Some d) = Inr (Some m)" "modes_ok mc" "truthy req"
  shows "meets mc (each_items req) m"
proof (cases "mc = []")
  case False
  then have g: "bindR (mode_loop mc (each_items req) AnyMode)
      (\<lambda>mode. case mode of Modes ms \<Rightarrow> Inr (if inArray d ms \<noteq> -1 then Some d else Some (hd ms))
               | Conflict \<Rightarrow> Inr None | AnyMode \<Rightarrow> Inr (Some d)) = Inr (Some m)"
    using assms(1,3) by (simp add: getMode_def)
  then obtain r where r: "mode_loop mc (each_items req) AnyMode = Inr r"
    by (cases "mode_loop mc (each_items req) AnyMode") auto
  with g mode_loop_meets [OF r assms(2)] show ?thesis
    by (cases r) (auto simp: inArray_found split: if_splits)
qed (simp add: meets_def)

text \<open>A text of capabilities: the loop sees its characters, and the tables have no modes for their numbers.\<close>

lemma number_no_mode:
  assumes "map_of (runtimeConstructors b) t = Some rt"
  shows "map_of (rt_modes rt) (intToString (int n)) = None"
proof -
  have "hd (intToString (int n)) \<le> 57" using natToString_digits [of n] by (cases "natToString n") (auto simp: intToString_def is_digit_def)
  then show ?thesis using constructors [OF assms]
    by (auto simp: html5_def html4_def flash_def silverlight_def flash_modes_def silverlight_modes_def)
qed

lemma text_mode:
  assumes "map_of (runtimeConstructors b) t = Some rt"
  shows "getMode (rt_modes rt) (JStr s) (Some d) = Inr (Some d)"
proof -
  have "mode_loop (rt_modes rt) (map (\<lambda>i. (JStr [s ! i], JNum (int i))) ns) m = Inr m" for ns m
    by (induction ns) (auto simp: key_string_def number_no_mode [OF assms])
  then show ?thesis by (simp add: getMode_def each_items_def)
qed

lemma obj_set_key: "p \<in> set ob \<Longrightarrow> fst p \<noteq> k \<Longrightarrow> p \<in> set (obj_set ob k v)" "(k, v) \<in> set (obj_set ob k v)"
  by (induction ob k v rule: obj_set.induct) auto

lemma parsed_keys: "k \<in> set keys \<Longrightarrow> (k, v) \<in> set (foldl (\<lambda>ob key. obj_set ob key v) ob keys)"
proof (induction keys rule: rev_induct)
  case (snoc key keys)
  then show ?case using obj_set_key by (cases "k = key") auto
qed simp

lemma text_can:
  assumes "can refCaps (JStr s) JUndefined = Inr True" "k \<in> set (split_on 44 s)"
  shows "can_cap refCaps k (JBool True) = Inr True"
  using assms(1) parsed_keys [OF assms(2), of "JBool True" "[]"] by (auto simp: can_def can_key_def parseCaps_def all_caps_iff)

text \<open>
  C16.  A runtime that is chosen for required capabilities is the first one of the order that can do what is
  required, and it works.  For an object of capabilities (that has no \<open>length\<close>, which would make it a list), its
  mode meets the demands of every capability that depends on the mode, and in this mode the test of every
  capability succeeds for the required value.  For a text of capabilities nothing is negotiated: the test of
  every one of them succeeds in the mode that the runtime prefers, whatever its table of modes demands.  None is
  chosen when none of the order can.
\<close>

theorem chosen_runtime:
  assumes "case caps of JObj kvs \<Rightarrow> prop_of kvs (js ''length'') = JUndefined | JStr s \<Rightarrow> s \<noteq> [] | _ \<Rightarrow> False"
    "thatCan b caps ord = Inr chosen"
  defines "types \<equiv> split_commas (if ord \<noteq> [] then ord else runtime_order)"
  shows "case chosen of
      None \<Rightarrow> \<forall>t \<in> set types. runtime_can b t caps = Inr False
    | Some t \<Rightarrow>
        (\<exists>before after. types = before @ t # after \<and> (\<forall>t' \<in> set before. runtime_can b t' caps = Inr False)) \<and>
        (\<exists>rt m. map_of (runtimeConstructors b) t = Some rt \<and> rt_works rt \<and>
           (case caps of
              JObj kvs \<Rightarrow>
                \<forall>(k, v) \<in> set kvs.
                  (\<forall>f ms. map_of (rt_modes rt) k = Some f \<longrightarrow> f v = Inr ms \<longrightarrow> m \<in> set ms) \<and>
                  (v \<noteq> JUndefined \<longrightarrow> can_cap (caps_of rt (Some m)) k v = Inr True)
            | JStr s \<Rightarrow>
                m = rt_preferred rt \<and>
                (\<forall>k \<in> set (split_on 44 s). can_cap (caps_of rt (Some m)) k (JBool True) = Inr True)
            | _ \<Rightarrow> True))"
proof (cases chosen)
  case None
  then show ?thesis using assms(2) by (simp add: thatCan_def types_def first_can_None)
next
  case (Some t)
  then obtain before after where t: "types = before @ t # after" "runtime_can b t caps = Inr True"
      "\<forall>t' \<in> set before. runtime_can b t' caps = Inr False"
    using assms(2) by (auto simp: thatCan_def types_def first_can_Some)
  obtain rt m where rt: "map_of (runtimeConstructors b) t = Some rt"
      "new_runtime rt \<lparr>required_caps = caps, preferred_caps = JUndefined\<rparr> = Inr (Some m)"
    using t(2) by (auto simp: runtime_can_def bindR_Inr_iff split: option.splits member.splits)
  have tr: "truthy caps" using assms(1) by (auto split: jsval.splits)
  then have m: "getMode (rt_modes rt) caps (Some (rt_preferred rt)) = Inr (Some m)" "rt_works rt"
      "can (caps_of rt (Some m)) caps JUndefined = Inr True"
    using rt(2) by (auto simp: new_runtime_mode)
  have d: "meets (rt_modes rt) (each_items caps) m"
    using getMode_meets [OF m(1) constructors_ok [OF rt(1)] tr] .
  have "case caps of
        JObj kvs \<Rightarrow>
          \<forall>(k, v) \<in> set kvs.
            (\<forall>f ms. map_of (rt_modes rt) k = Some f \<longrightarrow> f v = Inr ms \<longrightarrow> m \<in> set ms) \<and>
            (v \<noteq> JUndefined \<longrightarrow> can_cap (caps_of rt (Some m)) k v = Inr True)
      | JStr s \<Rightarrow>
          m = rt_preferred rt \<and>
          (\<forall>k \<in> set (split_on 44 s). can_cap (caps_of rt (Some m)) k (JBool True) = Inr True)
      | _ \<Rightarrow> True"
  proof (cases caps)
    case (JObj kvs)
    have "\<forall>(k, v) \<in> set kvs. \<forall>f ms. map_of (rt_modes rt) k = Some f \<longrightarrow> f v = Inr ms \<longrightarrow> m \<in> set ms"
      using assms(1) d by (force simp: meets_def each_items_def key_string_def JObj)
    moreover have "\<forall>(k, v) \<in> set kvs. v \<noteq> JUndefined \<longrightarrow> can_cap (caps_of rt (Some m)) k v = Inr True"
      using m(3) by (auto simp: can_def all_caps_iff can_key_defined JObj)
    ultimately show ?thesis by (fastforce simp: JObj)
  next
    case (JStr s)
    then show ?thesis using m(1,3) text_mode [OF rt(1)] text_can by auto
  qed simp_all
  then show ?thesis using Some t rt(1) m(2) by auto
qed

section \<open>An old browser with Flash\<close>

definition old_browser :: browser where
  "old_browser =
     \<lparr>b_name = js ''IE'', b_version = Some 8, b_os = js ''Windows'', b_osVersion = js ''7'', has_FileReader = False,
      has_File = False, has_getAsDataURL = False, has_own_getAsDataURL = False, has_slice = False, has_canvas = False,
      has_data_uri = True, use_fileinput = True, has_drag = False, has_XHR = True, has_credentials = False,
      has_upload = False, has_sendAsBinary = False, has_typed_arrays = False, has_FormData = False, has_JSON = True,
      takes_response_type = (\<lambda>_. False), flash_version = Some (11, 2), silverlight_control = None,
      silverlight_plugin = None\<rparr>"

lemmas runtime_simps = runtime_can_def runtimeConstructors_def read_prop_def new_runtime_def getMode_def can_def
  can_cap_def caps_of_def html5_def html4_def flash_def silverlight_def key_string_def each_items_def prop_of_def
  can_key_def js_inj inArray_found arrayIntersect_def capTest_def capTrue_def default_caps_def

lemma old_browser_simps [simp]:
  "has_XHR old_browser" "\<not> html5_send_binary_string old_browser" "getShimVersion old_browser = (11, 2)"
  by (simp_all add: old_browser_def html5_send_binary_string_def getShimVersion_def)

lemma old_browser_can:
  "runtime_can old_browser (js ''html5'') (JObj [(js ''send_binary_string'', JBool True)]) = Inr False"
  "runtime_can old_browser (js ''flash'') (JObj [(js ''send_binary_string'', JBool True)]) = Inr True"
  by (simp_all add: runtime_simps html5_caps_def flash_caps_def flash_modes_def del: js_Cons)

theorem chosen_runtime_witness:
  "\<exists>rt m. map_of (runtimeConstructors old_browser) (js ''flash'') = Some rt \<and>
     can_cap (caps_of rt (Some m)) (js ''send_binary_string'') (JBool True) = Inr True"
proof -
  let ?req = "[(js ''send_binary_string'', JBool True)]"
  have o: "split_commas runtime_order = [js ''html5'', js ''flash'', js ''silverlight'', js ''html4'']" by code_simp
  have c: "thatCan old_browser (JObj ?req) [] = Inr (Some (js ''flash''))"
    by (simp add: thatCan_def o old_browser_can del: js_Cons)
  have l: "prop_of ?req (js ''length'') = JUndefined" by (simp add: prop_of_def js_inj del: js_Cons)
  show ?thesis using chosen_runtime [of "JObj ?req", OF _ c] l by (auto simp del: js_Cons)
qed

theorem getMode_negotiates_witness:
  "getMode flash_modes (JObj [(js ''access_binary'', JBool True)]) (Some MClient) = Inr (Some MBrowser)"
proof -
  have d: "demands flash_modes (each_items (JObj [(js ''access_binary'', JBool True)])) = map Inr [[MBrowser]]"
    by (simp add: each_items_def prop_of_def flash_modes_def key_string_def js_inj del: js_Cons)
  have ne: "flash_modes \<noteq> []" by (simp add: flash_modes_def)
  show ?thesis using getMode_negotiates [OF _ ne d, of "Some MClient"] by (auto simp del: js_Cons)
qed

text \<open>
  Flash never qualifies when streaming or the progress of uploads is required: the mode that the table demands
  is the one in which the test fails.  Slicing alone, for which the table has no demand, is tested in the
  default mode, in which it fails too.
\<close>

lemma flash_contradictions:
  "runtime_can b (js ''flash'') (JObj [(js ''stream_upload'', JBool True)]) = Inr False"
  "runtime_can b (js ''flash'') (JObj [(js ''report_upload_progress'', JBool True)]) = Inr False"
  "runtime_can b (js ''flash'') (JObj [(js ''slice_blob'', JBool True)]) = Inr False"
  by (simp_all add: runtime_simps flash_caps_def flash_modes_def del: js_Cons)

text \<open>
  Capabilities that are given as a text take no part in the negotiation: the loop over them sees the characters
  of the text.  And preferred capabilities that contradict each other leave no mode even when nothing is
  required.
\<close>

lemma text_not_negotiated: "runtime_can old_browser (js ''flash'') (JStr (js ''access_binary'')) = Inr False"
proof -
  have "map_of (runtimeConstructors old_browser) (js ''flash'') = Some (flash old_browser)"
    by (simp add: runtimeConstructors_def js_inj del: js_Cons)
  then have "getMode (rt_modes (flash old_browser)) (JStr s) (Some d) = Inr (Some d)" for s d by (rule text_mode)
  then have "getMode flash_modes (JStr s) (Some MClient) = Inr (Some MClient)" for s by (simp add: flash_def)
  moreover have "split_on 44 (js ''access_binary'') = [js ''access_binary'']" by (rule split_on_free) simp
  moreover have "js ''access_binary'' \<noteq> []" by simp
  ultimately show ?thesis
    by (simp add: runtime_can_def runtimeConstructors_def read_prop_def new_runtime_def can_def can_key_def parseCaps_def
        can_cap_def caps_of_def flash_def js_inj flash_caps_def default_caps_def del: js_Cons)
qed

lemma preferred_conflict:
  "new_runtime (flash b) \<lparr>required_caps = JUndefined,
     preferred_caps = JObj [(js ''access_binary'', JBool True), (js ''stream_upload'', JBool True)]\<rparr> = Inr None"
  by (simp add: runtime_simps flash_caps_def flash_modes_def del: js_Cons)

text \<open>An upload in chunks never falls back to \<open>html4\<close>.\<close>

lemma html4_never_slices:
  assumes "map_of kvs (js ''slice_blob'') = Some (JBool True)"
  shows "runtime_can b (js ''html4'') (JObj kvs) \<noteq> Inr True"
proof
  assume c: "runtime_can b (js ''html4'') (JObj kvs) = Inr True"
  have "map_of (runtimeConstructors b) (js ''html4'') = Some (html4 b)"
    by (simp add: runtimeConstructors_def js_inj del: js_Cons)
  then obtain m where "can (caps_of (html4 b) (Some m)) (JObj kvs) JUndefined = Inr True"
    using c by (auto simp: runtime_can_def read_prop_def bindR_Inr_iff new_runtime_mode)
  then have "can_cap (caps_of (html4 b) (Some m)) (js ''slice_blob'') (JBool True) = Inr True"
    using map_of_SomeD [OF assms] by (force simp: can_def all_caps_iff can_key_def simp del: js_Cons)
  then show False
    by (simp add: can_cap_def caps_of_def html4_def html4_caps_def default_caps_def js_inj del: js_Cons)
qed

end
