(* ===== verification/Xhr.thy ===== *)
theory Xhr
  imports Url MoxieEncode Mime Runtimes
begin

text \<open>
  Requests in \<open>resources/plugins/oss/lib/plupload-2.1.2/js/moxie.js\<close>: the module \<open>XMLHttpRequest\<close> (lines 4367
  to 5305), a state machine between a client, which opens, sends and aborts, and a runtime, which reports the
  course of the request.

  A send creates a target for the events of the runtime.  Sends and their targets are numbered alike.  Those
  that wait for a runtime are \<open>waiting\<close>, those that could not get one are \<open>failed\<close>.  When the runtime is there, the
  handlers of the send are bound to the target that the object has at that moment (the shared variable \<open>_xhr\<close>,
  here \<open>x_target\<close>), which need not be the one that the send created, and the request is handed over on it: \<open>live\<close>
  holds the pairs of a target and a send whose handlers are bound to it, in the order of binding.  For the
  sends in \<open>ended\<close> the handlers have given up the object.  A runtime is there, or cannot be had, once for
  every target, and its events are dispatched at once, not in detached calls.  Events that are dispatched
  are logged; what the listeners of the client do is left out.  Status, response and headers of a load are what the runtime answers when it is asked for those of the
  current target.  The location of the page, the uids of the runtimes that exist and the text of inherited members
  are parameters; \<open>toLowerCase\<close> and \<open>toUpperCase\<close> are those of ASCII.  A destroyed object is not used again.
\<close>

section \<open>State\<close>

datatype ready = UNSENT | OPENED | HEADERS_RECEIVED | LOADING | DONE

datatype xhr_error = SYNTAX_ERR | SECURITY_ERR | INVALID_ACCESS_ERR | INVALID_STATE_ERR | NOT_INIT_ERR | URI_ERR | TYPE_ERR

text \<open>What is sent, and the options of \<open>send\<close>.\<close>

datatype body = NoData | TextData jstr | BlobData "jstr option" jstr | FormText | FormBlob "jstr option" jstr

record send_options =
  o_ruid :: "jstr option"
  o_required_caps :: jsval

datatype options_arg = NoOptions | OptionsRuid jstr | OptionsObj send_options

record xhr_request =
  r_sender :: nat
  r_target :: nat
  r_url :: jstr
  r_method :: "jstr option"
  r_user :: "jstr option"
  r_password :: "jstr option"
  r_headers :: "(jstr \<times> jstr) list"
  r_mimeType :: "jstr option"
  r_encoding :: "jstr option"
  r_responseType :: jstr
  r_withCredentials :: bool
  r_options :: send_options
  r_data :: body

datatype notice = Self jstr | Upload jstr

record xhr =
  readyState :: ready
  x_status :: int
  statusText :: jstr
  responseType :: jstr
  response :: jsval
  responseText :: jsval
  responseXML :: jsval
  withCredentials :: bool
  x_url :: jstr
  x_method :: "jstr option"
  x_headers :: "(jstr \<times> jstr) list"
  x_user :: "jstr option"
  x_password :: "jstr option"
  x_encoding :: "jstr option"
  x_mimeType :: "jstr option"
  sync_flag :: bool
  send_flag :: bool
  upload_events_flag :: bool
  upload_complete_flag :: bool
  error_flag :: bool
  same_origin_flag :: bool
  finalMime :: "jstr option"
  finalCharset :: "jstr option"
  x_options :: send_options
  responseHeaders :: jstr
  responseHeadersBag :: "(jstr \<times> (jstr \<times> jstr)) list option"
  upload_listened :: bool
  x_target :: "nat option"
  live :: "(nat \<times> nat) list"
  waiting :: "(nat \<times> body) list"
  failed :: "nat list"
  ended :: "nat list"
  next_target :: nat
  log :: "notice list"
  requests :: "xhr_request list"
  aborts :: "(nat \<times> bool) list"

definition no_options :: send_options where
  "no_options = \<lparr>o_ruid = None, o_required_caps = JUndefined\<rparr>"

definition new_xhr :: xhr where
  "new_xhr =
     \<lparr>readyState = UNSENT, x_status = 0, statusText = [], responseType = [], response = JNull, responseText = JNull,
      responseXML = JNull, withCredentials = False, x_url = [], x_method = None, x_headers = [], x_user = None,
      x_password = None, x_encoding = None, x_mimeType = None, sync_flag = False, send_flag = False,
      upload_events_flag = False, upload_complete_flag = False, error_flag = False, same_origin_flag = False,
      finalMime = None, finalCharset = None, x_options = no_options, responseHeaders = [], responseHeadersBag = None,
      upload_listened = False, x_target = None, live = [], waiting = [], failed = [], ended = [], next_target = 0,
      log = [], requests = [], aborts = []\<rparr>"

definition dispatch :: "jstr \<Rightarrow> xhr \<Rightarrow> xhr" where
  "dispatch e s = s\<lparr>log := log s @ [Self e]\<rparr>"

definition dispatch_upload :: "jstr \<Rightarrow> xhr \<Rightarrow> xhr" where
  "dispatch_upload e s = (if upload_events_flag s then s\<lparr>log := log s @ [Upload e]\<rparr> else s)"

section \<open>open\<close>

definition http_known :: "jstr list" where
  "http_known = map js [''CONNECT'', ''DELETE'', ''GET'', ''HEAD'', ''OPTIONS'', ''POST'', ''PUT'', ''TRACE'', ''TRACK'']"

definition http_refused :: "jstr list" where
  "http_refused = map js [''CONNECT'', ''TRACE'', ''TRACK'']"

definition upper :: "jchar \<Rightarrow> jchar" where
  "upper c = (if 97 \<le> c \<and> c \<le> 122 then c - 32 else c)"

text \<open>A text with a character above 255, or that its encoding as UTF-8 changes.\<close>

definition not_ascii :: "jstr \<Rightarrow> bool" where
  "not_ascii s \<longleftrightarrow> list_ex (\<lambda>c. 255 < c) s \<or> utf8_enc s \<noteq> Some s"

definition reset :: "xhr \<Rightarrow> xhr" where
  "reset s = s\<lparr>responseText := JStr [], responseXML := JNull, response := JNull, x_status := 0, statusText := []\<rparr>"

definition or_part :: "jstr \<Rightarrow> jstr option \<Rightarrow> jstr option" where
  "or_part s t = (if s \<noteq> [] then Some s else t)"

text \<open>\<open>async || true\<close> is always true, so the request is never synchronous.\<close>

definition open_xhr ::
    "jstr \<Rightarrow> jstr \<Rightarrow> jstr \<Rightarrow> bool \<Rightarrow> jstr \<Rightarrow> jstr \<Rightarrow> xhr \<Rightarrow> (xhr_error + unit) \<times> xhr" where
  "open_xhr location method url async user password s =
     (if method = [] \<or> url = [] then (Inl SYNTAX_ERR, s)
      else if not_ascii method then (Inl SYNTAX_ERR, s)
      else
        let s = (if inArray (map upper method) http_known \<noteq> -1 then s\<lparr>x_method := Some (map upper method)\<rparr> else s)
        in if (case x_method s of Some m \<Rightarrow> inArray m http_refused \<noteq> -1 | None \<Rightarrow> False) then (Inl SECURITY_ERR, s)
           else
             (case utf8_enc url of
                None \<Rightarrow> (Inl URI_ERR, s)
              | Some url \<Rightarrow>
                  let urlp = parseUrl location url;
                      s = s\<lparr>same_origin_flag := hasSameOrigin location urlp, x_url := resolveUrl location url\<rparr>
                  in if (user \<noteq> [] \<or> password \<noteq> []) \<and> \<not> same_origin_flag s then (Inl INVALID_ACCESS_ERR, s)
                     else
                       let s = s\<lparr>x_user := or_part user (u_user urlp), x_password := or_part password (u_pass urlp)\<rparr>;
                           async' = (async \<or> True);
                           s = reset (s\<lparr>sync_flag := \<not> async', send_flag := False, x_headers := []\<rparr>)
                       in (Inr (), dispatch (js ''readystatechange'') (s\<lparr>readyState := OPENED\<rparr>))))"

section \<open>Headers\<close>

definition uaHeaders :: "jstr list" where
  "uaHeaders =
     map js [''accept-charset'', ''accept-encoding'', ''access-control-request-headers'',
             ''access-control-request-method'', ''connection'', ''content-length'', ''cookie'', ''cookie2'',
             ''content-transfer-encoding'', ''date'', ''expect'', ''host'', ''keep-alive'', ''origin'', ''referer'',
             ''te'', ''trailer'', ''transfer-encoding'', ''upgrade'', ''user-agent'', ''via'']"

definition controlled :: "jstr \<Rightarrow> bool" where
  "controlled header \<longleftrightarrow>
     inArray header uaHeaders \<noteq> -1 \<or> prefix (js ''proxy-'') header \<or> prefix (js ''sec-'') header"

text \<open>A name that every object has is found, and the value is added to the text of that member.\<close>

definition setRequestHeader :: "(jstr \<Rightarrow> jstr) \<Rightarrow> jstr \<Rightarrow> jstr \<Rightarrow> xhr \<Rightarrow> (xhr_error + bool) \<times> xhr" where
  "setRequestHeader inherited header v s =
     (if readyState s \<noteq> OPENED \<or> send_flag s then (Inl INVALID_STATE_ERR, s)
      else if not_ascii header then (Inl SYNTAX_ERR, s)
      else
        let h = map toLower (trim header)
        in if controlled h then (Inr False, s)
           else
             let old = (case read_prop (x_headers s) h of
                          Some (Own t) \<Rightarrow> t
                        | Some (Inherited k) \<Rightarrow> inherited k
                        | None \<Rightarrow> [])
             in (Inr True, s\<lparr>x_headers := put_prop (x_headers s) h (if old = [] then v else old @ js '', '' @ v)\<rparr>))"

fun split_crlf :: "jstr \<Rightarrow> jstr list" where
  "split_crlf (a # b # cs) =
     (if a = 13 \<and> b = 10 then [] # split_crlf cs
      else (case split_crlf (b # cs) of p # ps \<Rightarrow> (a # p) # ps | [] \<Rightarrow> []))"
| "split_crlf cs = [cs]"

text \<open>Split at every colon that white space follows.\<close>

function split_colon :: "jstr \<Rightarrow> jstr list" where
  "split_colon [] = [[]]"
| "split_colon (c # cs) =
     (if c = 58 \<and> cs \<noteq> [] \<and> js_space (hd cs) then [] # split_colon (dropWhile js_space cs)
      else (case split_colon cs of p # ps \<Rightarrow> (c # p) # ps | [] \<Rightarrow> []))"
  by pat_completeness auto
termination by (relation "measure length") (auto simp: length_dropWhile_le le_imp_less_Suc)

definition add_line :: "(jstr \<times> (jstr \<times> jstr)) list \<Rightarrow> jstr \<Rightarrow> (jstr \<times> (jstr \<times> jstr)) list" where
  "add_line bag line =
     (case split_colon line of
        [name, v] \<Rightarrow> put_prop bag (map toLower (trim name)) (trim name, trim v)
      | _ \<Rightarrow> bag)"

definition getAllResponseHeaders :: "xhr \<Rightarrow> jstr" where
  "getAllResponseHeaders s = responseHeaders s"

text \<open>The headers are parsed once and kept.\<close>

definition getResponseHeader :: "jstr \<Rightarrow> xhr \<Rightarrow> jstr option \<times> xhr" where
  "getResponseHeader header s =
     (let header = map toLower header
      in if error_flag s \<or> inArray header (map js [''set-cookie'', ''set-cookie2'']) \<noteq> -1 then (None, s)
         else if responseHeaders s = [] then (None, s)
         else
           let bag = (case responseHeadersBag s of
                        Some bag \<Rightarrow> bag
                      | None \<Rightarrow> foldl add_line [] (split_crlf (responseHeaders s)))
           in (case map_of bag header of
                 Some (name, v) \<Rightarrow> Some (name @ js '': '' @ v)
               | None \<Rightarrow> None,
               s\<lparr>responseHeadersBag := Some bag\<rparr>))"

text \<open>The type and what follows it; the optional part is a semicolon, one white space and \<open>charset=\<close>.\<close>

definition mime_charset :: "jstr \<Rightarrow> (jstr \<times> jstr) option" where
  "mime_charset mime =
     (let a = takeWhile (\<lambda>c. c \<noteq> 59) mime; r = dropWhile (\<lambda>c. c \<noteq> 59) mime;
          r' = (if length r \<ge> 2 \<and> js_space (r ! 1) \<and> prefix (js ''charset='') (drop 2 r) then drop 10 r else r)
      in if a \<noteq> [] \<and> \<not> list_ex line_end r' then Some (a, r') else None)"

definition overrideMimeType :: "mime_tables \<Rightarrow> jstr \<Rightarrow> xhr \<Rightarrow> (xhr_error + unit) \<times> xhr" where
  "overrideMimeType m mime s =
     (if inArray (readyState s) [LOADING, DONE] \<noteq> -1 then (Inl INVALID_STATE_ERR, s)
      else
        let mime = trim (map toLower mime);
            (mime, charset) = (case (if 59 \<in> set mime then mime_charset mime else None) of
                                 Some (a, r) \<Rightarrow> (a, nonempty r)
                               | None \<Rightarrow> (mime, None))
        in if (case read_prop (mimes m) mime of None \<Rightarrow> True | Some t \<Rightarrow> t = Own []) then (Inl SYNTAX_ERR, s)
           else (Inr (), s\<lparr>finalMime := Some mime, finalCharset := charset\<rparr>))"

section \<open>send\<close>

text \<open>The status texts.\<close>

definition httpCode :: "(int \<times> jstr) list" where
  "httpCode =
     map (\<lambda>(n, t). (n, js t))
       [(100, ''Continue''), (101, ''Switching Protocols''), (102, ''Processing''), (200, ''OK''), (201, ''Created''),
        (202, ''Accepted''), (203, ''Non-Authoritative Information''), (204, ''No Content''), (205, ''Reset Content''),
        (206, ''Partial Content''), (207, ''Multi-Status''), (226, ''IM Used''), (300, ''Multiple Choices''),
        (301, ''Moved Permanently''), (302, ''Found''), (303, ''See Other''), (304, ''Not Modified''), (305, ''Use Proxy''),
        (306, ''Reserved''), (307, ''Temporary Redirect''), (400, ''Bad Request''), (401, ''Unauthorized''),
        (402, ''Payment Required''), (403, ''Forbidden''), (404, ''Not Found''), (405, ''Method Not Allowed''),
        (406, ''Not Acceptable''), (407, ''Proxy Authentication Required''), (408, ''Request Timeout''), (409, ''Conflict''),
        (410, ''Gone''), (411, ''Length Required''), (412, ''Precondition Failed''), (413, ''Request Entity Too Large''),
        (414, ''Request-URI Too Long''), (415, ''Unsupported Media Type''), (416, ''Requested Range Not Satisfiable''),
        (417, ''Expectation Failed''), (422, ''Unprocessable Entity''), (423, ''Locked''), (424, ''Failed Dependency''),
        (426, ''Upgrade Required''), (500, ''Internal Server Error''), (501, ''Not Implemented''), (502, ''Bad Gateway''),
        (503, ''Service Unavailable''), (504, ''Gateway Timeout''), (505, ''HTTP Version Not Supported''),
        (506, ''Variant Also Negotiates''), (507, ''Insufficient Storage''), (510, ''Not Extended'')]"

text \<open>
  The handlers of a send are bound to a target, and the request is handed to the runtime; what it consists of is
  read at this moment, except for the data.
\<close>

definition exec_send :: "nat \<Rightarrow> nat \<Rightarrow> body \<Rightarrow> xhr \<Rightarrow> xhr" where
  "exec_send k t b s =
     s\<lparr>live := live s @ [(t, k)],
       requests := requests s @
         [\<lparr>r_sender = k, r_target = t, r_url = x_url s, r_method = x_method s, r_user = x_user s,
           r_password = x_password s, r_headers = x_headers s, r_mimeType = x_mimeType s, r_encoding = x_encoding s,
           r_responseType = responseType s, r_withCredentials = withCredentials s, r_options = x_options s,
           r_data = b\<rparr>]\<rparr>"

definition is_form :: "body \<Rightarrow> bool" where
  "is_form b = (case b of FormText \<Rightarrow> True | FormBlob _ _ \<Rightarrow> True | _ \<Rightarrow> False)"

definition require :: "string \<Rightarrow> jsval \<Rightarrow> jsval" where
  "require cap caps = set_key caps (JStr (js cap)) (JBool True)"

definition doXHR :: "jstr list \<Rightarrow> body \<Rightarrow> xhr \<Rightarrow> (xhr_error + unit) \<times> xhr" where
  "doXHR runtimes b s =
     (let t = next_target s;
          caps = o_required_caps (x_options s);
          caps = (case caps of JStr _ \<Rightarrow> parseCaps caps | _ \<Rightarrow> caps);
          caps = extend_val (JObj []) [caps, JObj [(js ''return_response_type'', JStr (responseType s))]];
          caps = (if is_form b then require ''send_multipart'' caps else caps);
          caps = (if \<not> same_origin_flag s then require ''do_cors'' caps else caps);
          s = s\<lparr>x_target := Some t, next_target := t + 1, x_options := (x_options s)\<lparr>o_required_caps := caps\<rparr>\<rparr>
      in case o_ruid (x_options s) of
           Some (c # cs) \<Rightarrow> if (c # cs) \<in> set runtimes then (Inr (), exec_send t t b s) else (Inl NOT_INIT_ERR, s)
         | _ \<Rightarrow> (Inr (), s\<lparr>waiting := (t, b) # waiting s\<rparr>))"

definition octets :: jstr where
  "octets = js ''application/octet-stream''"

text \<open>The type and the runtime of a blob, and the encoding of a text.\<close>

definition prepare_body :: "body \<Rightarrow> xhr \<Rightarrow> (xhr_error + body) \<times> xhr" where
  "prepare_body b s =
     (case b of
        BlobData ruid type \<Rightarrow>
          (Inr b, s\<lparr>x_options := (x_options s)\<lparr>o_ruid := ruid\<rparr>, x_mimeType := Some (if type \<noteq> [] then type else octets)\<rparr>)
      | FormBlob ruid type \<Rightarrow>
          (Inr b, s\<lparr>x_options := (x_options s)\<lparr>o_ruid := ruid\<rparr>, x_mimeType := Some (if type \<noteq> [] then type else octets)\<rparr>)
      | TextData d \<Rightarrow>
          (let s = s\<lparr>x_encoding := Some (js ''UTF-8''), x_mimeType := Some (js ''text/plain;charset=UTF-8'')\<rparr>
           in case utf8_enc d of None \<Rightarrow> (Inl URI_ERR, s) | Some d \<Rightarrow> (Inr (TextData d), s))
      | _ \<Rightarrow> (Inr b, s))"

definition cookies_required :: "jsval \<Rightarrow> bool" where
  "cookies_required caps = (case caps of JObj kvs \<Rightarrow> truthy (prop_of kvs (js ''send_browser_cookies'')) | _ \<Rightarrow> False)"

definition send_xhr :: "jstr list \<Rightarrow> body \<Rightarrow> options_arg \<Rightarrow> xhr \<Rightarrow> (xhr_error + unit) \<times> xhr" where
  "send_xhr runtimes b opts s =
     (let s = s\<lparr>x_options := (case opts of
                               NoOptions \<Rightarrow> no_options
                             | OptionsRuid r \<Rightarrow> no_options\<lparr>o_ruid := Some r\<rparr>
                             | OptionsObj opt \<Rightarrow> opt)\<rparr>
      in if readyState s \<noteq> OPENED \<or> send_flag s then (Inl INVALID_STATE_ERR, s)
         else
           (case prepare_body b s of
              (Inl e, s) \<Rightarrow> (Inl e, s)
            | (Inr b, s) \<Rightarrow>
                let s = s\<lparr>withCredentials :=
                            (withCredentials s \<or> cookies_required (o_required_caps (x_options s)) \<and> \<not> same_origin_flag s)\<rparr>;
                    s = s\<lparr>upload_events_flag := (\<not> sync_flag s \<and> upload_listened s), error_flag := False,
                          upload_complete_flag := (b = NoData \<or> b = TextData [])\<rparr>;
                    s = (if \<not> sync_flag s then s\<lparr>send_flag := True\<rparr> else s)
                in doXHR runtimes b s))"

section \<open>abort and destroy\<close>

definition destroy_target :: "nat \<Rightarrow> xhr \<Rightarrow> xhr" where
  "destroy_target t s =
     s\<lparr>live := filter (\<lambda>p. fst p \<noteq> t) (live s), waiting := filter (\<lambda>p. fst p \<noteq> t) (waiting s)\<rparr>"

text \<open>A target that could not get a runtime has none to ask.\<close>

definition abort_xhr :: "xhr \<Rightarrow> (xhr_error + unit) \<times> xhr" where
  "abort_xhr s =
     (let s = s\<lparr>error_flag := True, sync_flag := False\<rparr>
      in if inArray (readyState s) [UNSENT, OPENED, DONE] = -1 then
           let s = s\<lparr>readyState := DONE, send_flag := False\<rparr>
           in case x_target s of
                Some t \<Rightarrow>
                  if t \<in> set (failed s) then (Inl TYPE_ERR, s)
                  else (Inr (), s\<lparr>aborts := aborts s @ [(t, upload_complete_flag s)], upload_complete_flag := True\<rparr>)
              | None \<Rightarrow> (Inl INVALID_STATE_ERR, s)
         else (Inr (), s\<lparr>readyState := UNSENT\<rparr>))"

definition destroy_xhr :: "xhr \<Rightarrow> xhr" where
  "destroy_xhr s = (case x_target s of Some t \<Rightarrow> (destroy_target t s)\<lparr>x_target := None\<rparr> | None \<Rightarrow> s)"

section \<open>Events of the runtime\<close>

datatype revent =
    RuntimeInit
  | RuntimeError
  | LoadStart
  | Progress
  | UploadProgress
  | Load int jsval jstr
  | Abort
  | Error

text \<open>The end: the current target is destroyed, whichever it is, and the handlers of this send give up the object.\<close>

definition loadEnd :: "nat \<Rightarrow> xhr \<Rightarrow> xhr" where
  "loadEnd k s =
     (let s = (case x_target s of Some u \<Rightarrow> (destroy_target u s)\<lparr>x_target := None\<rparr> | None \<Rightarrow> s)
      in (dispatch (js ''loadend'') s)\<lparr>ended := k # ended s\<rparr>)"

text \<open>
  What a handler does before it uses the object for the first time, and what it does with it.  A handler that
  has given up the object fails there.
\<close>

definition before_self :: "revent \<Rightarrow> xhr \<Rightarrow> xhr" where
  "before_self e s =
     (case e of
        LoadStart \<Rightarrow> s\<lparr>readyState := LOADING\<rparr>
      | Progress \<Rightarrow> (if readyState s \<noteq> LOADING then s\<lparr>readyState := LOADING\<rparr> else s)
      | Load status resp headers \<Rightarrow>
          (let s = s\<lparr>readyState := DONE, x_status := status,
                     statusText := (case map_of httpCode status of Some t \<Rightarrow> t | None \<Rightarrow> []), response := resp\<rparr>;
               s = (if inArray (responseType s) [js ''text'', []] \<noteq> -1 then s\<lparr>responseText := resp\<rparr>
                    else if responseType s = js ''document'' then s\<lparr>responseXML := resp\<rparr> else s)
           in s\<lparr>responseHeaders := headers\<rparr>)
      | Error \<Rightarrow> s\<lparr>error_flag := True, readyState := DONE\<rparr>
      | _ \<Rightarrow> s)"

definition with_self :: "nat \<Rightarrow> revent \<Rightarrow> bool \<Rightarrow> xhr \<Rightarrow> xhr" where
  "with_self k e was_loading s =
     (case e of
        LoadStart \<Rightarrow> dispatch_upload (js ''loadstart'') (dispatch (js ''loadstart'') (dispatch (js ''readystatechange'') s))
      | Progress \<Rightarrow> dispatch (js ''progress'') (if \<not> was_loading then dispatch (js ''readystatechange'') s else s)
      | UploadProgress \<Rightarrow> dispatch_upload (js ''progress'') s
      | Load _ _ _ \<Rightarrow>
          (let s = dispatch (js ''readystatechange'') s
           in loadEnd k
                (if x_status s > 0 then dispatch (js ''load'') (dispatch_upload (js ''load'') s)
                 else dispatch (js ''error'') (s\<lparr>error_flag := True\<rparr>)))
      | Abort \<Rightarrow> loadEnd k (dispatch (js ''abort'') s)
      | Error \<Rightarrow>
          (let s = dispatch (js ''readystatechange'') s
           in loadEnd k (dispatch (js ''error'') (s\<lparr>upload_complete_flag := True\<rparr>)))
      | _ \<Rightarrow> s)"

text \<open>
  The handler that a send has bound for an event.  That of a load asks the runtime in the name of the current
  target, and fails when there is none.
\<close>

definition event_handler :: "nat \<Rightarrow> revent \<Rightarrow> xhr \<Rightarrow> (xhr_error + unit) \<times> xhr" where
  "event_handler k e s =
     (if (case e of Load _ _ _ \<Rightarrow> x_target s = None | _ \<Rightarrow> False) then (Inl TYPE_ERR, s\<lparr>readyState := DONE\<rparr>)
      else
        let s' = before_self e s
        in if k \<in> set (ended s) \<and> (e = UploadProgress \<longrightarrow> upload_events_flag s) then (Inl TYPE_ERR, s')
           else (Inr (), with_self k e (readyState s = LOADING) s'))"

definition bound_to :: "nat \<Rightarrow> xhr \<Rightarrow> nat list" where
  "bound_to t s = map snd (filter (\<lambda>p. fst p = t) (live s))"

text \<open>The handlers that are bound when the event comes are called in turn, up to one that fails.\<close>

fun run_handlers :: "nat list \<Rightarrow> revent \<Rightarrow> xhr \<Rightarrow> (xhr_error + unit) \<times> xhr" where
  "run_handlers [] e s = (Inr (), s)"
| "run_handlers (k # ks) e s =
     (case event_handler k e s of (Inl x, s) \<Rightarrow> (Inl x, s) | (Inr _, s) \<Rightarrow> run_handlers ks e s)"

definition on_event :: "nat \<Rightarrow> revent \<Rightarrow> xhr \<Rightarrow> (xhr_error + unit) \<times> xhr" where
  "on_event t e s =
     (case e of
        RuntimeInit \<Rightarrow>
          (case map_of (waiting s) t of
             Some b \<Rightarrow>
               (let s = s\<lparr>waiting := filter (\<lambda>p. fst p \<noteq> t) (waiting s)\<rparr>
                in case x_target s of
                     Some u \<Rightarrow> (Inr (), exec_send t u b s)
                   | None \<Rightarrow> (Inl TYPE_ERR, s))
           | None \<Rightarrow> (Inr (), s))
      | RuntimeError \<Rightarrow>
          (if map_of (waiting s) t \<noteq> None then
             (Inr (), dispatch (js ''RuntimeError'')
                        (s\<lparr>waiting := filter (\<lambda>p. fst p \<noteq> t) (waiting s), failed := t # failed s\<rparr>))
           else (Inr (), s))
      | _ \<Rightarrow> run_handlers (bound_to t s) e s)"

section \<open>Runs\<close>

datatype action =
    AOpen jstr jstr bool jstr jstr
  | AHeader jstr jstr
  | AOverride jstr
  | AResponseType jstr
  | AGetHeader jstr
  | ASend body options_arg
  | AAbort
  | ADestroy
  | AEvent nat revent

record surroundings =
  location :: jstr
  runtimes :: "jstr list"
  inherited :: "jstr \<Rightarrow> jstr"
  tables :: mime_tables

definition perform :: "surroundings \<Rightarrow> action \<Rightarrow> xhr \<Rightarrow> xhr" where
  "perform w a s =
     (case a of
        AOpen m u async user pass \<Rightarrow> snd (open_xhr (location w) m u async user pass s)
      | AHeader h v \<Rightarrow> snd (setRequestHeader (inherited w) h v s)
      | AOverride m \<Rightarrow> snd (overrideMimeType (tables w) m s)
      | AResponseType t \<Rightarrow> s\<lparr>responseType := t\<rparr>
      | AGetHeader h \<Rightarrow> snd (getResponseHeader h s)
      | ASend b opts \<Rightarrow> snd (send_xhr (runtimes w) b opts s)
      | AAbort \<Rightarrow> snd (abort_xhr s)
      | ADestroy \<Rightarrow> destroy_xhr s
      | AEvent t e \<Rightarrow> snd (on_event t e s))"

inductive xreach :: "surroundings \<Rightarrow> xhr \<Rightarrow> bool" for w where
  xreach_new: "xreach w new_xhr"
| xreach_act: "xreach w s \<Longrightarrow> xreach w (perform w a s)"

definition headers_ok :: "(jstr \<times> jstr) list \<Rightarrow> bool" where
  "headers_ok hs \<longleftrightarrow> (\<forall>(h, v) \<in> set hs. \<not> controlled h \<and> map toLower h = h)"

abbreviation loadends :: "xhr \<Rightarrow> nat" where
  "loadends s \<equiv> length (filter (\<lambda>d. d = Self (js ''loadend'')) (log s))"

definition xinv :: "xhr \<Rightarrow> bool" where
  "xinv s \<longleftrightarrow>
     readyState s \<noteq> HEADERS_RECEIVED \<and> headers_ok (x_headers s) \<and> (\<forall>r \<in> set (requests s). headers_ok (r_headers r)) \<and>
     distinct (map r_sender (requests s) @ map fst (waiting s)) \<and>
     (\<forall>k \<in> set (map r_sender (requests s) @ map fst (waiting s)). k < next_target s) \<and>
     (\<forall>r \<in> set (requests s). r_sender r \<le> r_target r) \<and> (\<forall>t. x_target s = Some t \<longrightarrow> next_target s = Suc t) \<and>
     set (live s) \<subseteq> (\<lambda>r. (r_target r, r_sender r)) ` set (requests s) \<and> distinct (map snd (live s)) \<and>
     set (ended s) \<subseteq> r_sender ` set (requests s) \<and> distinct (ended s) \<and> loadends s = length (ended s)"

text \<open>The parts of the state that the invariant speaks of.\<close>

definition core :: "xhr \<Rightarrow> _" where
  "core s = (readyState s = HEADERS_RECEIVED, x_headers s, requests s, waiting s, next_target s, x_target s, live s, ended s,
             loadends s)"

lemma xinv_core: "core s = core s' \<Longrightarrow> xinv s \<longleftrightarrow> xinv s'"
  by (simp add: core_def xinv_def)

lemma loadend_names: "js ''loadend'' \<noteq> js ''readystatechange''" "js ''loadend'' \<noteq> js ''loadstart''" "js ''loadend'' \<noteq> js ''progress''"
    "js ''loadend'' \<noteq> js ''load''" "js ''loadend'' \<noteq> js ''error''" "js ''loadend'' \<noteq> js ''abort''" "js ''loadend'' \<noteq> js ''RuntimeError''"
  by (simp_all add: js_inj del: js_Cons)

lemmas loadend_names' = loadend_names loadend_names [symmetric]

lemma core_dispatch [simp]:
  "e \<noteq> js ''loadend'' \<Longrightarrow> core (dispatch e s) = core s" "core (dispatch_upload e s) = core s"
  by (simp_all add: core_def dispatch_def dispatch_upload_def del: js_Cons)

lemma toLower_lower: "toLower (toLower c) = toLower c"
  by (auto simp: toLower_def word_le_nat_alt unat_arith_simps)

lemma put_prop_keys: "set (put_prop ob k v) \<subseteq> set ob \<union> {(k, v)}"
proof -
  have "set (obj_set ob k v) \<subseteq> set ob \<union> {(k, v)}" by (induction ob k v rule: obj_set.induct) auto
  then show ?thesis by (auto simp: put_prop_def simp del: js_Cons)
qed

lemma headers_ok_put: "headers_ok hs \<Longrightarrow> \<not> controlled h \<Longrightarrow> map toLower h = h \<Longrightarrow> headers_ok (put_prop hs h v)"
  using put_prop_keys [of hs h v] by (fastforce simp: headers_ok_def)

lemma xinv_open: "xinv s \<Longrightarrow> xinv (snd (open_xhr l m u async user pass s))"
proof -
  assume "xinv s"
  have d: "xinv (dispatch (js ''readystatechange'') s') = xinv s'" for s'
    by (rule xinv_core) (simp add: loadend_names')
  show ?thesis using \<open>xinv s\<close>
    by (auto simp: open_xhr_def Let_def d split: option.splits simp del: js_Cons)
      (auto simp: xinv_def reset_def headers_ok_def)
qed

lemma xinv_header: "xinv s \<Longrightarrow> xinv (snd (setRequestHeader inh h v s))"
proof -
  assume s: "xinv s"
  let ?h = "map toLower (trim h)"
  have l: "map toLower ?h = ?h" by (simp add: toLower_lower)
  have "headers_ok (x_headers s)" using s by (simp add: xinv_def)
  then have "\<not> controlled ?h \<Longrightarrow> headers_ok (put_prop (x_headers s) ?h v')" for v' using headers_ok_put l by blast
  then show ?thesis using s by (auto simp: setRequestHeader_def Let_def xinv_def)
qed

lemma xinv_others:
  "xinv s \<Longrightarrow> xinv (snd (overrideMimeType m t s))" "xinv s \<Longrightarrow> xinv (s\<lparr>responseType := t\<rparr>)"
  "xinv s \<Longrightarrow> xinv (snd (getResponseHeader h s))"
  by (auto simp: overrideMimeType_def getResponseHeader_def Let_def xinv_def split: option.splits prod.splits)

lemma xinv_exec:
  "xinv s \<Longrightarrow> k \<le> t \<Longrightarrow> k < next_target s \<Longrightarrow> k \<notin> set (map r_sender (requests s) @ map fst (waiting s)) \<Longrightarrow>
   xinv (exec_send k t b s)"
  by (auto simp: xinv_def exec_send_def)

lemma xinv_shrink:
  assumes "xinv s"
  shows "xinv (s\<lparr>live := filter P (live s), waiting := filter Q (waiting s)\<rparr>)"
proof -
  have "distinct (map r_sender (requests s) @ map fst (filter Q (waiting s)))"
      "\<forall>k \<in> set (map r_sender (requests s) @ map fst (filter Q (waiting s))). k < next_target s"
      "set (filter P (live s)) \<subseteq> (\<lambda>r. (r_target r, r_sender r)) ` set (requests s)" "distinct (map snd (filter P (live s)))"
    using assms unfolding xinv_def by (auto intro: distinct_map_filter)
  with assms show ?thesis by (simp add: xinv_def)
qed

lemma xinv_unwait: "xinv s \<Longrightarrow> xinv (s\<lparr>waiting := filter P (waiting s)\<rparr>)"
  using xinv_shrink [of s P "\<lambda>_. True"] by simp

lemma xinv_no_target: "xinv s \<Longrightarrow> xinv (s\<lparr>x_target := None\<rparr>)"
  by (simp add: xinv_def)

lemma xinv_destroy: "xinv s \<Longrightarrow> xinv (destroy_target t s)" "xinv s \<Longrightarrow> xinv (destroy_xhr s)"
proof -
  show "xinv s \<Longrightarrow> xinv (destroy_target t s)" for s t
    unfolding destroy_target_def by (rule xinv_shrink)
  then show "xinv s \<Longrightarrow> xinv (destroy_xhr s)"
    by (simp add: destroy_xhr_def xinv_no_target split: option.split)
qed

lemma xinv_doXHR: "xinv s \<Longrightarrow> xinv (snd (doXHR rts b s))"
proof -
  assume s: "xinv s"
  let ?n = "next_target s"
  have fresh: "?n \<notin> set (map r_sender (requests s) @ map fst (waiting s))" using s unfolding xinv_def by blast
  have t: "xinv (s\<lparr>x_target := Some ?n, next_target := Suc ?n, x_options := opt\<rparr>)" for opt
    using s by (auto simp: xinv_def less_Suc_eq)
  have e: "xinv (exec_send ?n ?n b (s\<lparr>x_target := Some ?n, next_target := Suc ?n, x_options := opt\<rparr>))" for opt
    using t fresh by (intro xinv_exec) auto
  have w: "xinv (s\<lparr>x_target := Some ?n, next_target := Suc ?n, x_options := opt, waiting := (?n, b) # waiting s\<rparr>)" for opt
    using t [of opt] fresh by (auto simp: xinv_def)
  show ?thesis unfolding doXHR_def Let_def
    by (simp split: option.split list.split add: t e w del: js_Cons)
qed

lemma xinv_send: "xinv s \<Longrightarrow> xinv (snd (send_xhr rts b opts s))"
proof -
  assume s: "xinv s"
  have p: "xinv (snd (prepare_body b s'))" if "xinv s'" for s'
    using that by (auto simp: prepare_body_def Let_def xinv_def split: body.splits option.splits)
  define s0 where "s0 = s\<lparr>x_options := (case opts of NoOptions \<Rightarrow> no_options | OptionsRuid r \<Rightarrow> no_options\<lparr>o_ruid := Some r\<rparr>
      | OptionsObj opt \<Rightarrow> opt)\<rparr>"
  have s0: "xinv s0" using s by (simp add: s0_def xinv_def)
  obtain r s1 where r: "prepare_body b s0 = (r, s1)" by force
  then have s1: "xinv s1" using p [OF s0] by simp
  have f: "xinv (s1\<lparr>withCredentials := c, upload_events_flag := u, error_flag := False, upload_complete_flag := k\<rparr>)"
      "xinv (s1\<lparr>withCredentials := c, upload_events_flag := u, error_flag := False, upload_complete_flag := k, send_flag := True\<rparr>)" for c u k
    using s1 by (simp_all add: xinv_def)
  show ?thesis
  proof (cases r)
    case (Inl e)
    then show ?thesis using s0 s1 r unfolding send_xhr_def Let_def s0_def [symmetric] by simp
  next
    case (Inr b')
    then show ?thesis using s0 f r unfolding send_xhr_def Let_def s0_def [symmetric] by (simp add: xinv_doXHR)
  qed
qed

lemma xinv_abort: "xinv s \<Longrightarrow> xinv (snd (abort_xhr s))"
proof -
  assume "xinv s"
  moreover from this have "core (snd (abort_xhr s)) = core s"
    by (simp add: abort_xhr_def Let_def core_def xinv_def split: option.split)
  ultimately show ?thesis using xinv_core by blast
qed

lemma xinv_loadEnd:
  "xinv s \<Longrightarrow> k \<in> r_sender ` set (requests s) \<Longrightarrow> k \<notin> set (ended s) \<Longrightarrow> xinv (loadEnd k s)"
proof -
  assume s: "xinv s" "k \<in> r_sender ` set (requests s)" "k \<notin> set (ended s)"
  let ?s = "case x_target s of Some u \<Rightarrow> (destroy_target u s)\<lparr>x_target := None\<rparr> | None \<Rightarrow> s"
  have "xinv ?s" using xinv_destroy(2) [OF s(1)] by (simp add: destroy_xhr_def)
  moreover have "requests ?s = requests s" "ended ?s = ended s" by (auto simp: destroy_target_def split: option.splits)
  ultimately show ?thesis using s(2,3)
    unfolding loadEnd_def Let_def by (auto simp: xinv_def dispatch_def)
qed

lemma before_self_same:
  "x_headers (before_self e s) = x_headers s \<and> requests (before_self e s) = requests s \<and> waiting (before_self e s) = waiting s \<and>
   next_target (before_self e s) = next_target s \<and> live (before_self e s) = live s \<and> ended (before_self e s) = ended s \<and>
   log (before_self e s) = log s \<and> x_target (before_self e s) = x_target s \<and> upload_events_flag (before_self e s) = upload_events_flag s"
  by (cases e) (simp_all add: before_self_def Let_def)

lemma xinv_before_self: "xinv s \<Longrightarrow> xinv (before_self e s)"
proof -
  assume s: "xinv s"
  then have "readyState (before_self e s) \<noteq> HEADERS_RECEIVED"
    by (auto simp: before_self_def Let_def xinv_def split: revent.splits)
  with s before_self_same [of e s] show ?thesis by (simp add: xinv_def)
qed

lemma same_requests [simp]:
  "requests (dispatch e s) = requests s" "ended (dispatch e s) = ended s"
  "requests (dispatch_upload e s) = requests s" "ended (dispatch_upload e s) = ended s"
  by (simp_all add: dispatch_def dispatch_upload_def)

lemma xinv_dispatch [simp]:
  "e \<noteq> js ''loadend'' \<Longrightarrow> xinv (dispatch e s) = xinv s" "xinv (dispatch_upload e s) = xinv s"
  by (rule xinv_core, simp)+

lemma xinv_flags [simp]:
  "xinv (s\<lparr>error_flag := x\<rparr>) = xinv s" "xinv (s\<lparr>upload_complete_flag := y\<rparr>) = xinv s"
  "xinv (s\<lparr>failed := z\<rparr>) = xinv s" "xinv s \<Longrightarrow> xinv (s\<lparr>readyState := DONE\<rparr>)"
  by (simp_all add: xinv_def)

lemma xinv_with_self:
  "xinv s \<Longrightarrow> k \<in> r_sender ` set (requests s) \<Longrightarrow> k \<notin> set (ended s) \<Longrightarrow> xinv (with_self k e was s)"
  by (cases e) (auto simp: with_self_def Let_def loadend_names' intro!: xinv_loadEnd simp del: js_Cons)

lemma with_self_upload: "xinv s \<Longrightarrow> xinv (with_self k UploadProgress was s)"
  by (simp add: with_self_def del: js_Cons)

lemma with_self_requests: "requests (with_self k e was s) = requests s"
  by (cases e) (simp_all add: with_self_def loadEnd_def Let_def destroy_target_def split: option.splits)

lemma event_handler_requests: "requests (snd (event_handler k e s)) = requests s"
  using before_self_same [of e s] by (simp add: event_handler_def Let_def with_self_requests)

lemma xinv_event_handler:
  assumes "xinv s" "k \<in> r_sender ` set (requests s)"
  shows "xinv (snd (event_handler k e s))"
proof (cases "k \<in> set (ended s)")
  case True
  then show ?thesis using assms(1) xinv_before_self [OF assms(1)] with_self_upload by (auto simp: event_handler_def Let_def)
next
  case False
  then have "xinv (with_self k e was (before_self e s))" for was
    using assms before_self_same [of e s] by (intro xinv_with_self xinv_before_self) auto
  then show ?thesis using assms(1) False by (simp add: event_handler_def Let_def)
qed

lemma xinv_handlers:
  "xinv s \<Longrightarrow> set ks \<subseteq> r_sender ` set (requests s) \<Longrightarrow> xinv (snd (run_handlers ks e s))"
proof (induction ks arbitrary: s)
  case (Cons k ks)
  then have h: "xinv (snd (event_handler k e s))" by (intro xinv_event_handler) auto
  have "xinv (snd (run_handlers ks e (snd (event_handler k e s))))"
    using Cons.prems(2) by (intro Cons.IH h) (simp add: event_handler_requests)
  with h show ?case by (auto split: prod.split sum.split)
qed simp

lemma xinv_event: "xinv s \<Longrightarrow> xinv (snd (on_event t e s))"
proof -
  assume s: "xinv s"
  let ?s = "s\<lparr>waiting := filter (\<lambda>p. fst p \<noteq> t) (waiting s)\<rparr>"
  have w: "xinv ?s" using s by (rule xinv_unwait)
  have i: "xinv (exec_send t u b ?s)" if "map_of (waiting s) t = Some b" "x_target s = Some u" for b u
  proof -
    have "t \<in> fst ` set (waiting s)" using that(1) by (metis map_of_eq_None_iff option.distinct(1))
    then have "t < next_target s" "t \<notin> set (map r_sender (requests s) @ map fst (waiting ?s))" using s by (auto simp: xinv_def)
    moreover have "next_target s = Suc u" using s that(2) by (simp add: xinv_def)
    ultimately show ?thesis using w by (intro xinv_exec) auto
  qed
  have "set (bound_to t s) \<subseteq> r_sender ` set (requests s)" using s by (auto simp: bound_to_def xinv_def)
  then have h: "xinv (snd (run_handlers (bound_to t s) e s))" by (rule xinv_handlers [OF s])
  have f: "xinv (dispatch (js ''RuntimeError'') (?s\<lparr>failed := z\<rparr>))" for z using w by (simp add: loadend_names' del: js_Cons)
  show ?thesis
    by (cases e) (use s w i h f in \<open>simp_all add: on_event_def Let_def split: option.split del: js_Cons\<close>)
qed

lemma xinv_act: "xinv s \<Longrightarrow> xinv (perform w a s)"
  by (cases a) (simp_all add: perform_def xinv_open xinv_header xinv_others xinv_send xinv_abort xinv_destroy xinv_event)

lemma xinv_reach: "xreach w s \<Longrightarrow> xinv s"
proof (induction rule: xreach.induct)
  case xreach_new
  then show ?case by (simp add: xinv_def new_xhr_def headers_ok_def)
qed (rule xinv_act)

text \<open>
  C2.  In every reachable state, whatever the client calls and the runtime reports, in any order: no header that
  the browser controls, and no header name with a capital, is set or was ever handed to a runtime; every send
  handed over at most one request, on the target that it created or on that of a later send; every set of
  handlers that is bound to a target is that of a request on this target, and is bound once; and \<open>loadend\<close> was
  dispatched exactly once for every request that ended, so at most once for every request.
\<close>

theorem xhr_invariant:
  assumes "xreach w s"
  shows "headers_ok (x_headers s) \<and> (\<forall>r \<in> set (requests s). headers_ok (r_headers r)) \<and>
    distinct (map r_sender (requests s)) \<and> (\<forall>r \<in> set (requests s). r_sender r \<le> r_target r \<and> r_sender r < next_target s) \<and>
    set (live s) \<subseteq> (\<lambda>r. (r_target r, r_sender r)) ` set (requests s) \<and> distinct (map snd (live s)) \<and>
    distinct (ended s) \<and> set (ended s) \<subseteq> r_sender ` set (requests s) \<and>
    length (filter (\<lambda>d. d = Self (js ''loadend'')) (log s)) = length (ended s) \<and>
    length (ended s) \<le> length (requests s)"
proof -
  have s: "xinv s" using xinv_reach [OF assms] .
  have "length (ended s) = card (set (ended s))" using s distinct_card [of "ended s"] unfolding xinv_def by auto
  also have "\<dots> \<le> card (r_sender ` set (requests s))" using s unfolding xinv_def by (intro card_mono) auto
  also have "\<dots> \<le> length (requests s)"
    using card_image_le [of "set (requests s)" r_sender] card_length [of "requests s"] by simp
  finally show ?thesis using s by (simp add: xinv_def)
qed

definition example_page :: surroundings where
  "example_page =
     \<lparr>location = js ''http://a/'', runtimes = [js ''r''], inherited = (\<lambda>_. js ''function''),
      tables = \<lparr>mimes = [(js ''jpg'', js ''image/jpeg'')], extensions = [(js ''image/jpeg'', [js ''jpg''])]\<rparr>\<rparr>"

text \<open>A request that is opened, given one header and refused another, sent to a runtime that is there, and that fails.\<close>

definition example_acts :: "action list" where
  "example_acts =
     [AOpen (js ''get'') (js ''x'') True [] [], AHeader (js ''Accept'') (js ''1''), AHeader (js ''Host'') (js ''b''),
      ASend NoData (OptionsRuid (js ''r'')), AEvent 0 LoadStart, AEvent 0 Error]"

definition example_opened :: xhr where
  "example_opened =
     new_xhr\<lparr>readyState := OPENED, responseText := JStr [], x_url := js ''http://a//x'', x_method := Some (js ''GET''),
       same_origin_flag := True, log := [Self (js ''readystatechange'')]\<rparr>"

lemma example_ascii:
  "\<not> not_ascii (js ''get'')" "\<not> not_ascii (js ''Accept'')" "\<not> not_ascii (js ''Host'')" "utf8_enc (js ''x'') = Some (js ''x'')"
  by (simp_all add: not_ascii_def utf8_enc_def encodeURIComponent_def uri_unescaped_def lead_surrogate_def trail_surrogate_def)

lemma example_open: "perform example_page (AOpen (js ''get'') (js ''x'') True [] []) new_xhr = example_opened"
proof -
  have u: "map upper (js ''get'') = js ''GET''" "js ''get'' \<noteq> []" "js ''x'' \<noteq> []" by (simp_all add: upper_def)
  have k: "inArray (js ''GET'') http_known \<noteq> -1" "inArray (js ''GET'') http_refused = -1" by code_simp+
  have p: "u_user (parseUrl (js ''http://a/'') (js ''x'')) = None" "u_pass (parseUrl (js ''http://a/'') (js ''x'')) = None"
    "hasSameOrigin (js ''http://a/'') (parseUrl (js ''http://a/'') (js ''x''))"
    "resolveUrl (js ''http://a/'') (js ''x'') = js ''http://a//x''" by code_simp+
  show ?thesis using example_ascii u k p
    by (simp add: perform_def open_xhr_def Let_def example_page_def example_opened_def new_xhr_def or_part_def reset_def
        dispatch_def del: js_Cons)
qed

lemma example_headers:
  "perform example_page (AHeader (js ''Accept'') (js ''1'')) example_opened = example_opened\<lparr>x_headers := [(js ''accept'', js ''1'')]\<rparr>"
  "perform example_page (AHeader (js ''Host'') (js ''b'')) (example_opened\<lparr>x_headers := hs\<rparr>) = example_opened\<lparr>x_headers := hs\<rparr>"
proof -
  have t: "map toLower (trim (js ''Accept'')) = js ''accept''" "map toLower (trim (js ''Host'')) = js ''host''"
    "\<not> controlled (js ''accept'')" "controlled (js ''host'')" "read_prop [] (js ''accept'') = (None :: jstr member option)"
    "put_prop [] (js ''accept'') (js ''1'') = [(js ''accept'', js ''1'')]" by code_simp+
  have o: "readyState example_opened = OPENED" "send_flag example_opened = False" "x_headers example_opened = []"
    by (simp_all add: example_opened_def new_xhr_def)
  show "perform example_page (AHeader (js ''Accept'') (js ''1'')) example_opened = example_opened\<lparr>x_headers := [(js ''accept'', js ''1'')]\<rparr>"
    "perform example_page (AHeader (js ''Host'') (js ''b'')) (example_opened\<lparr>x_headers := hs\<rparr>) = example_opened\<lparr>x_headers := hs\<rparr>"
    using example_ascii t o by (simp_all add: perform_def setRequestHeader_def Let_def del: js_Cons)
qed

definition play :: "surroundings \<Rightarrow> action list \<Rightarrow> xhr" where
  "play w as = foldl (\<lambda>s a. perform w a s) new_xhr as"

lemma play_reach: "xreach w (play w as)"
  by (induction as rule: rev_induct) (auto simp: play_def intro: xreach.intros)

lemma example_played:
  "map r_headers (requests (play example_page example_acts)) = [[(js ''accept'', js ''1'')]] \<and>
   ended (play example_page example_acts) = [0]"
proof -
  have "play example_page example_acts =
      foldl (\<lambda>s a. perform example_page a s) (example_opened\<lparr>x_headers := [(js ''accept'', js ''1'')]\<rparr>)
        [ASend NoData (OptionsRuid (js ''r'')), AEvent 0 LoadStart, AEvent 0 Error]"
    unfolding play_def example_acts_def by (simp add: example_open example_headers del: js_Cons)
  moreover have "map r_headers (requests (foldl (\<lambda>s a. perform example_page a s) (example_opened\<lparr>x_headers := [(js ''accept'', js ''1'')]\<rparr>)
        [ASend NoData (OptionsRuid (js ''r'')), AEvent 0 LoadStart, AEvent 0 Error])) = [[(js ''accept'', js ''1'')]]"
    "ended (foldl (\<lambda>s a. perform example_page a s) (example_opened\<lparr>x_headers := [(js ''accept'', js ''1'')]\<rparr>)
        [ASend NoData (OptionsRuid (js ''r'')), AEvent 0 LoadStart, AEvent 0 Error]) = [0]"
    by code_simp+
  ultimately show ?thesis by simp
qed

theorem xhr_invariant_witness:
  "map r_headers (requests (play example_page example_acts)) = [[(js ''accept'', js ''1'')]] \<and>
   headers_ok [(js ''accept'', js ''1'')] \<and>
   length (filter (\<lambda>d. d = Self (js ''loadend'')) (log (play example_page example_acts))) = 1"
proof -
  have "\<exists>r. requests (play example_page example_acts) = [r] \<and> r_headers r = [(js ''accept'', js ''1'')]"
    using example_played by (auto simp: map_eq_Cons_conv simp del: js_Cons)
  then show ?thesis
    using xhr_invariant [OF play_reach, of example_page example_acts] example_played by (auto simp del: js_Cons)
qed

section \<open>The life of a request\<close>

definition report :: "nat \<Rightarrow> revent list \<Rightarrow> xhr \<Rightarrow> xhr" where
  "report t es s = foldl (\<lambda>s e. snd (on_event t e s)) s es"

definition underway :: "revent \<Rightarrow> bool" where
  "underway e \<longleftrightarrow> e = LoadStart \<or> e = Progress \<or> e = UploadProgress"

text \<open>What is dispatched while the request is under way.\<close>

definition news :: "notice \<Rightarrow> bool" where
  "news d \<longleftrightarrow> d \<in> {Self (js ''readystatechange''), Self (js ''loadstart''), Self (js ''progress''),
                    Upload (js ''loadstart''), Upload (js ''progress'')}"

text \<open>Only this request can report.\<close>

definition alone :: "nat \<Rightarrow> xhr \<Rightarrow> bool" where
  "alone t s \<longleftrightarrow> live s = [(t, t)] \<and> waiting s = [] \<and> x_target s = Some t \<and> t \<notin> set (ended s)"

lemma alone_event:
  assumes "alone t s" "e \<noteq> RuntimeInit" "e \<noteq> RuntimeError"
  shows "snd (on_event t e s) = with_self t e (readyState s = LOADING) (before_self e s)"
  using assms by (cases e) (auto simp: alone_def on_event_def event_handler_def bound_to_def Let_def)

lemma event_underway:
  assumes "underway e" "alone t s"
  shows "\<exists>l. list_all news l \<and> log (snd (on_event t e s)) = log s @ l \<and> alone t (snd (on_event t e s)) \<and>
    requests (snd (on_event t e s)) = requests s \<and> responseType (snd (on_event t e s)) = responseType s \<and>
    upload_events_flag (snd (on_event t e s)) = upload_events_flag s \<and> error_flag (snd (on_event t e s)) = error_flag s"
proof -
  have "e \<noteq> RuntimeInit" "e \<noteq> RuntimeError" using assms(1) by (auto simp: underway_def)
  then show ?thesis using assms
    by (auto simp: alone_event underway_def Let_def before_self_def with_self_def dispatch_def dispatch_upload_def news_def
        alone_def simp del: js_Cons)
qed

lemma events_underway:
  "list_all underway es \<Longrightarrow> alone t s \<Longrightarrow>
   \<exists>l. list_all news l \<and> log (report t es s) = log s @ l \<and> alone t (report t es s) \<and>
     requests (report t es s) = requests s \<and> responseType (report t es s) = responseType s \<and>
     upload_events_flag (report t es s) = upload_events_flag s \<and> error_flag (report t es s) = error_flag s"
proof (induction es arbitrary: s)
  case Nil
  then show ?case by (simp add: report_def)
next
  case (Cons e es)
  let ?s = "snd (on_event t e s)"
  obtain l where l: "list_all news l" "log ?s = log s @ l" "alone t ?s"
      "requests ?s = requests s" "responseType ?s = responseType s" "upload_events_flag ?s = upload_events_flag s"
      "error_flag ?s = error_flag s"
    using event_underway [of e t s] Cons.prems by auto
  have t: "report t (e # es) s = report t es ?s" by (simp add: report_def)
  obtain l' where "list_all news l'" "log (report t es ?s) = log ?s @ l'" "alone t (report t es ?s)"
      "requests (report t es ?s) = requests ?s" "responseType (report t es ?s) = responseType ?s"
      "upload_events_flag (report t es ?s) = upload_events_flag ?s" "error_flag (report t es ?s) = error_flag ?s"
    using Cons.IH [of ?s] Cons.prems l by auto
  with l show ?case unfolding t by (intro exI [of _ "l @ l'"]) simp
qed

text \<open>Sending, to a runtime that is there or to one that is there a little later.\<close>

lemma doXHR_starts:
  assumes "doXHR rts b s = (Inr (), s0)" "live s = []" "waiting s = []" "next_target s \<notin> set (ended s)"
  defines "s' \<equiv> snd (on_event (next_target s) RuntimeInit s0)"
  shows "readyState s' = readyState s \<and> alone (next_target s) s' \<and> log s' = log s \<and> error_flag s' = error_flag s \<and>
    responseType s' = responseType s \<and> upload_events_flag s' = upload_events_flag s0 \<and>
    (\<exists>r. requests s' = requests s @ [r] \<and> r_target r = next_target s \<and> r_url r = x_url s \<and> r_method r = x_method s \<and>
      r_headers r = x_headers s)"
proof -
  let ?t = "next_target s"
  obtain opt where "s0 = exec_send ?t ?t b (s\<lparr>x_target := Some ?t, next_target := ?t + 1, x_options := opt\<rparr>) \<or>
      s0 = s\<lparr>x_target := Some ?t, next_target := ?t + 1, x_options := opt, waiting := [(?t, b)]\<rparr>"
    using assms(1,3) unfolding doXHR_def Let_def
    by (simp split: option.splits list.splits if_splits del: js_Cons) blast+
  then show ?thesis using assms(2-4) by (auto simp: s'_def exec_send_def on_event_def alone_def)
qed

lemma send_starts:
  assumes "send_xhr rts b opts s = (Inr (), s0)" "live s = []" "waiting s = []" "next_target s \<notin> set (ended s)"
  defines "s' \<equiv> snd (on_event (next_target s) RuntimeInit s0)"
  shows "readyState s = OPENED \<and> \<not> send_flag s \<and> readyState s' = OPENED \<and> alone (next_target s) s' \<and> log s' = log s \<and>
    error_flag s' = False \<and> responseType s' = responseType s \<and> upload_events_flag s' = upload_events_flag s0 \<and>
    (\<exists>r. requests s' = requests s @ [r] \<and> r_target r = next_target s \<and> r_url r = x_url s \<and> r_method r = x_method s \<and> r_headers r = x_headers s)"
proof -
  define s0' where "s0' = s\<lparr>x_options := (case opts of NoOptions \<Rightarrow> no_options | OptionsRuid r \<Rightarrow> no_options\<lparr>o_ruid := Some r\<rparr>
      | OptionsObj opt \<Rightarrow> opt)\<rparr>"
  obtain r s1 where r: "prepare_body b s0' = (r, s1)" by force
  note u = send_xhr_def Let_def s0'_def [symmetric]
  have o: "readyState s = OPENED \<and> \<not> send_flag s" using assms(1) unfolding u by (auto simp: s0'_def split: if_splits)
  then obtain b' where b': "r = Inr b'" using assms(1) r unfolding u by (cases r) (auto simp: s0'_def)
  have s1: "readyState s1 = readyState s" "ended s1 = ended s" "log s1 = log s" "responseType s1 = responseType s"
      "next_target s1 = next_target s" "live s1 = live s" "waiting s1 = waiting s" "requests s1 = requests s"
      "x_url s1 = x_url s" "x_method s1 = x_method s" "x_headers s1 = x_headers s"
    using r by (auto simp: prepare_body_def Let_def s0'_def split: body.splits option.splits)
  obtain c v k where d: "doXHR rts b' (s1\<lparr>withCredentials := c, upload_events_flag := v, error_flag := False,
      upload_complete_flag := k, send_flag := True\<rparr>) = (Inr (), s0) \<or>
    doXHR rts b' (s1\<lparr>withCredentials := c, upload_events_flag := v, error_flag := False, upload_complete_flag := k\<rparr>) = (Inr (), s0)"
    using assms(1) o r b' unfolding u by (auto simp: s0'_def split: if_splits)
  have "readyState s' = OPENED \<and> alone (next_target s) s' \<and> log s' = log s \<and> error_flag s' = False \<and>
      responseType s' = responseType s \<and> upload_events_flag s' = upload_events_flag s0 \<and>
      (\<exists>r. requests s' = requests s @ [r] \<and> r_target r = next_target s \<and> r_url r = x_url s \<and> r_method r = x_method s \<and>
        r_headers r = x_headers s)"
    using d
  proof
    assume "doXHR rts b' (s1\<lparr>withCredentials := c, upload_events_flag := v, error_flag := False,
      upload_complete_flag := k, send_flag := True\<rparr>) = (Inr (), s0)"
    from doXHR_starts [OF this] show ?thesis using o s1 assms(2-4) unfolding s'_def by simp
  next
    assume "doXHR rts b' (s1\<lparr>withCredentials := c, upload_events_flag := v, error_flag := False,
      upload_complete_flag := k\<rparr>) = (Inr (), s0)"
    from doXHR_starts [OF this] show ?thesis using o s1 assms(2-4) unfolding s'_def by simp
  qed
  with o show ?thesis by blast
qed

text \<open>How a request ends.\<close>

lemma loadEnd_alone:
  assumes "live s = [(t, t)]" "waiting s = []" "x_target s = Some t"
  shows "loadEnd t s = s\<lparr>x_target := None, live := [], log := log s @ [Self (js ''loadend'')], ended := t # ended s\<rparr>"
  using assms by (simp add: loadEnd_def destroy_target_def dispatch_def)

lemma before_load:
  fixes st resp hdrs s
  defines "b \<equiv> before_self (Load st resp hdrs) s"
  shows "readyState b = DONE \<and> x_status b = st \<and> response b = resp \<and> responseHeaders b = hdrs \<and>
    (responseType s \<in> {[], js ''text''} \<longrightarrow> responseText b = resp) \<and> error_flag b = error_flag s"
  by (simp add: b_def before_self_def Let_def inArray_found del: js_Cons)

lemma with_load:
  fixes st resp hdrs was
  assumes "live b = [(t, t)]" "waiting b = []" "x_target b = Some t"
  defines "s' \<equiv> with_self t (Load st resp hdrs) was b"
  shows "readyState s' = readyState b \<and> x_target s' = None \<and> live s' = [] \<and> waiting s' = [] \<and> requests s' = requests b \<and>
    x_status s' = x_status b \<and> response s' = response b \<and> responseHeaders s' = responseHeaders b \<and>
    responseText s' = responseText b \<and> error_flag s' = (error_flag b \<or> x_status b \<le> 0) \<and>
    log s' = log b @ [Self (js ''readystatechange'')] @
      (if x_status b > 0 then (if upload_events_flag b then [Upload (js ''load'')] else []) @ [Self (js ''load'')]
       else [Self (js ''error'')]) @ [Self (js ''loadend'')]"
proof (cases "x_status b > 0")
  case True
  then show ?thesis using assms(1-3)
    by (cases "upload_events_flag b")
      (simp_all add: s'_def with_self_def Let_def loadEnd_alone dispatch_def dispatch_upload_def del: js_Cons)
next
  case False
  then show ?thesis using assms(1-3)
    by (simp add: s'_def with_self_def Let_def loadEnd_alone dispatch_def del: js_Cons)
qed

lemma load_ends:
  fixes st resp hdrs
  assumes "alone t s"
  defines "s' \<equiv> snd (on_event t (Load st resp hdrs) s)"
  shows "readyState s' = DONE \<and> x_target s' = None \<and> live s' = [] \<and> waiting s' = [] \<and> requests s' = requests s \<and>
    x_status s' = st \<and> response s' = resp \<and>
    responseHeaders s' = hdrs \<and> (responseType s \<in> {[], js ''text''} \<longrightarrow> responseText s' = resp) \<and>
    error_flag s' = (error_flag s \<or> st \<le> 0) \<and>
    log s' = log s @ [Self (js ''readystatechange'')] @
      (if st > 0 then (if upload_events_flag s then [Upload (js ''load'')] else []) @ [Self (js ''load'')]
       else [Self (js ''error'')]) @ [Self (js ''loadend'')]"
proof -
  have "s' = with_self t (Load st resp hdrs) (readyState s = LOADING) (before_self (Load st resp hdrs) s)"
    unfolding s'_def using assms(1) by (rule alone_event) simp_all
  moreover note before_load [of st resp hdrs s]
  ultimately show ?thesis using assms(1) before_self_same [of "Load st resp hdrs" s]
      with_load [of "before_self (Load st resp hdrs) s" t st resp hdrs "readyState s = LOADING"]
    by (simp add: alone_def del: js_Cons)
qed

lemma error_ends:
  assumes "alone t s"
  defines "s' \<equiv> snd (on_event t Error s)"
  shows "readyState s' = DONE \<and> x_target s' = None \<and> live s' = [] \<and> waiting s' = [] \<and> requests s' = requests s \<and> error_flag s' \<and>
    log s' = log s @ [Self (js ''readystatechange''), Self (js ''error''), Self (js ''loadend'')]"
proof -
  have "s' = with_self t Error (readyState s = LOADING) (before_self Error s)"
    unfolding s'_def using assms(1) by (rule alone_event) simp_all
  then show ?thesis using assms(1)
    by (auto simp: alone_def Let_def before_self_def with_self_def dispatch_def loadEnd_def destroy_target_def simp del: js_Cons)
qed

text \<open>
  C30.  A request that is sent while no other one of the object is under way or waits for a runtime, to a runtime
  that is there or that is there a little later, and about which the runtime reports any course and then that it
  is loaded, is handed over once and ends done, with the answer, with no handler left that could be called and
  no send that waits, and with \<open>load\<close> or, for a status that is not positive, \<open>error\<close> dispatched exactly once,
  followed by \<open>loadend\<close>; in between only changes of state and progress were dispatched.  A request whose end is
  an error ends in the same way.  (The last hypothesis on \<open>s\<close> holds in every reachable state, by \<open>next_not_ended\<close>.)
\<close>

theorem request_life:
  fixes st resp hdrs
  assumes "send_xhr rts b opts s = (Inr (), s0)" "live s = []" "waiting s = []" "next_target s \<notin> set (ended s)"
    "list_all underway es"
  defines "t \<equiv> next_target s"
  defines "loaded \<equiv> report t (RuntimeInit # es @ [Load st resp hdrs]) s0" and "failure \<equiv> report t (RuntimeInit # es @ [Error]) s0"
  shows "(\<exists>r. requests loaded = requests s @ [r] \<and> requests failure = requests s @ [r] \<and> r_target r = t \<and>
       r_url r = x_url s \<and> r_method r = x_method s \<and> r_headers r = x_headers s) \<and>
    readyState loaded = DONE \<and> x_target loaded = None \<and> live loaded = [] \<and> waiting loaded = [] \<and>
    x_status loaded = st \<and> response loaded = resp \<and> responseHeaders loaded = hdrs \<and>
    (responseType s \<in> {[], js ''text''} \<longrightarrow> responseText loaded = resp) \<and> error_flag loaded = (st \<le> 0) \<and>
    readyState failure = DONE \<and> x_target failure = None \<and> live failure = [] \<and> waiting failure = [] \<and> error_flag failure \<and>
    (\<exists>l. list_all news l \<and>
       log loaded = log s @ l @
         (if st > 0 then (if upload_events_flag s0 then [Upload (js ''load'')] else []) @ [Self (js ''load'')]
          else [Self (js ''error'')]) @ [Self (js ''loadend'')] \<and>
       log failure = log s @ l @ [Self (js ''error''), Self (js ''loadend'')])"
proof -
  define s1 where "s1 = snd (on_event t RuntimeInit s0)"
  note st = send_starts [OF assms(1-4), folded t_def, folded s1_def]
  obtain l where l: "list_all news l" "log (report t es s1) = log s1 @ l" "alone t (report t es s1)"
      "requests (report t es s1) = requests s1"
      "responseType (report t es s1) = responseType s1" "upload_events_flag (report t es s1) = upload_events_flag s1"
      "error_flag (report t es s1) = error_flag s1"
    using events_underway [OF assms(5), of t s1] st by auto
  have ld: "loaded = snd (on_event t (Load st resp hdrs) (report t es s1))" by (simp add: loaded_def report_def s1_def)
  have fd: "failure = snd (on_event t Error (report t es s1))" by (simp add: failure_def report_def s1_def)
  have n: "list_all news (l @ [Self (js ''readystatechange'')])" using l(1) by (simp add: news_def)
  note le = load_ends [OF l(3), of st resp hdrs, folded ld] and ee = error_ends [OF l(3), folded fd]
  have rq: "\<exists>r. requests loaded = requests s @ [r] \<and> requests failure = requests s @ [r] \<and> r_target r = t \<and>
       r_url r = x_url s \<and> r_method r = x_method s \<and> r_headers r = x_headers s"
    using st l(4) le ee by auto
  have "log loaded = log s @ (l @ [Self (js ''readystatechange'')]) @
         (if st > 0 then (if upload_events_flag s0 then [Upload (js ''load'')] else []) @ [Self (js ''load'')]
          else [Self (js ''error'')]) @ [Self (js ''loadend'')]"
    "log failure = log s @ (l @ [Self (js ''readystatechange'')]) @ [Self (js ''error''), Self (js ''loadend'')]"
    using le ee l(2,6) st by (simp_all del: js_Cons)
  with n have "\<exists>l. list_all news l \<and>
       log loaded = log s @ l @
         (if st > 0 then (if upload_events_flag s0 then [Upload (js ''load'')] else []) @ [Self (js ''load'')]
          else [Self (js ''error'')]) @ [Self (js ''loadend'')] \<and>
       log failure = log s @ l @ [Self (js ''error''), Self (js ''loadend'')]" by blast
  moreover have "responseType s1 = responseType s" "error_flag s1 = False" using st by auto
  ultimately show ?thesis using rq le ee l(5,7) by (simp del: js_Cons)
qed

lemma next_not_ended: "xreach w s \<Longrightarrow> next_target s \<notin> set (ended s)"
  using xinv_reach [of w s] by (fastforce simp: xinv_def)

definition opened :: xhr where
  "opened = new_xhr\<lparr>readyState := OPENED, x_url := js ''http://a/'', x_method := Some (js ''GET''), same_origin_flag := True\<rparr>"

lemma opened_send:
  "\<exists>s0. send_xhr [js ''r''] NoData (OptionsRuid (js ''r'')) opened = (Inr (), s0) \<and> upload_events_flag s0 = False"
  by (simp add: send_xhr_def Let_def opened_def new_xhr_def no_options_def prepare_body_def doXHR_def exec_send_def)

theorem request_life_witness:
  "\<exists>s0. send_xhr [js ''r''] NoData (OptionsRuid (js ''r'')) opened = (Inr (), s0) \<and>
     readyState (report 0 [RuntimeInit, LoadStart, Progress, Load 200 (JStr (js ''ok'')) []] s0) = DONE \<and>
     responseText (report 0 [RuntimeInit, LoadStart, Progress, Load 200 (JStr (js ''ok'')) []] s0) = JStr (js ''ok'')"
proof -
  obtain s0 where s0: "send_xhr [js ''r''] NoData (OptionsRuid (js ''r'')) opened = (Inr (), s0)"
    using opened_send by blast
  have "live opened = []" "waiting opened = []" "next_target opened = 0" "next_target opened \<notin> set (ended opened)"
      "responseType opened = []"
    by (simp_all add: opened_def new_xhr_def)
  moreover have "list_all underway [LoadStart, Progress]" by (simp add: underway_def)
  ultimately show ?thesis
    using request_life [OF s0(1), of "[LoadStart, Progress]" 200 "JStr (js ''ok'')" "[]"] s0 by (auto simp del: js_Cons)
qed

section \<open>Requests that go wrong\<close>

text \<open>
  The method is remembered before it is refused, so that after an open that succeeded, one that was refused
  leaves a request that can be sent with the refused method.
\<close>

lemma refused_method_kept:
  assumes "readyState s = OPENED" "url \<noteq> []"
  shows "open_xhr l (js ''trace'') url async user pass s = (Inl SECURITY_ERR, s\<lparr>x_method := Some (js ''TRACE'')\<rparr>) \<and>
    readyState (snd (open_xhr l (js ''trace'') url async user pass s)) = OPENED"
proof -
  have "\<not> not_ascii (js ''trace'')"
    by (simp add: not_ascii_def utf8_enc_def encodeURIComponent_def uri_unescaped_def lead_surrogate_def trail_surrogate_def)
  moreover have "map upper (js ''trace'') = js ''TRACE''" by (simp add: upper_def)
  moreover have "inArray (js ''TRACE'') http_known \<noteq> -1" "inArray (js ''TRACE'') http_refused \<noteq> -1"
    by (simp_all add: http_known_def http_refused_def inArray_found js_inj del: js_Cons)
  moreover have "js ''trace'' \<noteq> []" by simp
  ultimately show ?thesis using assms by (simp add: open_xhr_def Let_def del: js_Cons)
qed

text \<open>An abort before the runtime has reported anything does not reach the runtime, and the request goes on.\<close>

lemma abort_too_early:
  assumes "readyState s = OPENED" "alone t s"
  defines "s1 \<equiv> snd (abort_xhr s)"
  shows "readyState s1 = UNSENT \<and> aborts s1 = aborts s \<and> live s1 = [(t, t)] \<and>
    readyState (snd (on_event t LoadStart s1)) = LOADING"
proof -
  have s1: "s1 = s\<lparr>error_flag := True, sync_flag := False, readyState := UNSENT\<rparr>"
    using assms(1) by (simp add: s1_def abort_xhr_def inArray_found Let_def)
  then have "alone t s1" using assms(2) by (simp add: alone_def)
  then have "snd (on_event t LoadStart s1) = with_self t LoadStart (readyState s1 = LOADING) (before_self LoadStart s1)"
    by (rule alone_event) simp_all
  then show ?thesis using s1 assms(2)
    by (simp add: alone_def before_self_def with_self_def dispatch_def dispatch_upload_def del: js_Cons)
qed

text \<open>When a request is sent while another one is running, the end of the older one destroys the newer one.\<close>

lemma end_destroys_newer:
  assumes "live s = [(t, t), (u, u)]" "t \<noteq> u" "x_target s = Some u" "ended s = []"
  shows "live (snd (on_event t Error s)) = [(t, t)] \<and> ended (snd (on_event t Error s)) = [t]"
  using assms
  by (simp add: on_event_def bound_to_def event_handler_def Let_def before_self_def with_self_def dispatch_def loadEnd_def
      destroy_target_def del: js_Cons)

text \<open>
  When two sends wait for their runtimes, both requests are handed over on the target of the second one, with the
  address and the headers of the second \<open>open\<close>; every report is handled twice, and an error ends both: two
  \<open>loadend\<close>s.  When it is a load, the handlers of the first request end it, and those of the second fail.
\<close>

lemma two_requests_one_target:
  assumes "waiting s = [(u, c), (t, b)]" "t \<noteq> u" "x_target s = Some u" "live s = []" "ended s = []" "requests s = []"
  defines "s2 \<equiv> snd (on_event u RuntimeInit (snd (on_event t RuntimeInit s)))"
  shows "map (\<lambda>r. (r_sender r, r_target r, r_url r, r_data r)) (requests s2) = [(t, u, x_url s, b), (u, u, x_url s, c)] \<and>
    ended (snd (on_event u Error s2)) = [u, t] \<and>
    log (snd (on_event u Error s2)) = log s @
      map Self [js ''readystatechange'', js ''error'', js ''loadend'', js ''readystatechange'', js ''error'', js ''loadend''] \<and>
    fst (on_event u (Load 200 resp hdrs) s2) = Inl TYPE_ERR \<and> ended (snd (on_event u (Load 200 resp hdrs) s2)) = [t]"
proof -
  have i: "waiting s2 = []" "live s2 = [(u, t), (u, u)]" "x_target s2 = Some u" "ended s2 = []" "log s2 = log s"
      "map (\<lambda>r. (r_sender r, r_target r, r_url r, r_data r)) (requests s2) = [(t, u, x_url s, b), (u, u, x_url s, c)]"
    using assms by (simp_all add: s2_def on_event_def exec_send_def)
  then have h: "bound_to u s2 = [t, u]" by (simp add: bound_to_def)
  have e: "ended (snd (on_event u Error s2)) = [u, t]"
      "log (snd (on_event u Error s2)) = log s @
        map Self [js ''readystatechange'', js ''error'', js ''loadend'', js ''readystatechange'', js ''error'', js ''loadend'']"
    using h i(3,4,5) \<open>t \<noteq> u\<close>
    by (simp_all add: on_event_def event_handler_def Let_def before_self_def with_self_def dispatch_def loadEnd_def
        destroy_target_def del: js_Cons)
  let ?l = "Load 200 resp hdrs"
  have c: "x_target (loadEnd k s') = None \<and> ended (loadEnd k s') = k # ended s'" for k s'
    by (simp add: loadEnd_def Let_def dispatch_def destroy_target_def split: option.split)
  have x: "x_target s3 = None \<and> ended s3 = [t]" if "event_handler t ?l s2 = (Inr (), s3)" for s3
  proof -
    have "s3 = with_self t ?l (readyState s2 = LOADING) (before_self ?l s2)"
      using that i(3,4) by (simp add: event_handler_def Let_def)
    moreover have "ended (before_self ?l s2) = []" using before_self_same [of ?l s2] i(4) by simp
    ultimately show ?thesis by (simp add: with_self_def Let_def c)
  qed
  have "\<exists>s3. event_handler t ?l s2 = (Inr (), s3)" using i(3,4) by (simp add: event_handler_def Let_def)
  then obtain s3 where s3: "event_handler t ?l s2 = (Inr (), s3)" ..
  then have "event_handler u ?l s3 = (Inl TYPE_ERR, s3\<lparr>readyState := DONE\<rparr>)" using x [OF s3] by (simp add: event_handler_def)
  then have "fst (on_event u ?l s2) = Inl TYPE_ERR" "ended (snd (on_event u ?l s2)) = [t]"
    using s3 x [OF s3] h by (simp_all add: on_event_def)
  with e i(6) show ?thesis by (simp del: js_Cons)
qed

text \<open>A runtime that is there after the current target was given up finds no target.\<close>

lemma runtime_too_late:
  "map_of (waiting s) t = Some b \<Longrightarrow> x_target s = None \<Longrightarrow> fst (on_event t RuntimeInit s) = Inl TYPE_ERR"
  by (simp add: on_event_def)

text \<open>A runtime that cannot be had leaves the request in its state for ever.\<close>

lemma no_runtime_no_end:
  "map_of (waiting s) t \<noteq> None \<Longrightarrow>
   snd (on_event t RuntimeError s) =
     s\<lparr>waiting := filter (\<lambda>p. fst p \<noteq> t) (waiting s), failed := t # failed s, log := log s @ [Self (js ''RuntimeError'')]\<rparr>"
  by (auto simp: on_event_def dispatch_def)

text \<open>
  The headers of the first response stay those of the object; a value with a colon and a blank is lost; and what
  is returned is the whole line.
\<close>

lemma headers_stay:
  "responseHeadersBag s = Some bag \<Longrightarrow> responseHeaders s \<noteq> [] \<Longrightarrow> hdrs \<noteq> [] \<Longrightarrow>
   fst (getResponseHeader h (s\<lparr>responseHeaders := hdrs\<rparr>)) = fst (getResponseHeader h s)"
  by (simp add: getResponseHeader_def Let_def del: js_Cons)

lemma header_lines:
  "add_line [] (js ''Content-Type: text/html'') = [(js ''content-type'', js ''Content-Type'', js ''text/html'')]"
  "add_line [] (js ''X-Note: a: b'') = []"
  by code_simp+

text \<open>
  The table that is asked for a type has the extensions as its keys: types are refused, and extensions are
  accepted as types.
\<close>

lemma override_asks_extensions:
  assumes "readyState s = OPENED"
  shows "overrideMimeType new_mime (js ''text/plain'') s = (Inl SYNTAX_ERR, s)"
    "overrideMimeType new_mime (js ''jpg'') s = (Inr (), s\<lparr>finalMime := Some (js ''jpg''), finalCharset := None\<rparr>)"
proof -
  have t: "trim (map toLower (js ''text/plain'')) = js ''text/plain''" "trim (map toLower (js ''jpg'')) = js ''jpg''" by code_simp+
  have "map_of (mimes new_mime) (js ''text/plain'') = None"
    by (subst default_type) (simp_all add: mime_text_items)
  then have "read_prop (mimes new_mime) (js ''text/plain'') = None"
    by (simp add: read_prop_def object_prototype_def js_inj del: js_Cons)
  moreover have "read_prop (mimes new_mime) (js ''jpg'') = Some (Own (js ''image/jpeg''))"
    using default_known(2) by (simp del: js_Cons)
  moreover have "59 \<notin> set (js ''text/plain'')" "59 \<notin> set (js ''jpg'')" "js ''image/jpeg'' \<noteq> []" by simp_all
  ultimately show "overrideMimeType new_mime (js ''text/plain'') s = (Inl SYNTAX_ERR, s)"
    "overrideMimeType new_mime (js ''jpg'') s = (Inr (), s\<lparr>finalMime := Some (js ''jpg''), finalCharset := None\<rparr>)"
    using assms t by (simp_all add: overrideMimeType_def Let_def inArray_found del: js_Cons read_prop_Own)
qed

end
