(* ===== verification/Spec2Isabelle.thy ===== *)
theory Spec2Isabelle
  imports MD5 HB_Runtime Base64 Uploader Moxie ImageInfo Xhr
begin

text \<open>
  \<^bold>\<open>The program.\<close>  The web pages of the repository rest on a set of JavaScript files under
  \<open>src/internet_Architec/distributed_services/Arch-proj-demo/ssm-scaffold/src/main/webapp/resources/\<close>.  Two of
  them carry most of the logic: the template engine \<open>js/handlebars.js\<close>, with which the pages render what the
  server answers, and the upload library \<open>plugins/oss/lib/plupload-2.1.2/js/\<close> (\<open>plupload.dev.js\<close> over
  \<open>moxie.js\<close>), with which they send files.  Beside them are the codecs \<open>js/MD5.js\<close> and
  \<open>plugins/oss/lib/base64.js\<close>, with which the pages sign passwords and upload policies.  This development models
  these five files and proves what each part promises.

  \<^bold>\<open>How the parts interact.\<close>  A template text goes through a pipeline: the lexer delivers tokens to the parser,
  whose actions build syntax trees; the compiler turns a tree into opcodes, one list for each block; the generator
  runs the opcodes on its two stacks and emits the text of a JavaScript function; the runtime wraps the function
  as a template that looks helpers and partials up in an environment.  An uploader keeps a queue of files and a
  state, cuts a file into chunks, sends each by a request object, and reports through the event target.  The
  request object resolves the address, tests what the client asks for, and hands the request to a runtime, which
  is chosen among \<open>html5\<close>, \<open>flash\<close>, \<open>silverlight\<close> and \<open>html4\<close> by the capabilities that are required.  Before an
  image is sent, its headers are read and restored by the image modules.

  \<^bold>\<open>Theories.\<close>
  \<^item> \<open>JS_Prelude\<close>: strings of 16-bit units, the 32-bit patterns of the bitwise operators, arrays with holes, decimal
    numbers; \<open>JS_Objects\<close>: objects that inherit members, and splitting strings.
  \<^item> \<open>MD5\<close>: every function of \<open>MD5.js\<close>, under its own name.
  \<^item> \<open>Base64\<close>: every method of \<open>base64.js\<close>.
  \<^item> \<open>HB_Utils\<close>: the values a template sees and the modules \<open>safe-string.js\<close>, \<open>utils.js\<close>, \<open>exception.js\<close>;
    \<open>HB_AST\<close>: the constructors of nodes; \<open>HB_Lexer\<close>: the lexer with its 31 rules; \<open>HB_LR\<close>: what the tables of a
    shift-reduce parser have to satisfy, as the locale \<open>lr_automaton\<close>; \<open>HB_Parser\<close>: the tables, the actions and the
    loop of the parser, on which the locale is interpreted; \<open>HB_Compiler\<close> and \<open>HB_JSCompiler\<close>: the two compilers;
    \<open>HB_Base\<close>: the environment with its seven helpers, and the locale \<open>registry\<close>, interpreted on the tables of
    helpers and of partials; \<open>HB_Runtime\<close>: templates, partials, \<open>compile\<close> and \<open>precompile\<close>.
  \<^item> \<open>Uploader\<close>: the queue of \<open>plupload.dev.js\<close> as a state machine with explicit timers and one running request;
    \<open>PluploadUtils\<close>: its helpers on texts, names, addresses and sizes.
  \<^item> \<open>Moxie\<close>: array helpers, sizes, series, and the event target, whose pool interprets the locale \<open>listener_table\<close>;
    \<open>MoxieBasic\<close>: types, merging of objects, languages; \<open>MoxieEncode\<close>: UTF-8 and Base64; \<open>Mime\<close>: the tables of
    types; \<open>Version\<close>: comparison of versions; \<open>Url\<close>: addresses; \<open>Runtimes\<close>: modes, capabilities and the choice of a
    runtime; \<open>Xhr\<close>: the request object.
  \<^item> \<open>ImageHeaders\<close> and \<open>ImageInfo\<close>: binary strings, JPEG segments, Exif directories, PNG chunks.

  A definition has the name of the function of the source, with a suffix or prefix where the name is taken; a
  closure is a record of what it closes over; objects that are shared and changed in place are in a store and named
  by their index.  Errors are values of a sum type, so that every \<open>throw\<close> and every failure of the engine that
  the code can run into is a branch.  Code that is not in the repository, such as what a helper of the host does,
  the running of generated code, the answers of a server and the facts of a browser, is a parameter.
\<close>

text \<open>
  \<^bold>\<open>What is proved.\<close>
  \<^item> Codecs: the MD5 of the file is that of RFC 1321 on inputs shorter than $2^{32}$ bytes, and its result always
    has the shape of a digest; both Base64 codecs invert their encoders and agree on bytes; UTF-8 encoding by
    escapes is that of the standard.
  \<^item> Templates: escaping leaves no markup; the states of the lexer are well formed whatever the text; the parser
    ends on every text without an internal failure, and what it returns derives exactly the tokens it read; the
    opcodes of a well-formed tree (without parameters such as \<open>[].y\<close>) are balanced, and the generator, run on balanced
    opcodes, never misses an operand and keeps declared variables only; string literals denote what they were made from; children of a program are found in the table under their own name;
    \<open>equals\<close> decides equality; the helpers do what their names say on every branch; a compiled template keeps its
    meaning; the cache of wrappers gives a call its own function exactly where the functions of an index agree.
  \<^item> Uploads: the counters of the queue are right in every reachable state; a file that is done was accepted
    completely and in order; a started queue, in which no file is vetoed or resized, ends.  Events reach handlers by
    priority; parallel callbacks report once in any order.  The mode of a runtime is the intersection of what an object of capabilities
    demands, and a runtime that is chosen can do what is required.  Of a request object, in every reachable state:
    controlled headers are never sent, each send hands over at most one request, and \<open>loadend\<close> is dispatched once
    for each request that ended; a request that is alone and is answered ends with its
    events in order.  Addresses and queries are read back; versions are ordered; types and extensions are
    inverse as far as types have the form of two words.
  \<^item> Images: reading inverts writing in both byte orders; stripping and restoring headers is exact; sizes are
    those of the first frame or the header chunk; setting a dimension changes this tag only.

  Where the code does not do what it means to, the divergence is a lemma in the theory of the part.

  \<^bold>\<open>Bounds.\<close>  Loops of the source are structural recursion or have a measure, except for three.  The parser's loop
  ends because a weight of the stack falls with each reduction that consumes nothing (\<open>HB_LR\<close>).  Calls of helpers
  by name from within helpers take a depth of the stack as an argument, and running out of it throws, as the engine
  does; the theorems about helpers hold for every depth that is large enough for the calls shown.  The queue runs in
  ticks, one for each timer or answer; that enough of them end an upload is what its liveness theorem states.
\<close>

text \<open>
  \<^bold>\<open>Not modelled.\<close>
  \<^item> Floating-point numbers, other than tenths in printed sizes and quotients in Exif data; progress figures.
  \<^item> In \<open>plupload.dev.js\<close>: \<open>setOption\<close> apart from new controls, and the set-up of file pickers and drop zones, which
    creates elements of the page.  In \<open>moxie.js\<close>: the sniffing of the browser's name by regular expressions, the
    extensions of the four runtimes (\<open>Blob\<close>, \<open>FileReader\<close>, \<open>FileInput\<close>, image canvases and so on), and \<open>RuntimeClient\<close>;
    they wrap objects of the browser or of plug-ins, which are not code of the repository.
  \<^item> The page code (\<open>upload.js\<close>, \<open>pupload-sdk.js\<close>, \<open>OssFileUpload.js\<close>, \<open>dtGrid\<close>, widgets), which reads and writes elements;
    jQuery, jQuery UI, the validation plug-in, the editor, and minified files, which are third-party libraries
    over the document; the copy of the resources under \<open>dubbo-jta-samples\<close>, which has the same files; and the Java
    sources.
\<close>

end
